(* ===== verification/Prelude.thy ===== *)
theory Prelude
  imports Main "HOL-Library.Word"
begin

text \<open>
  Shared vocabulary of the development: how a run of the program can end other than by
  returning (\<open>fault\<close>), the state-and-fault monad in which the stateful C functions are
  written, C byte buffers, little-endian integers, and the parts of the C library
  (\<^verbatim>\<open>ctype.h\<close>, \<^verbatim>\<open>printf\<close> conversions, \<^verbatim>\<open>atoll\<close>) that the sources use.
\<close>

unbundle bit_operations_syntax

named_theorems fault_simps \<open>unfolding of the state-and-fault monad\<close>

type_synonym u8 = "8 word"
type_synonym u16 = "16 word"
type_synonym u32 = "32 word"
type_synonym u64 = "64 word"

section \<open>How a run ends without returning\<close>

text \<open>
  \<^verbatim>\<open>fatal_error\<close>, \<^verbatim>\<open>syntax_error\<close>, \<^verbatim>\<open>RUNTIME_ERROR\<close> and
  \<^verbatim>\<open>errmsg_print_formatted\<close> print a message and end the process (lib/utils.c,
  src/errmsg.c; \<^verbatim>\<open>is_repl\<close> is false, the REPL was removed). A failed
  \<^verbatim>\<open>assert\<close> aborts it: the model is of the build with assertions on. A step the C
  standard leaves undefined is \<open>Undefined\<close>, and a recursion that has used up its fuel
  is \<open>Out_of_fuel\<close>.
\<close>

datatype fault =
    Fatal_error string
  | Syntax_error string
  | Syntax_error_at nat nat string
  | Parse_error nat nat nat nat string
  | Runtime_error "nat option" "nat option" string
  | Process_exit nat
  | Assertion_failed string
  | Undefined string
  | Out_of_fuel

type_synonym 'a res = "fault + 'a"
type_synonym ('s, 'a) st = "'s \<Rightarrow> fault + ('a \<times> 's)"

section \<open>The state-and-fault monad\<close>

definition sret :: "'a \<Rightarrow> ('s, 'a) st" where
  "sret x = (\<lambda>s. Inr (x, s))"

definition sthrow :: "fault \<Rightarrow> ('s, 'a) st" where
  "sthrow e = (\<lambda>s. Inl e)"

definition sbind :: "('s, 'a) st \<Rightarrow> ('a \<Rightarrow> ('s, 'b) st) \<Rightarrow> ('s, 'b) st" where
  "sbind m f = (\<lambda>s. case m s of Inl e \<Rightarrow> Inl e | Inr (x, t) \<Rightarrow> f x t)"

definition sget :: "('s \<Rightarrow> 'a) \<Rightarrow> ('s, 'a) st" where
  "sget f = (\<lambda>s. Inr (f s, s))"

definition smod :: "('s \<Rightarrow> 's) \<Rightarrow> ('s, unit) st" where
  "smod f = (\<lambda>s. Inr ((), f s))"

text \<open>A computation that may fault but has no state, run inside the monad.\<close>

definition slift :: "'a res \<Rightarrow> ('s, 'a) st" where
  "slift r = (\<lambda>s. case r of Inl e \<Rightarrow> Inl e | Inr x \<Rightarrow> Inr (x, s))"

definition sassert :: "bool \<Rightarrow> string \<Rightarrow> ('s, unit) st" where
  "sassert b msg = (if b then sret () else sthrow (Assertion_failed msg))"

definition rbind :: "'a res \<Rightarrow> ('a \<Rightarrow> 'b res) \<Rightarrow> 'b res" where
  "rbind r f = (case r of Inl e \<Rightarrow> Inl e | Inr x \<Rightarrow> f x)"

lemma sret_apply [simp, fault_simps]: "sret x s = Inr (x, s)"
  by (simp add: sret_def)

lemma sthrow_apply [simp, fault_simps]: "sthrow e s = Inl e"
  by (simp add: sthrow_def)

lemma sget_apply [simp, fault_simps]: "sget f s = Inr (f s, s)"
  by (simp add: sget_def)

lemma smod_apply [simp, fault_simps]: "smod f s = Inr ((), f s)"
  by (simp add: smod_def)

lemma slift_Inl [simp, fault_simps]: "slift (Inl e) s = Inl e"
  by (simp add: slift_def)

lemma slift_Inr [simp, fault_simps]: "slift (Inr x) s = Inr (x, s)"
  by (simp add: slift_def)

lemma sassert_True [simp]: "sassert True msg = sret ()"
  by (simp add: sassert_def)

lemma sassert_False [simp]: "sassert False msg = sthrow (Assertion_failed msg)"
  by (simp add: sassert_def)

lemma rbind_simps [simp, fault_simps]:
  "rbind (Inl e) f = Inl e" "rbind (Inr x) f = f x"
  by (simp_all add: rbind_def)

lemma sbind_Inl: "m s = Inl e \<Longrightarrow> sbind m f s = Inl e"
  by (simp add: sbind_def)

lemma sbind_Inr: "m s = Inr (x, t) \<Longrightarrow> sbind m f s = f x t"
  by (simp add: sbind_def)

text \<open>With a Boolean value the simplifier needs the two instances.\<close>

lemma sbind_bool:
  "m s = Inr (True, t) \<Longrightarrow> sbind m f s = f True t" "m s = Inr (False, t) \<Longrightarrow> sbind m f s = f False t"
  by (simp_all add: sbind_def)

lemmas sbind_step = sbind_Inr sbind_bool

lemma sbind_sret [simp]: "sbind (sret x) f = f x"
  by (simp add: sbind_def sret_def)

lemma sbind_sthrow [simp]: "sbind (sthrow e) f = sthrow e"
  by (simp add: sbind_def sthrow_def)

lemma sbind_sret_right [simp]: "sbind m sret = m"
  by (auto simp: sbind_def sret_def split: sum.splits)

lemma sbind_assoc: "sbind (sbind m f) g = sbind m (\<lambda>x. sbind (f x) g)"
  by (auto simp: sbind_def split: sum.splits)

lemma sbind_eq_Inr:
  "sbind m f s = Inr (y, u) \<longleftrightarrow> (\<exists>x t. m s = Inr (x, t) \<and> f x t = Inr (y, u))"
  by (auto simp: sbind_def split: sum.splits)

lemma sbind_eq_Inl:
  "sbind m f s = Inl e \<longleftrightarrow> m s = Inl e \<or> (\<exists>x t. m s = Inr (x, t) \<and> f x t = Inl e)"
  by (auto simp: sbind_def split: sum.splits)

lemma sbind_cong:
  "m s = m' s \<Longrightarrow> (\<And>x t. m' s = Inr (x, t) \<Longrightarrow> f x t = f' x t) \<Longrightarrow> sbind m f s = sbind m' f' s"
  by (auto simp: sbind_def split: sum.splits)

lemma slift_eq_Inr: "slift r s = Inr (x, t) \<longleftrightarrow> r = Inr x \<and> t = s"
  by (auto simp: slift_def split: sum.splits)

lemma slift_eq_Inl: "slift r s = Inl e \<longleftrightarrow> r = Inl e"
  by (auto simp: slift_def split: sum.splits)

lemma sassert_eq_Inr: "sassert b msg s = Inr (x, t) \<longleftrightarrow> b \<and> t = s"
  by (auto simp: sassert_def)

lemma sassert_eq_Inl: "sassert b msg s = Inl e \<longleftrightarrow> \<not> b \<and> e = Assertion_failed msg"
  by (auto simp: sassert_def)

lemma rbind_eq_Inr: "rbind r f = Inr y \<longleftrightarrow> (\<exists>x. r = Inr x \<and> f x = Inr y)"
  by (auto simp: rbind_def split: sum.splits)

lemma rbind_eq_Inl: "rbind r f = Inl e \<longleftrightarrow> r = Inl e \<or> (\<exists>x. r = Inr x \<and> f x = Inl e)"
  by (auto simp: rbind_def split: sum.splits)

lemmas monad_inversion = sbind_eq_Inr slift_eq_Inr sassert_eq_Inr rbind_eq_Inr

lemma take_drop_append [simp]: "take n xs @ drop n xs @ ys = xs @ ys"
  by (simp flip: append_assoc)

section \<open>C byte buffers\<close>

text \<open>
  A \<^verbatim>\<open>malloc\<close>ed array of bytes: its length is the allocated size, and \<open>None\<close> is a
  byte that was allocated but never written. Reading such a byte, or any access past the
  end, is undefined.
\<close>

type_synonym buffer = "u8 option list"

definition buf_get :: "buffer \<Rightarrow> nat \<Rightarrow> u8 res" where
  "buf_get b i =
     (if i < length b
      then (case b ! i of
              None \<Rightarrow> Inl (Undefined ''read of an indeterminate byte'')
            | Some x \<Rightarrow> Inr x)
      else Inl (Undefined ''buffer over-read''))"

definition buf_set :: "buffer \<Rightarrow> nat \<Rightarrow> u8 \<Rightarrow> buffer res" where
  "buf_set b i x =
     (if i < length b then Inr (b[i := Some x]) else Inl (Undefined ''buffer overflow''))"

text \<open>\<^verbatim>\<open>xrealloc\<close>: the bytes it adds are indeterminate.\<close>

definition buf_realloc :: "buffer \<Rightarrow> nat \<Rightarrow> buffer" where
  "buf_realloc b n = take n b @ replicate (n - length b) None"

text \<open>\<^verbatim>\<open>memcpy\<close> out of a buffer and into one.\<close>

fun buf_read :: "buffer \<Rightarrow> nat \<Rightarrow> nat \<Rightarrow> u8 list res" where
  "buf_read b i 0 = Inr []"
| "buf_read b i (Suc n) =
     rbind (buf_get b i) (\<lambda>x. rbind (buf_read b (Suc i) n) (\<lambda>xs. Inr (x # xs)))"

fun buf_write :: "buffer \<Rightarrow> nat \<Rightarrow> u8 list \<Rightarrow> buffer res" where
  "buf_write b i [] = Inr b"
| "buf_write b i (x # xs) = rbind (buf_set b i x) (\<lambda>b'. buf_write b' (Suc i) xs)"

lemma buf_get_Inr: "buf_get b i = Inr x \<longleftrightarrow> i < length b \<and> b ! i = Some x"
  by (auto simp: buf_get_def split: option.splits)

lemma buf_set_Inr: "buf_set b i x = Inr b' \<longleftrightarrow> i < length b \<and> b' = b[i := Some x]"
  by (auto simp: buf_set_def)

lemma length_buf_realloc [simp]: "length (buf_realloc b n) = n"
  by (simp add: buf_realloc_def)

lemma nth_buf_realloc: "i < length b \<Longrightarrow> length b \<le> n \<Longrightarrow> buf_realloc b n ! i = b ! i"
  by (simp add: buf_realloc_def nth_append)

lemma buf_write_Inr_length: "buf_write b i xs = Inr b' \<Longrightarrow> length b' = length b"
  by (induction b i xs rule: buf_write.induct) (auto simp: rbind_eq_Inr buf_set_Inr)

lemma buf_write_eq:
  "i + length xs \<le> length b \<Longrightarrow>
   buf_write b i xs = Inr (take i b @ map Some xs @ drop (i + length xs) b)"
proof (induction b i xs rule: buf_write.induct)
  case (1 b i)
  then show ?case by simp
next
  case (2 b i x xs)
  then have i: "i < length b" by simp
  have "buf_write b i (x # xs) = buf_write (b[i := Some x]) (Suc i) xs"
    using i by (simp add: buf_set_def)
  also have "\<dots> = Inr (take (Suc i) (b[i := Some x]) @ map Some xs
                       @ drop (Suc i + length xs) (b[i := Some x]))"
    using 2 i by (simp add: buf_set_def)
  also have "take (Suc i) (b[i := Some x]) = take i b @ [Some x]"
    using i by (simp add: take_Suc_conv_app_nth)
  finally show ?case by simp
qed

lemma buf_write_overflow:
  "length b < i + length xs \<Longrightarrow> xs \<noteq> [] \<Longrightarrow> buf_write b i xs = Inl (Undefined ''buffer overflow'')"
proof (induction xs arbitrary: b i)
  case Nil
  then show ?case by simp
next
  case (Cons x xs)
  show ?case
  proof (cases "i < length b")
    case True
    with Cons.prems have "xs \<noteq> []" by auto
    with True Cons show ?thesis by (simp add: buf_set_def)
  next
    case False
    then show ?thesis by (simp add: buf_set_def)
  qed
qed

lemma buf_read_eq:
  "i + n \<le> length b \<Longrightarrow> take n (drop i b) = map Some xs \<Longrightarrow> buf_read b i n = Inr xs"
proof (induction n arbitrary: i xs)
  case 0
  then show ?case by simp
next
  case (Suc n)
  then have i: "i < length b" by simp
  have "drop i b = b ! i # drop (Suc i) b"
    using i by (simp add: Cons_nth_drop_Suc)
  with Suc.prems obtain y ys where xs: "xs = y # ys" and y: "b ! i = Some y"
    and ys: "take n (drop (Suc i) b) = map Some ys"
    by (cases xs) auto
  have "buf_read b (Suc i) n = Inr ys"
    using Suc.prems ys by (intro Suc.IH) simp_all
  then show ?case
    using i y xs by (simp add: buf_get_def)
qed

lemma buf_read_beyond:
  "length b \<le> i \<Longrightarrow> 0 < n \<Longrightarrow> buf_read b i n = Inl (Undefined ''buffer over-read'')"
  by (cases n) (simp_all add: buf_get_def)

lemma buf_read_Inr_length: "buf_read b i n = Inr xs \<Longrightarrow> length xs = n"
  by (induction n arbitrary: i xs) (auto simp: rbind_eq_Inr)

section \<open>Little-endian integers\<close>

text \<open>
  \<^verbatim>\<open>memcpy\<close> between an integer object and bytes on a little-endian CPU, the only kind
  \<^verbatim>\<open>blazevm\<close> starts on.
\<close>

definition le_bytes :: "nat \<Rightarrow> 'a::len word \<Rightarrow> u8 list" where
  "le_bytes n w = map (\<lambda>i. ucast (drop_bit (8 * i) w)) [0..<n]"

fun le_word :: "u8 list \<Rightarrow> 'a::len word" where
  "le_word [] = 0"
| "le_word (b # bs) = ucast b OR push_bit 8 (le_word bs)"

lemma length_le_bytes [simp]: "length (le_bytes n w) = n"
  by (simp add: le_bytes_def)

lemma bit_le_word:
  "bit (le_word bs :: 'a::len word) k \<longleftrightarrow>
     k < LENGTH('a) \<and> k div 8 < length bs \<and> bit (bs ! (k div 8)) (k mod 8)"
proof (induction bs arbitrary: k)
  case Nil
  then show ?case by simp
next
  case (Cons b bs)
  show ?case
  proof (cases "k < 8")
    case True
    then show ?thesis
      by (auto simp: bit_simps bit_imp_le_length dest: bit_imp_le_length)
  next
    case False
    then obtain j where k: "k = 8 + j"
      by (metis le_iff_add not_less)
    have dm: "(8 + j) div 8 = Suc (j div 8)" "(8 + j) mod 8 = j mod 8" by simp_all
    have "\<not> bit b k" using False by (auto dest: bit_imp_le_length)
    then show ?thesis
      using k Cons.IH [of j] by (auto simp: bit_simps dm)
  qed
qed

lemma le_word_le_bytes:
  assumes "LENGTH('a::len) \<le> 8 * n"
  shows "le_word (le_bytes n w) = (w :: 'a word)"
proof (rule bit_word_eqI)
  fix k assume k: "k < LENGTH('a)"
  with assms have kn: "k div 8 < n" by (simp add: less_mult_imp_div_less)
  have "8 * (k div 8) + k mod 8 = k" by simp
  then show "bit (le_word (le_bytes n w) :: 'a word) k = bit w k"
    using k kn by (simp add: bit_le_word le_bytes_def bit_simps)
qed

lemma unat_u64_less: "unat (w :: u64) < 2 ^ 64"
proof -
  have "unat w < 2 ^ LENGTH(64)" by (rule unsigned_less)
  then show ?thesis by simp
qed

lemma unat_of_nat_u64: "k < 2 ^ 64 \<Longrightarrow> unat (of_nat k :: u64) = k"
  by (simp add: unat_of_nat take_bit_nat_eq_self)

section \<open>Characters and numbers of the C library\<close>

text \<open>
  \<^verbatim>\<open>ctype.h\<close> in the C locale, the one a program starts in; no source file calls
  \<^verbatim>\<open>setlocale\<close>. Bytes above 127 belong to no class.
\<close>

definition char_code :: "char \<Rightarrow> nat" where
  "char_code c = of_char c"

definition isdigit :: "char \<Rightarrow> bool" where
  "isdigit c \<longleftrightarrow> c \<in> set ''0123456789''"

definition isalpha :: "char \<Rightarrow> bool" where
  "isalpha c \<longleftrightarrow> c \<in> set ''abcdefghijklmnopqrstuvwxyzABCDEFGHIJKLMNOPQRSTUVWXYZ''"

definition isalnum :: "char \<Rightarrow> bool" where
  "isalnum c \<longleftrightarrow> isalpha c \<or> isdigit c"

definition newline :: char where
  "newline = CHR 0x0A"

definition carriage_return :: char where
  "carriage_return = CHR 0x0D"

definition isspace :: "char \<Rightarrow> bool" where
  "isspace c \<longleftrightarrow> c \<in> {CHR '' '', CHR 0x09, CHR 0x0A, CHR 0x0B, CHR 0x0C, CHR 0x0D}"

text \<open>What \<^verbatim>\<open>strdup\<close> and \<^verbatim>\<open>strlen\<close> see of a byte string: up to the first NUL.\<close>

definition c_string :: "string \<Rightarrow> string" where
  "c_string s = takeWhile (\<lambda>c. c \<noteq> CHR 0x00) s"

lemma isdigit_alnum [simp]: "isdigit c \<Longrightarrow> isalnum c"
  by (simp add: isalnum_def)

lemma isalpha_alnum [simp]: "isalpha c \<Longrightarrow> isalnum c"
  by (simp add: isalnum_def)

text \<open>The digits of the \<^verbatim>\<open>%llu\<close>, \<^verbatim>\<open>%lld\<close> and \<^verbatim>\<open>%lx\<close> conversions.\<close>

definition digit_char :: "nat \<Rightarrow> char" where
  "digit_char d = ''0123456789abcdef'' ! d"

function digits :: "nat \<Rightarrow> nat \<Rightarrow> string" where
  "digits b n =
     (if b < 2 \<or> n < b then [digit_char n] else digits b (n div b) @ [digit_char (n mod b)])"
  by pat_completeness auto
termination
  by (relation "measure snd") auto

declare digits.simps [simp del]

definition fmt_d :: "int \<Rightarrow> string" where
  "fmt_d i = (if i < 0 then CHR ''-'' # digits 10 (nat (- i)) else digits 10 (nat i))"

text \<open>\<^verbatim>\<open>%02lx\<close>: hexadecimal, padded with zeros to two digits.\<close>

definition fmt_02x :: "nat \<Rightarrow> string" where
  "fmt_02x n = (if n < 16 then CHR ''0'' # digits 16 n else digits 16 n)"

lemma digits_length:
  assumes "2 \<le> b" and "n < b ^ k" and "0 < k"
  shows "length (digits b n) \<le> k"
  using assms
proof (induction k arbitrary: n)
  case 0
  then show ?case by simp
next
  case (Suc k)
  show ?case
  proof (cases "n < b")
    case True
    then show ?thesis by (simp add: digits.simps [of b n])
  next
    case False
    with Suc.prems have "0 < k" by (cases k) auto
    moreover have "n div b < b ^ k"
      using Suc.prems by (simp add: less_mult_imp_div_less mult.commute)
    ultimately have "length (digits b (n div b)) \<le> k"
      using Suc.IH Suc.prems by simp
    with False Suc.prems show ?thesis by (simp add: digits.simps [of b n])
  qed
qed

lemma digits_length_ge:
  assumes "2 \<le> b" and "b ^ k \<le> n"
  shows "k < length (digits b n)"
  using assms
proof (induction k arbitrary: n)
  case 0
  then show ?case by (simp add: digits.simps [of b n])
next
  case (Suc k)
  have "b * 1 \<le> b * b ^ k" using Suc.prems(1) by (intro mult_le_mono2) simp
  also have "\<dots> \<le> n" using Suc.prems(2) by simp
  finally have "b \<le> n" by simp
  moreover have "b ^ k \<le> n div b"
    using Suc.prems by (simp add: less_eq_div_iff_mult_less_eq mult.commute)
  ultimately show ?case
    using Suc by (simp add: digits.simps [of b n])
qed

lemma digits_nonempty [simp]: "digits b n \<noteq> []"
  by (simp add: digits.simps [of b n])

text \<open>
  \<^verbatim>\<open>atoll\<close> on a string of decimal digits (the parser asserts that there is nothing
  else). A value that does not fit \<^verbatim>\<open>long long\<close> is undefined.
\<close>

definition digit_value :: "char \<Rightarrow> nat" where
  "digit_value c = char_code c - 48"

definition digits_value :: "string \<Rightarrow> nat" where
  "digits_value s = foldl (\<lambda>n c. 10 * n + digit_value c) 0 s"

definition llong_max :: int where
  "llong_max = 2 ^ 63 - 1"

definition llong_min :: int where
  "llong_min = - (2 ^ 63)"

definition in_llong :: "int \<Rightarrow> bool" where
  "in_llong i \<longleftrightarrow> llong_min \<le> i \<and> i \<le> llong_max"

definition atoll :: "string \<Rightarrow> int res" where
  "atoll s =
     (if in_llong (int (digits_value s)) then Inr (int (digits_value s))
      else Inl (Undefined ''atoll: value not representable''))"

lemma digit_value_digit_char [simp]: "d < 10 \<Longrightarrow> digit_value (digit_char d) = d"
  by (auto simp: digit_char_def digit_value_def char_code_def less_Suc_eq numeral_eq_Suc)

lemma isdigit_digit_char [simp]: "d < 10 \<Longrightarrow> isdigit (digit_char d)"
  by (auto simp: digit_char_def isdigit_def less_Suc_eq numeral_eq_Suc)

lemma digits_value_snoc: "digits_value (s @ [c]) = 10 * digits_value s + digit_value c"
  by (simp add: digits_value_def)

lemma digits_value_digits: "digits_value (digits 10 n) = n"
proof (induction n rule: less_induct)
  case (less n)
  show ?case
  proof (cases "n < 10")
    case True
    then show ?thesis
      by (simp add: digits.simps [of 10 n] digits_value_def)
  next
    case False
    then have "digits_value (digits 10 (n div 10)) = n div 10"
      by (intro less.IH) simp
    with False show ?thesis
      by (simp add: digits.simps [of 10 n] digits_value_snoc)
  qed
qed

lemma digits_all_isdigit: "\<forall>c \<in> set (digits 10 n). isdigit c"
proof (induction n rule: less_induct)
  case (less n)
  show ?case
  proof (cases "n < 10")
    case True
    then show ?thesis by (simp add: digits.simps [of 10 n])
  next
    case False
    then have "\<forall>c \<in> set (digits 10 (n div 10)). isdigit c"
      by (intro less.IH) simp
    with False show ?thesis by (auto simp: digits.simps [of 10 n])
  qed
qed

lemma atoll_digits: "in_llong (int n) \<Longrightarrow> atoll (digits 10 n) = Inr (int n)"
  by (simp add: atoll_def digits_value_digits)

end
