(* ===== verification/Lexer.thy ===== *)
theory Lexer
  imports Prelude
begin

text \<open>
  The lexer (src/lexer.c, src/lexer.h) as the source writes it: a buffer, an index into it, a
  line and column counter and the token array. Theory Lexer\_Spec states what it computes on the
  characters that remain.
\<close>

section \<open>Tokens and the state of the lexer\<close>

datatype lex_token_type =
    T_UNKNOWN | T_SEMICOLON | T_INT_LIT | T_EOF | T_STRING | T_BINARY_OPERATOR | T_IDENTIFIER
  | T_PAREN_OPEN | T_PAREN_CLOSE | T_VAR | T_CONST | T_ASSIGNMENT | T_COMMA | T_FUNCTION
  | T_BLOCK_BRACE_OPEN | T_BLOCK_BRACE_CLOSE | T_PERIOD | T_SQUARE_BRACE_OPEN
  | T_SQUARE_BRACE_CLOSE | T_IMPORT | T_ARRAY | T_IF | T_ELSE | T_LOOP | T_AS

record lex_token =
  lt_type :: lex_token_type
  lt_value :: string
  lt_line_start :: nat
  lt_line_end :: nat
  lt_column_start :: nat
  lt_column_end :: nat

text \<open>
  \<^verbatim>\<open>token_count\<close> is the length of the token list, and \<open>lex_buf\<close> is the C string without
  its NUL.
\<close>

record lex =
  lex_len :: nat
  lex_buf :: string
  lex_filename :: string
  lex_tokens :: "lex_token list"
  lex_current_line :: nat
  lex_current_column :: nat
  lex_index :: nat

definition chartokens :: "(char \<times> lex_token_type) list" where
  "chartokens =
     [(CHR '';'', T_SEMICOLON), (CHR ''('', T_PAREN_OPEN), (CHR '')'', T_PAREN_CLOSE),
      (CHR ''+'', T_BINARY_OPERATOR), (CHR ''-'', T_BINARY_OPERATOR), (CHR ''/'', T_BINARY_OPERATOR),
      (CHR ''*'', T_BINARY_OPERATOR), (CHR ''%'', T_BINARY_OPERATOR), (CHR ''='', T_ASSIGNMENT),
      (CHR '','', T_COMMA), (CHR ''{'', T_BLOCK_BRACE_OPEN), (CHR ''}'', T_BLOCK_BRACE_CLOSE),
      (CHR ''.'', T_PERIOD), (CHR ''['', T_SQUARE_BRACE_OPEN), (CHR '']'', T_SQUARE_BRACE_CLOSE),
      (CHR ''<'', T_BINARY_OPERATOR), (CHR ''>'', T_BINARY_OPERATOR)]"

definition keywords_tbl :: "(string \<times> lex_token_type) list" where
  "keywords_tbl =
     [(''var'', T_VAR), (''const'', T_CONST), (''function'', T_FUNCTION), (''array'', T_ARRAY),
      (''import'', T_IMPORT), (''if'', T_IF), (''else'', T_ELSE), (''loop'', T_LOOP), (''as'', T_AS)]"

section \<open>Operations\<close>

definition lex_init :: "string \<Rightarrow> string \<Rightarrow> lex" where
  "lex_init filename buf =
     \<lparr> lex_len = length (c_string buf), lex_buf = c_string buf, lex_filename = c_string filename,
       lex_tokens = [], lex_current_line = 1, lex_current_column = 1, lex_index = 0 \<rparr>"

text \<open>It replaces the buffer and leaves the length as it was.\<close>

definition lex_set_contents :: "string \<Rightarrow> lex \<Rightarrow> lex" where
  "lex_set_contents new_buf l = l\<lparr> lex_buf := c_string new_buf \<rparr>"

definition lex_tokens_array_push :: "lex_token \<Rightarrow> (lex, unit) st" where
  "lex_tokens_array_push token = smod (\<lambda>l. l\<lparr> lex_tokens := lex_tokens l @ [token] \<rparr>)"

definition lex_token_push_default :: "lex_token_type \<Rightarrow> string \<Rightarrow> (lex, unit) st" where
  "lex_token_push_default type value =
     sbind (sget (\<lambda>l. l)) (\<lambda>l.
     lex_tokens_array_push
       \<lparr> lt_type = type, lt_value = value,
         lt_line_start = lex_current_line l, lt_line_end = lex_current_line l,
         lt_column_start = lex_current_column l, lt_column_end = lex_current_column l \<rparr>)"

definition lex_has_value :: "lex \<Rightarrow> bool" where
  "lex_has_value l \<longleftrightarrow> lex_index l < lex_len l"

text \<open>\<^verbatim>\<open>lex->buf[i]\<close>: the string, its NUL, and nothing defined after it.\<close>

definition lex_buf_at :: "nat \<Rightarrow> (lex, char) st" where
  "lex_buf_at i = (\<lambda>l.
     if i < length (lex_buf l) then Inr (lex_buf l ! i, l)
     else if i = length (lex_buf l) then Inr (CHR 0x00, l)
     else Inl (Undefined ''read past the end of the source''))"

definition no_character :: string where
  "no_character = ''No character is remaining to return''"

definition lex_char_forward :: "(lex, char) st" where
  "lex_char_forward =
     sbind (sget lex_has_value) (\<lambda>h.
     sbind (sassert h no_character) (\<lambda>_.
     sbind (sget lex_index) (\<lambda>i.
     sbind (lex_buf_at i) (\<lambda>c.
     sbind (smod (\<lambda>l. l\<lparr> lex_index := lex_index l + 1 \<rparr>)) (\<lambda>_.
     sbind (if c = carriage_return \<or> c = newline
            then smod (\<lambda>l. l\<lparr> lex_current_line := lex_current_line l + 1, lex_current_column := 1 \<rparr>)
            else smod (\<lambda>l. l\<lparr> lex_current_column := lex_current_column l + 1 \<rparr>)) (\<lambda>_.
     sret c))))))"

definition lex_char :: "(lex, char) st" where
  "lex_char =
     sbind (sget lex_has_value) (\<lambda>h.
     sbind (sassert h no_character) (\<lambda>_.
     sbind (sget lex_index) lex_buf_at))"

text \<open>
  The loop of \<^verbatim>\<open>lex_string\<close>, \<^verbatim>\<open>lex_number\<close>, \<^verbatim>\<open>lex_identifier_or_keyword\<close> and of the
  line comments: characters are appended to the buffer while there are any and they satisfy
  \<open>P\<close>.
\<close>

lemma lex_char_forward_Inr:
  "lex_char_forward l = Inr (c, l') \<Longrightarrow>
     lex_has_value l \<and> lex_index l' = Suc (lex_index l) \<and> lex_len l' = lex_len l \<and> lex_buf l' = lex_buf l"
  by (auto simp: lex_char_forward_def monad_inversion lex_buf_at_def split: if_splits)

function lex_while :: "(char \<Rightarrow> bool) \<Rightarrow> string \<Rightarrow> (lex, string) st" where
  "lex_while P buf l =
     (if lex_has_value l
      then case lex_char l of
             Inl e \<Rightarrow> Inl e
           | Inr (c, _) \<Rightarrow>
               (if P c
                then case lex_char_forward l of
                       Inl e \<Rightarrow> Inl e
                     | Inr (c', l') \<Rightarrow> lex_while P (buf @ [c']) l'
                else Inr (buf, l))
      else Inr (buf, l))"
  by pat_completeness auto
termination
  by (relation "measure (\<lambda>(P, buf, l). lex_len l - lex_index l)")
     (auto dest!: lex_char_forward_Inr simp: lex_has_value_def)

declare lex_while.simps [simp del]

fun forward_n :: "nat \<Rightarrow> (lex, unit) st" where
  "forward_n 0 = sret ()"
| "forward_n (Suc n) = sbind lex_char_forward (\<lambda>_. forward_n n)"

text \<open>The token literal all scanning functions push: from a column to where the lexer is.\<close>

definition push_from :: "nat \<Rightarrow> lex_token_type \<Rightarrow> string \<Rightarrow> (lex, unit) st" where
  "push_from column_start type value =
     sbind (sget (\<lambda>l. l)) (\<lambda>l.
     lex_tokens_array_push
       \<lparr> lt_type = type, lt_value = value,
         lt_line_start = lex_current_line l, lt_line_end = lex_current_line l,
         lt_column_start = column_start, lt_column_end = lex_current_column l \<rparr>)"

definition unterminated_string :: "char \<Rightarrow> string" where
  "unterminated_string quote = ''unterminated string: expected '' @ [CHR 0x27, quote, CHR 0x27]"

definition lex_string :: "(lex, unit) st" where
  "lex_string =
     sbind (sget lex_current_column) (\<lambda>column_start.
     sbind lex_char_forward (\<lambda>quote.
     sbind (lex_while (\<lambda>c. c \<noteq> quote) []) (\<lambda>strbuf.
     sbind (sget lex_has_value) (\<lambda>h.
     sbind (if h then sbind lex_char (\<lambda>c. sret (c \<noteq> quote)) else sret True) (\<lambda>unterminated.
     if unterminated
     then sbind (sget (\<lambda>l. l)) (\<lambda>l.
          sthrow (Syntax_error_at (lex_current_line l) (lex_current_column l) (unterminated_string quote)))
     else
     sbind lex_char_forward (\<lambda>_. push_from column_start T_STRING strbuf))))))"

definition lex_number :: "(lex, unit) st" where
  "lex_number =
     sbind (sget lex_current_column) (\<lambda>column_start.
     sbind (lex_while isdigit []) (\<lambda>numbuf. push_from column_start T_INT_LIT numbuf))"

fun find_keyword :: "(string \<times> lex_token_type) list \<Rightarrow> string \<Rightarrow> lex_token_type" where
  "find_keyword [] s = T_UNKNOWN"
| "find_keyword ((k, t) # ks) s = (if k = s then t else find_keyword ks s)"

definition convert_str_to_token :: "string \<Rightarrow> lex_token_type" where
  "convert_str_to_token keyword = find_keyword keywords_tbl keyword"

definition is_word_char :: "char \<Rightarrow> bool" where
  "is_word_char c \<longleftrightarrow> isalnum c \<or> c = CHR ''_''"

definition lex_identifier_or_keyword :: "(lex, unit) st" where
  "lex_identifier_or_keyword =
     sbind (sget lex_current_column) (\<lambda>column_start.
     sbind (lex_while is_word_char []) (\<lambda>identifier.
     let keyword_token_type = convert_str_to_token identifier in
     push_from column_start
       (if keyword_token_type = T_UNKNOWN then T_IDENTIFIER else keyword_token_type) identifier))"

definition lex_push_char_token :: "lex_token_type \<Rightarrow> (lex, unit) st" where
  "lex_push_char_token type =
     sbind (sget lex_current_column) (\<lambda>column_start.
     sbind lex_char_forward (\<lambda>c. push_from column_start type [c]))"

text \<open>
  Comparisons such as \<^verbatim>\<open>(lex->index + 1) < lex->len && lex->buf[lex->index] == '/' && ...\<close>,
  evaluated from left to right.
\<close>

fun matches_at :: "string \<Rightarrow> nat \<Rightarrow> (lex, bool) st" where
  "matches_at [] i = sret True"
| "matches_at (c # cs) i =
     sbind (lex_buf_at i) (\<lambda>d. if d = c then matches_at cs (Suc i) else sret False)"

definition looks_at :: "string \<Rightarrow> (lex, bool) st" where
  "looks_at s =
     sbind (sget (\<lambda>l. lex_index l + (length s - 1) < lex_len l)) (\<lambda>room.
     if room then sbind (sget lex_index) (matches_at s) else sret False)"

fun first_operator :: "string list \<Rightarrow> (lex, string option) st" where
  "first_operator [] = sret None"
| "first_operator (s # ss) =
     sbind (looks_at s) (\<lambda>b. if b then sret (Some s) else first_operator ss)"

definition multichar_operators :: "string list" where
  "multichar_operators = [''==='', ''!=='', ''=='', ''!='', ''>='', ''<='']"

definition lex_multichar_operators :: "(lex, bool) st" where
  "lex_multichar_operators =
     sbind (sget lex_current_column) (\<lambda>column_start.
     sbind (sget (\<lambda>l. lex_has_value l \<and> lex_index l + 1 < lex_len l)) (\<lambda>room.
     if room
     then sbind (first_operator multichar_operators) (\<lambda>op.
          case op of
            None \<Rightarrow> sret False
          | Some value \<Rightarrow>
              sbind (forward_n (length value)) (\<lambda>_.
              sbind (push_from column_start T_BINARY_OPERATOR value) (\<lambda>_. sret True)))
     else sret False))"

text \<open>The loop over the body of a block comment.\<close>

function lex_comment_body :: "(lex, unit) st" where
  "lex_comment_body l =
     (if lex_index l + 1 < lex_len l
      then case matches_at ''*/'' (lex_index l) l of
             Inl e \<Rightarrow> Inl e
           | Inr (at_end, _) \<Rightarrow>
               (if at_end then Inr ((), l)
                else case lex_char_forward l of
                       Inl e \<Rightarrow> Inl e
                     | Inr (c, l') \<Rightarrow> lex_comment_body l')
      else Inr ((), l))"
  by pat_completeness auto
termination
  by (relation "measure (\<lambda>l. lex_len l - lex_index l)")
     (auto dest!: lex_char_forward_Inr simp: lex_has_value_def)

declare lex_comment_body.simps [simp del]

text \<open>The test for an unterminated comment that follows the loop.\<close>

definition comment_not_closed :: "(lex, bool) st" where
  "comment_not_closed =
     sbind (sget (\<lambda>l. l)) (\<lambda>l.
     if lex_index l + 1 < lex_len l
     then sbind (lex_buf_at (lex_index l)) (\<lambda>a.
          if a \<noteq> CHR ''*''
          then sbind (lex_buf_at (lex_index l + 1)) (\<lambda>b. sret (b \<noteq> CHR ''/''))
          else sret False)
     else sret False)"

definition lex_block_comment :: "(lex, unit) st" where
  "lex_block_comment =
     sbind lex_char_forward (\<lambda>_.
     sbind lex_char_forward (\<lambda>_.
     sbind lex_comment_body (\<lambda>_.
     sbind comment_not_closed (\<lambda>bad.
     if bad then sthrow (Syntax_error ''unterminated comment'')
     else sbind lex_char_forward (\<lambda>_. sbind lex_char_forward (\<lambda>_. sret ()))))))"

text \<open>One iteration of the loop of \<^verbatim>\<open>lex_analyze\<close>.\<close>

definition unknown_token :: "char \<Rightarrow> string" where
  "unknown_token c = ''unknown token '' @ [CHR 0x27, c, CHR 0x27]"

definition lex_iteration :: "(lex, unit) st" where
  "lex_iteration =
     sbind lex_char (\<lambda>c.
     sbind (looks_at ''//'') (\<lambda>line_comment.
     if line_comment then sbind (lex_while (\<lambda>c. c \<noteq> newline) []) (\<lambda>_. sret ())
     else
     sbind (looks_at ''/*'') (\<lambda>block_comment.
     if block_comment then lex_block_comment
     else if isspace c then sbind lex_char_forward (\<lambda>_. sret ())
     else
     sbind lex_multichar_operators (\<lambda>done.
     if done then sret ()
     else case map_of chartokens c of
            Some type \<Rightarrow> lex_push_char_token type
          | None \<Rightarrow>
              (if c = CHR 0x22 \<or> c = CHR 0x27 then lex_string
               else if isdigit c then lex_number
               else if isalpha c \<or> c = CHR ''_'' then lex_identifier_or_keyword
               else sbind lex_char (\<lambda>d. sthrow (Syntax_error (unknown_token d))))))))"

subsection \<open>Every iteration consumes a character\<close>

text \<open>Between two states of one run: the index only grows, the source stays.\<close>

definition moved :: "lex \<Rightarrow> lex \<Rightarrow> bool" where
  "moved l l' \<longleftrightarrow> lex_index l \<le> lex_index l' \<and> lex_len l' = lex_len l \<and> lex_buf l' = lex_buf l"

definition consumed :: "lex \<Rightarrow> lex \<Rightarrow> bool" where
  "consumed l l' \<longleftrightarrow> moved l l' \<and> lex_index l < lex_index l'"

lemma moved_refl [simp]: "moved l l"
  by (simp add: moved_def)

lemma moved_trans: "moved l m \<Longrightarrow> moved m n \<Longrightarrow> moved l n"
  by (auto simp: moved_def)

lemma consumed_moved: "consumed l m \<Longrightarrow> moved m n \<Longrightarrow> consumed l n" "moved l m \<Longrightarrow> consumed m n \<Longrightarrow> consumed l n"
  by (auto simp: moved_def consumed_def)

lemma consumedD: "consumed l l' \<Longrightarrow> moved l l'"
  by (simp add: consumed_def)

lemma forward_consumed: "lex_char_forward l = Inr (c, l') \<Longrightarrow> consumed l l'"
  by (auto dest: lex_char_forward_Inr simp: moved_def consumed_def)

lemma lex_char_same: "lex_char l = Inr (c, l') \<Longrightarrow> l' = l"
  by (auto simp: lex_char_def monad_inversion lex_buf_at_def split: if_splits)

lemma lex_buf_at_same: "lex_buf_at i l = Inr (c, l') \<Longrightarrow> l' = l"
  by (auto simp: lex_buf_at_def split: if_splits)

lemma push_from_moved: "push_from col t v l = Inr (x, l') \<Longrightarrow> moved l l'"
  by (auto simp: push_from_def lex_tokens_array_push_def monad_inversion moved_def)

lemma lex_while_moved: "lex_while P buf l = Inr (s, l') \<Longrightarrow> moved l l'"
proof (induction P buf l rule: lex_while.induct)
  case (1 P buf l)
  from 1(2) show ?case
    by (subst (asm) lex_while.simps)
       (auto split: if_splits sum.splits prod.splits dest: lex_char_same
         intro: moved_trans [OF consumedD [OF forward_consumed] 1(1)])
qed

lemma lex_while_consumed:
  assumes "lex_while P buf l = Inr (s, l')" and "lex_has_value l" and "lex_char l = Inr (c, m)" and "P c"
  shows "consumed l l'"
  using assms
  by (subst (asm) lex_while.simps)
     (auto split: sum.splits prod.splits intro: consumed_moved(1) [OF forward_consumed lex_while_moved])

lemma forward_n_moved: "forward_n n l = Inr (x, l') \<Longrightarrow> moved l l' \<and> (0 < n \<longrightarrow> consumed l l')"
proof (induction n arbitrary: l)
  case (Suc n)
  then show ?case
    by (auto simp: monad_inversion dest!: forward_consumed intro: consumed_moved consumedD)
qed simp

lemma matches_at_same: "matches_at s i l = Inr (b, l') \<Longrightarrow> l' = l"
  by (induction s i arbitrary: l rule: matches_at.induct)
     (auto simp: monad_inversion dest!: lex_buf_at_same split: if_splits)

lemma looks_at_same: "looks_at s l = Inr (b, l') \<Longrightarrow> l' = l"
  by (auto simp: looks_at_def monad_inversion dest: matches_at_same split: if_splits)

lemma first_operator_Inr:
  "first_operator ss l = Inr (r, l') \<Longrightarrow> l' = l \<and> set_option r \<subseteq> set ss"
proof (induction ss arbitrary: l)
  case (Cons a ss)
  then obtain b where b: "looks_at a l = Inr (b, l)"
    by (auto simp: sbind_eq_Inr dest: looks_at_same)
  with Cons show ?case by (cases b) (auto simp: sbind_Inr dest: Cons.IH)
qed simp

lemma first_multichar:
  "first_operator multichar_operators l = Inr (Some s, l') \<Longrightarrow> l' = l \<and> 0 < length s"
proof -
  assume "first_operator multichar_operators l = Inr (Some s, l')"
  from first_operator_Inr [OF this] show ?thesis by (auto simp: multichar_operators_def)
qed

lemma multichar_moved:
  assumes "lex_multichar_operators l = Inr (b, l')"
  shows "if b then consumed l l' else l' = l"
proof (cases "lex_has_value l \<and> lex_index l + 1 < lex_len l")
  case True
  then obtain r where r: "first_operator multichar_operators l = Inr (r, l)"
    using assms by (auto simp: lex_multichar_operators_def sbind_eq_Inr dest: first_operator_Inr)
  show ?thesis
  proof (cases r)
    case None
    then show ?thesis using assms True r by (simp add: lex_multichar_operators_def sbind_Inr)
  next
    case (Some s)
    then obtain m where "forward_n (length s) l = Inr ((), m)" "moved m l'" b
      using assms True r
      by (auto simp: lex_multichar_operators_def sbind_Inr monad_inversion dest: push_from_moved)
    with first_multichar r Some show ?thesis
      by (auto dest!: forward_n_moved intro: consumed_moved)
  qed
next
  case False
  with assms show ?thesis by (auto simp: lex_multichar_operators_def sbind_Inr split: if_splits)
qed

lemma comment_body_moved: "lex_comment_body l = Inr (x, l') \<Longrightarrow> moved l l'"
proof (induction l rule: lex_comment_body.induct)
  case (1 l)
  from 1(2) show ?case
    by (subst (asm) lex_comment_body.simps)
       (auto split: if_splits sum.splits prod.splits
         intro: moved_trans [OF consumedD [OF forward_consumed] 1(1)])
qed

text \<open>A computation that only moves on, and the rules that build such computations.\<close>

definition moves :: "(lex, 'a) st \<Rightarrow> bool" where
  "moves m \<longleftrightarrow> (\<forall>l x l'. m l = Inr (x, l') \<longrightarrow> moved l l')"

lemma movesI: "(\<And>l x l'. m l = Inr (x, l') \<Longrightarrow> moved l l') \<Longrightarrow> moves m"
  by (auto simp: moves_def)

lemma moves_sbind [intro]: "moves m \<Longrightarrow> (\<And>x. moves (f x)) \<Longrightarrow> moves (sbind m f)"
  unfolding moves_def sbind_eq_Inr by (blast intro: moved_trans)

lemma moves_basic [simp, intro]: "moves (sret x)" "moves (sthrow e)" "moves (sget g)"
  "moves lex_char_forward" "moves lex_char" "moves (lex_while P buf)" "moves (push_from col t v)"
  "moves lex_comment_body" "moves (lex_buf_at i)"
  by (auto intro!: movesI dest: forward_consumed consumedD lex_while_moved push_from_moved lex_char_same
      comment_body_moved lex_buf_at_same)

lemma moves_if [intro]: "(b \<Longrightarrow> moves m) \<Longrightarrow> (\<not> b \<Longrightarrow> moves n) \<Longrightarrow> moves (if b then m else n)"
  by simp

lemma consumed_then:
  "sbind lex_char_forward f l = Inr (x, l') \<Longrightarrow> (\<And>c. moves (f c)) \<Longrightarrow> consumed l l'"
  unfolding sbind_eq_Inr moves_def by (blast dest: forward_consumed intro: consumed_moved)

lemma block_comment_consumed: "lex_block_comment l = Inr (x, l') \<Longrightarrow> consumed l l'"
  unfolding lex_block_comment_def comment_not_closed_def
  by (erule consumed_then) blast

lemma lex_string_consumed: "lex_string l = Inr (x, l') \<Longrightarrow> consumed l l'"
  unfolding lex_string_def by (simp add: sbind_Inr) (erule consumed_then, blast)

lemma lex_while_then_push:
  assumes "sbind (lex_while P []) (\<lambda>s. push_from col (f s) s) l = Inr (x, l')"
    and "lex_has_value l" "lex_char l = Inr (c, m)" "P c"
  shows "consumed l l'"
  using assms
  by (auto simp: monad_inversion dest!: push_from_moved lex_while_consumed intro: consumed_moved)

lemma push_char_consumed: "lex_push_char_token t l = Inr (x, l') \<Longrightarrow> consumed l l'"
  by (auto simp: lex_push_char_token_def monad_inversion dest!: forward_consumed push_from_moved
      intro: consumed_moved)

lemma lex_iteration_consumed:
  assumes "lex_iteration l = Inr (x, l')"
  shows "consumed l l'"
proof -
  obtain c where c: "lex_char l = Inr (c, l)" and h: "lex_has_value l"
    using assms by (auto simp: lex_iteration_def monad_inversion lex_char_def dest: lex_buf_at_same)
  obtain b1 where b1: "looks_at ''//'' l = Inr (b1, l)"
    using assms c by (auto simp: lex_iteration_def sbind_Inr sbind_eq_Inr dest: looks_at_same)
  note lw = lex_while_then_push [OF _ h c]
  show ?thesis
  proof (cases b1)
    case True
    then have "c \<noteq> newline"
      using b1 c by (auto simp: looks_at_def lex_char_def monad_inversion newline_def split: if_splits)
    with True show ?thesis using assms b1 c h
      by (auto simp: lex_iteration_def sbind_Inr sbind_eq_Inr dest: lex_while_consumed)
  next
    case False
    then obtain b2 where b2: "looks_at ''/*'' l = Inr (b2, l)"
      using assms c b1 by (auto simp: lex_iteration_def sbind_Inr sbind_eq_Inr dest: looks_at_same)
    show ?thesis
    proof (cases "b2 \<or> isspace c")
      case True
      with False show ?thesis using assms c b1 b2
        by (auto simp: lex_iteration_def sbind_Inr sbind_eq_Inr
            dest: block_comment_consumed forward_consumed split: if_splits)
    next
      case n: False
      then obtain d m where m: "lex_multichar_operators l = Inr (d, m)"
        using assms False c b1 b2 by (auto simp: lex_iteration_def sbind_Inr sbind_eq_Inr)
      show ?thesis
      proof (cases d)
        case True
        with m n False show ?thesis using assms c b1 b2 multichar_moved [OF m]
          by (auto simp: lex_iteration_def sbind_Inr)
      next
        case d: False
        with multichar_moved [OF m] have "m = l" by simp
        with d m n False show ?thesis using assms c b1 b2
          by (auto simp: lex_iteration_def sbind_Inr lex_number_def lex_identifier_or_keyword_def Let_def
              is_word_char_def
              split: option.splits if_splits dest: push_char_consumed lex_string_consumed intro: lw)
      qed
    qed
  qed
qed

section \<open>The main loop\<close>

function lex_loop :: "(lex, unit) st" where
  "lex_loop l =
     (if lex_has_value l
      then case lex_iteration l of Inl e \<Rightarrow> Inl e | Inr (_, l') \<Rightarrow> lex_loop l'
      else Inr ((), l))"
  by pat_completeness auto
termination
  by (relation "measure (\<lambda>l. lex_len l - lex_index l)")
     (auto dest!: lex_iteration_consumed simp: lex_has_value_def consumed_def moved_def)

declare lex_loop.simps [simp del]

definition lex_analyze :: "(lex, bool) st" where
  "lex_analyze =
     sbind lex_loop (\<lambda>_.
     sbind (lex_token_push_default T_EOF ''[EOF]'') (\<lambda>_. sret True))"

definition lex_get_tokens :: "lex \<Rightarrow> lex_token list" where
  "lex_get_tokens l = lex_tokens l"

definition lex_get_token_count :: "lex \<Rightarrow> nat" where
  "lex_get_token_count l = length (lex_tokens l)"

text \<open>
  The table of \<^verbatim>\<open>lex_token_to_str\<close> is as long as its last entry; an entry that is not
  given is NULL (\<open>None\<close>).
\<close>

fun lex_token_to_str :: "lex_token_type \<Rightarrow> string option" where
  "lex_token_to_str T_IDENTIFIER = Some ''T_IDENTIFIER''"
| "lex_token_to_str T_STRING = Some ''T_STRING''"
| "lex_token_to_str T_BINARY_OPERATOR = Some ''T_BINARY_OPERATOR''"
| "lex_token_to_str T_INT_LIT = Some ''T_INT_LIT''"
| "lex_token_to_str T_EOF = Some ''T_EOF''"
| "lex_token_to_str T_SEMICOLON = Some ''T_SEMICOLON''"
| "lex_token_to_str T_PAREN_OPEN = Some ''T_PAREN_OPEN''"
| "lex_token_to_str T_PAREN_CLOSE = Some ''T_PAREN_CLOSE''"
| "lex_token_to_str T_UNKNOWN = Some ''T_UNKNOWN''"
| "lex_token_to_str T_ASSIGNMENT = Some ''T_ASSIGNMENT''"
| "lex_token_to_str T_VAR = Some ''T_VAR''"
| "lex_token_to_str T_CONST = Some ''T_CONST''"
| "lex_token_to_str T_COMMA = Some ''T_COMMA''"
| "lex_token_to_str T_FUNCTION = Some ''T_FUNCTION''"
| "lex_token_to_str T_BLOCK_BRACE_OPEN = Some ''T_BLOCK_BRACE_OPEN''"
| "lex_token_to_str T_BLOCK_BRACE_CLOSE = Some ''T_BLOCK_BRACE_CLOSE''"
| "lex_token_to_str T_ARRAY = Some ''T_ARRAY''"
| "lex_token_to_str T_IMPORT = Some ''T_IMPORT''"
| "lex_token_to_str T_SQUARE_BRACE_OPEN = Some ''T_SQUARE_BRACE_OPEN''"
| "lex_token_to_str T_SQUARE_BRACE_CLOSE = Some ''T_SQUARE_BRACE_CLOSE''"
| "lex_token_to_str T_IF = Some ''T_IF''"
| "lex_token_to_str T_ELSE = Some ''T_ELSE''"
| "lex_token_to_str T_LOOP = Some ''T_LOOP''"
| "lex_token_to_str T_AS = Some ''T_AS''"
| "lex_token_to_str T_PERIOD = None"

end
