(* ===== verification/Lexer_Spec.thy ===== *)
theory Lexer_Spec
  imports Lexer
begin

text \<open>
  What the lexer computes: a function on the characters that remain, \<open>next_lexeme\<close>, that the
  index arithmetic, the guards and the loops of theory Lexer implement. From it follow the shape of
  the token stream, its positions and the round trip from printed tokens back to tokens.
\<close>

section \<open>The specification\<close>

datatype lexeme =
    Skipped nat
  | Token lex_token_type string nat
  | Open_comment
  | Open_string char
  | Bad_character char

definition starts_with :: "string \<Rightarrow> string \<Rightarrow> bool" where
  "starts_with s cs \<longleftrightarrow> take (length s) cs = s"

text \<open>How many characters precede the end of a block comment, if it has one.\<close>

fun to_comment_end :: "string \<Rightarrow> nat" where
  "to_comment_end [] = 0"
| "to_comment_end [c] = 0"
| "to_comment_end (c # d # cs) =
     (if c = CHR ''*'' \<and> d = CHR ''/'' then 0 else Suc (to_comment_end (d # cs)))"

fun first_prefix :: "string list \<Rightarrow> string \<Rightarrow> string option" where
  "first_prefix [] cs = None"
| "first_prefix (s # ss) cs = (if starts_with s cs then Some s else first_prefix ss cs)"

definition word_type :: "string \<Rightarrow> lex_token_type" where
  "word_type w = (case map_of keywords_tbl w of None \<Rightarrow> T_IDENTIFIER | Some t \<Rightarrow> t)"

definition next_lexeme :: "string \<Rightarrow> lexeme" where
  "next_lexeme cs =
     (if starts_with ''//'' cs then Skipped (length (takeWhile (\<lambda>c. c \<noteq> newline) cs))
      else if starts_with ''/*'' cs
      then (let n = to_comment_end (drop 2 cs)
            in if n + 4 \<le> length cs then Skipped (n + 4) else Open_comment)
      else if isspace (hd cs) then Skipped 1
      else case first_prefix multichar_operators cs of
             Some s \<Rightarrow> Token T_BINARY_OPERATOR s (length s)
           | None \<Rightarrow>
         case map_of chartokens (hd cs) of
             Some t \<Rightarrow> Token t [hd cs] 1
           | None \<Rightarrow>
              (if hd cs = CHR 0x22 \<or> hd cs = CHR 0x27
               then (let body = takeWhile (\<lambda>c. c \<noteq> hd cs) (tl cs)
                     in if length body + 2 \<le> length cs then Token T_STRING body (length body + 2)
                        else Open_string (hd cs))
               else if isdigit (hd cs)
               then (let ds = takeWhile isdigit cs in Token T_INT_LIT ds (length ds))
               else if isalpha (hd cs) \<or> hd cs = CHR ''_''
               then (let w = takeWhile is_word_char cs in Token (word_type w) w (length w))
               else Bad_character (hd cs)))"

text \<open>Where the line and column counters are after some characters.\<close>

fun step_pos :: "nat \<times> nat \<Rightarrow> char \<Rightarrow> nat \<times> nat" where
  "step_pos (line, col) c = (if c = carriage_return \<or> c = newline then (line + 1, 1) else (line, col + 1))"

definition pos_after :: "string \<Rightarrow> nat \<times> nat \<Rightarrow> nat \<times> nat" where
  "pos_after cs p = foldl step_pos p cs"

section \<open>The lexer implements it\<close>

definition lex_ok :: "lex \<Rightarrow> bool" where
  "lex_ok l \<longleftrightarrow> lex_len l = length (lex_buf l) \<and> lex_index l \<le> lex_len l"

definition remaining :: "lex \<Rightarrow> string" where
  "remaining l = drop (lex_index l) (lex_buf l)"

text \<open>The state after \<open>n\<close> more characters.\<close>

definition lex_skip :: "nat \<Rightarrow> lex \<Rightarrow> lex" where
  "lex_skip n l =
     (let p = pos_after (take n (remaining l)) (lex_current_line l, lex_current_column l)
      in l\<lparr> lex_index := lex_index l + n, lex_current_line := fst p, lex_current_column := snd p \<rparr>)"

lemma pos_after_simps [simp]:
  "pos_after [] p = p" "pos_after (c # cs) p = pos_after cs (step_pos p c)"
  "pos_after (xs @ ys) p = pos_after ys (pos_after xs p)"
  by (simp_all add: pos_after_def)

lemma has_value_iff: "lex_ok l \<Longrightarrow> lex_has_value l \<longleftrightarrow> remaining l \<noteq> []"
  by (auto simp: lex_ok_def lex_has_value_def remaining_def)

lemma length_remaining: "lex_ok l \<Longrightarrow> length (remaining l) = lex_len l - lex_index l"
  by (simp add: lex_ok_def remaining_def)

lemma remaining_skip [simp]: "remaining (lex_skip n l) = drop n (remaining l)"
  by (simp add: remaining_def lex_skip_def Let_def add.commute)

lemma lex_skip_0 [simp]: "lex_skip 0 l = l"
  by (simp add: lex_skip_def)

lemma lex_skip_skip [simp]: "lex_skip m (lex_skip n l) = lex_skip (n + m) l"
proof -
  have "take (n + m) (remaining l) = take n (remaining l) @ take m (drop n (remaining l))"
    by (rule take_add)
  then show ?thesis by (simp add: lex_skip_def Let_def remaining_def add.commute)
qed

lemma lex_skip_ok: "lex_ok l \<Longrightarrow> n \<le> length (remaining l) \<Longrightarrow> lex_ok (lex_skip n l)"
  by (auto simp: lex_ok_def lex_skip_def Let_def remaining_def)

lemma nth_remaining: "lex_ok l \<Longrightarrow> i < length (remaining l) \<Longrightarrow> lex_buf l ! (lex_index l + i) = remaining l ! i"
  by (simp add: remaining_def lex_ok_def)

lemma lex_buf_at_eq:
  "lex_ok l \<Longrightarrow> i < length (remaining l) \<Longrightarrow> lex_buf_at (lex_index l + i) l = Inr (remaining l ! i, l)"
  using nth_remaining [of l i] by (auto simp: lex_buf_at_def length_remaining lex_ok_def)

lemma lex_buf_at_hd: "lex_ok l \<Longrightarrow> remaining l = c # cs \<Longrightarrow> lex_buf_at (lex_index l) l = Inr (c, l)"
  using lex_buf_at_eq [of l 0] by simp

lemma lex_char_eq: "lex_ok l \<Longrightarrow> remaining l = c # cs \<Longrightarrow> lex_char l = Inr (c, l)"
  by (simp add: lex_char_def sbind_step has_value_iff lex_buf_at_hd)

lemma lex_char_forward_eq: "lex_ok l \<Longrightarrow> remaining l = c # cs \<Longrightarrow> lex_char_forward l = Inr (c, lex_skip 1 l)"
  by (simp add: lex_char_forward_def sbind_step lex_buf_at_hd has_value_iff lex_skip_def Let_def)

lemma lex_char_forward_end:
  "lex_ok l \<Longrightarrow> remaining l = [] \<Longrightarrow> lex_char_forward l = Inl (Assertion_failed no_character)"
  by (simp add: lex_char_forward_def sbind_step has_value_iff sbind_def)

lemma lex_while_eq:
  "lex_ok l \<Longrightarrow> lex_while P buf l
     = Inr (buf @ takeWhile P (remaining l), lex_skip (length (takeWhile P (remaining l))) l)"
proof (induction "remaining l" arbitrary: buf l)
  case Nil
  then show ?case by (simp add: lex_while.simps [of P buf l] has_value_iff)
next
  case (Cons c cs)
  then have r: "remaining l = c # cs" by simp
  show ?case
  proof (cases "P c")
    case True
    have "lex_while P (buf @ [c]) (lex_skip 1 l)
        = Inr ((buf @ [c]) @ takeWhile P (remaining (lex_skip 1 l)),
               lex_skip (length (takeWhile P (remaining (lex_skip 1 l)))) (lex_skip 1 l))"
      using Cons.prems r by (intro Cons.hyps(1) lex_skip_ok) simp_all
    with True show ?thesis using Cons.prems r
      by (simp add: lex_while.simps [of P buf l] has_value_iff lex_char_eq lex_char_forward_eq)
  next
    case False
    then show ?thesis using Cons.prems r
      by (simp add: lex_while.simps [of P buf l] has_value_iff lex_char_eq)
  qed
qed

lemma forward_n_eq:
  "lex_ok l \<Longrightarrow> n \<le> length (remaining l) \<Longrightarrow> forward_n n l = Inr ((), lex_skip n l)"
proof (induction n arbitrary: l)
  case (Suc n)
  then obtain c cs where r: "remaining l = c # cs" by (cases "remaining l") auto
  have "forward_n n (lex_skip 1 l) = Inr ((), lex_skip n (lex_skip 1 l))"
    using Suc.prems r by (intro Suc.IH lex_skip_ok) simp_all
  with Suc.prems r show ?case by (simp add: sbind_step lex_char_forward_eq)
qed simp

lemma matches_at_eq:
  "lex_ok l \<Longrightarrow> i + length s \<le> length (remaining l) \<Longrightarrow>
   matches_at s (lex_index l + i) l = Inr (starts_with s (drop i (remaining l)), l)"
proof (induction s arbitrary: i)
  case (Cons c s)
  then have i: "i < length (remaining l)" by simp
  then have d: "drop i (remaining l) = remaining l ! i # drop (Suc i) (remaining l)"
    by (simp add: Cons_nth_drop_Suc)
  show ?case
    using Cons.IH [of "Suc i"] Cons.prems i
    by (simp add: sbind_Inr [OF lex_buf_at_eq] d) (simp add: starts_with_def)
qed (simp add: starts_with_def)

lemma looks_at_eq:
  assumes "lex_ok l" and "s \<noteq> []" and "remaining l \<noteq> []"
  shows "looks_at s l = Inr (starts_with s (remaining l), l)"
proof (cases "length s \<le> length (remaining l)")
  case True
  with assms have "lex_index l + (length s - 1) < lex_len l"
    by (cases s) (auto simp: length_remaining)
  with True assms show ?thesis
    using matches_at_eq [of l 0 s] by (simp add: looks_at_def sbind_step)
next
  case False
  then have "\<not> starts_with s (remaining l)"
    by (auto simp: starts_with_def dest!: arg_cong [where f = length])
  moreover have "\<not> lex_index l + (length s - 1) < lex_len l"
    using False assms by (cases s) (auto simp: length_remaining)
  ultimately show ?thesis by (simp add: looks_at_def sbind_step)
qed

lemma first_operator_eq:
  assumes "lex_ok l" and "remaining l \<noteq> []" and "[] \<notin> set ss"
  shows "first_operator ss l = Inr (first_prefix ss (remaining l), l)"
  using assms(3)
proof (induction ss)
  case (Cons s ss)
  then show ?case using assms(1,2) by (auto simp: sbind_step looks_at_eq)
qed simp

text \<open>One iteration, given the lexeme that comes next.\<close>

definition lex_push :: "lex_token_type \<Rightarrow> string \<Rightarrow> nat \<Rightarrow> lex \<Rightarrow> lex" where
  "lex_push t v n l =
     (let l' = lex_skip n l in
      l'\<lparr> lex_tokens := lex_tokens l' @
         [\<lparr> lt_type = t, lt_value = v,
            lt_line_start = lex_current_line l', lt_line_end = lex_current_line l',
            lt_column_start = lex_current_column l, lt_column_end = lex_current_column l' \<rparr>] \<rparr>)"

fun lexeme_fault :: "lexeme \<Rightarrow> nat \<times> nat \<Rightarrow> fault" where
  "lexeme_fault Open_comment p = Assertion_failed no_character"
| "lexeme_fault (Open_string q) p = Syntax_error_at (fst p) (snd p) (unterminated_string q)"
| "lexeme_fault (Bad_character c) p = Syntax_error (unknown_token c)"
| "lexeme_fault _ p = Out_of_fuel"

definition apply_lexeme :: "lexeme \<Rightarrow> (lex, unit) st" where
  "apply_lexeme x l =
     (case x of
        Skipped n \<Rightarrow> Inr ((), lex_skip n l)
      | Token t v n \<Rightarrow> Inr ((), lex_push t v n l)
      | y \<Rightarrow> Inl (lexeme_fault y (pos_after (remaining l) (lex_current_line l, lex_current_column l))))"

lemma push_from_skip:
  "push_from (lex_current_column l) t v (lex_skip n l) = Inr ((), lex_push t v n l)"
  by (simp add: push_from_def sbind_step lex_tokens_array_push_def lex_push_def Let_def)

lemma to_comment_end_le: "to_comment_end cs \<le> length cs"
  by (induction cs rule: to_comment_end.induct) auto

lemma to_comment_end_stop:
  "length cs \<le> Suc (to_comment_end cs) \<or> starts_with ''*/'' (drop (to_comment_end cs) cs)"
  by (induction cs rule: to_comment_end.induct) (auto simp: starts_with_def)

lemma comment_body_eq:
  "lex_ok l \<Longrightarrow> lex_comment_body l = Inr ((), lex_skip (to_comment_end (remaining l)) l)"
proof (induction "remaining l" arbitrary: l rule: to_comment_end.induct)
  case 1
  then have "remaining l = []" by simp
  with 1 length_remaining [of l] show ?case by (simp add: lex_comment_body.simps [of l])
next
  case (2 c)
  then have "remaining l = [c]" by simp
  with 2 length_remaining [of l] show ?case by (simp add: lex_comment_body.simps [of l])
next
  case (3 c d cs)
  have r: "remaining l = c # d # cs" using 3(2) by simp
  have len: "lex_index l + 1 < lex_len l"
    using length_remaining [of l] 3(3) r by simp
  have m: "matches_at ''*/'' (lex_index l) l = Inr (starts_with ''*/'' (c # d # cs), l)"
    using matches_at_eq [of l 0 "''*/''"] 3(3) r by simp
  show ?case
  proof (cases "c = CHR ''*'' \<and> d = CHR ''/''")
    case True
    then show ?thesis using len m r by (simp add: lex_comment_body.simps [of l] starts_with_def)
  next
    case False
    have "lex_comment_body (lex_skip 1 l) = Inr ((), lex_skip (to_comment_end (remaining (lex_skip 1 l))) (lex_skip 1 l))"
      using 3(3) r False by (intro 3(1) lex_skip_ok) auto
    with False show ?thesis using len m r 3(3)
      by (auto simp: lex_comment_body.simps [of l] starts_with_def lex_char_forward_eq)
  qed
qed

lemma comment_not_closed_eq:
  assumes "lex_ok l" and "length (remaining l) \<le> 1 \<or> starts_with ''*/'' (remaining l)"
  shows "comment_not_closed l = Inr (False, l)"
proof (cases "length (remaining l) \<le> 1")
  case True
  with assms(1) length_remaining [of l] have "\<not> lex_index l + 1 < lex_len l" by simp
  then show ?thesis by (simp add: comment_not_closed_def sbind_step)
next
  case False
  with assms obtain cs where "remaining l = CHR ''*'' # cs"
    by (cases "remaining l") (auto simp: starts_with_def)
  with assms(1) show ?thesis
    by (simp add: comment_not_closed_def sbind_step lex_buf_at_hd)
qed

lemma block_comment_eq:
  assumes "lex_ok l" and "starts_with ''/*'' (remaining l)"
  defines "n \<equiv> to_comment_end (drop 2 (remaining l))"
  shows "lex_block_comment l =
     (if n + 4 \<le> length (remaining l) then Inr ((), lex_skip (n + 4) l)
      else Inl (Assertion_failed no_character))"
proof -
  obtain c d cs where r: "remaining l = c # d # cs"
    using assms(2) by (cases "remaining l" rule: remdups_adj.cases) (auto simp: starts_with_def)
  let ?l1 = "lex_skip 1 l" and ?l2 = "lex_skip 2 l" and ?l3 = "lex_skip (2 + n) l"
  have n: "n = to_comment_end cs" "n \<le> length cs"
    using to_comment_end_le [of cs] by (simp_all add: n_def r)
  have ok: "lex_ok ?l1" "lex_ok ?l2" "lex_ok ?l3"
    using assms(1) r n by (auto intro: lex_skip_ok)
  have f: "lex_char_forward l = Inr (c, ?l1)" "lex_char_forward ?l1 = Inr (d, ?l2)"
    using lex_char_forward_eq [OF assms(1) r] lex_char_forward_eq [OF ok(1)] r
    by (simp_all add: numeral_2_eq_2)
  have b: "lex_comment_body ?l2 = Inr ((), ?l3)"
    using comment_body_eq [OF ok(2)] r by (simp add: n_def)
  have rest3: "remaining ?l3 = drop n cs" using r by simp
  have e: "comment_not_closed ?l3 = Inr (False, ?l3)"
    using to_comment_end_stop [of cs] rest3 n by (intro comment_not_closed_eq ok) auto
  show ?thesis
  proof (cases "n + 4 \<le> length (remaining l)")
    case True
    then have "2 \<le> length (remaining ?l3)" using rest3 r by simp
    then obtain x y zs where xs: "remaining ?l3 = x # y # zs"
      by (cases "remaining ?l3" rule: remdups_adj.cases) (auto simp del: remaining_skip)
    then have g: "lex_char_forward ?l3 = Inr (x, lex_skip 1 ?l3)"
      by (rule lex_char_forward_eq [OF ok(3)])
    have "remaining (lex_skip 1 ?l3) = y # zs" by (simp only: remaining_skip [of 1 ?l3] xs) simp
    moreover have "lex_ok (lex_skip 1 ?l3)" by (rule lex_skip_ok [OF ok(3)]) (simp only: xs, simp)
    ultimately have "lex_char_forward (lex_skip 1 ?l3) = Inr (y, lex_skip 1 (lex_skip 1 ?l3))"
      by (intro lex_char_forward_eq)
    moreover have "lex_skip 1 (lex_skip 1 ?l3) = lex_skip (n + 4) l" by (simp add: eval_nat_numeral)
    ultimately have "lex_char_forward (lex_skip 1 ?l3) = Inr (y, lex_skip (n + 4) l)" by simp
    with True f b e g show ?thesis
      unfolding lex_block_comment_def by (simp add: sbind_step)
  next
    case False
    then have len: "length (remaining ?l3) < 2" using rest3 r by simp
    have "sbind lex_char_forward (\<lambda>_. sbind lex_char_forward (\<lambda>_. sret ())) ?l3
        = Inl (Assertion_failed no_character)"
    proof (cases "remaining ?l3")
      case Nil
      then show ?thesis using ok(3) by (simp add: sbind_Inl lex_char_forward_end)
    next
      case (Cons x xs)
      then have "xs = []" using len by simp
      have "remaining (lex_skip 1 ?l3) = []" by (simp only: remaining_skip [of 1 ?l3] Cons \<open>xs = []\<close>) simp
      moreover have "lex_ok (lex_skip 1 ?l3)" by (rule lex_skip_ok [OF ok(3)]) (simp only: Cons, simp)
      ultimately have "lex_char_forward (lex_skip 1 ?l3) = Inl (Assertion_failed no_character)"
        by (intro lex_char_forward_end)
      with lex_char_forward_eq [OF ok(3) Cons] show ?thesis by (simp add: sbind_def)
    qed
    then show ?thesis using False f b e
      by (simp add: lex_block_comment_def sbind_step)
  qed
qed

lemma lex_string_eq:
  assumes "lex_ok l" and "remaining l = q # cs"
  defines "body \<equiv> takeWhile (\<lambda>c. c \<noteq> q) cs"
  shows "lex_string l =
     apply_lexeme (if length body + 2 \<le> length (remaining l) then Token T_STRING body (length body + 2)
                   else Open_string q) l"
proof -
  let ?l1 = "lex_skip 1 l" and ?l2 = "lex_skip (1 + length body) l"
  have body: "length body \<le> length cs" by (simp add: body_def length_takeWhile_le)
  have ok: "lex_ok ?l1" "lex_ok ?l2"
    using assms(1,2) body by (auto intro: lex_skip_ok)
  have f: "lex_char_forward l = Inr (q, ?l1)"
    by (rule lex_char_forward_eq [OF assms(1,2)])
  have w: "lex_while (\<lambda>c. c \<noteq> q) [] ?l1 = Inr (body, ?l2)"
    using lex_while_eq [OF ok(1)] assms(2) by (simp add: body_def)
  have rest: "remaining ?l2 = dropWhile (\<lambda>c. c \<noteq> q) cs"
    by (simp add: assms(2) body_def dropWhile_eq_drop)
  show ?thesis
  proof (cases "remaining ?l2")
    case Nil
    with rest have "dropWhile (\<lambda>c. c \<noteq> q) cs = []" by simp
    then have all: "body = cs" by (simp add: body_def takeWhile_eq_all_conv dropWhile_eq_Nil_conv)
    then have "\<not> length body + 2 \<le> length (remaining l)" using assms(2) by simp
    moreover have "\<not> lex_has_value ?l2" using ok(2) Nil by (simp add: has_value_iff)
    ultimately show ?thesis using f w assms(2)
      by (simp add: lex_string_def sbind_step apply_lexeme_def) (simp add: lex_skip_def Let_def)
  next
    case (Cons c ds)
    then have c: "c = q"
      using rest by (metis (mono_tags) dropWhile_eq_Cons_conv)
    have "length body + 2 \<le> length (remaining l)"
      using Cons assms(2) by (cases "length body < length cs") auto
    moreover have "lex_has_value ?l2" using ok(2) Cons by (simp add: has_value_iff)
    moreover note lex_char_eq [OF ok(2) Cons] lex_char_forward_eq [OF ok(2) Cons]
    moreover have "push_from (lex_current_column l) T_STRING body (lex_skip 1 ?l2)
        = Inr ((), lex_push T_STRING body (length body + 2) l)"
      using push_from_skip [of l T_STRING body "length body + 2"] by simp
    ultimately show ?thesis using f w c
      by (simp add: lex_string_def sbind_step apply_lexeme_def)
  qed
qed

lemma lex_push_char_eq:
  "lex_ok l \<Longrightarrow> remaining l = c # cs \<Longrightarrow> lex_push_char_token t l = Inr ((), lex_push t [c] 1 l)"
  by (simp add: lex_push_char_token_def sbind_step lex_char_forward_eq push_from_skip)

lemma find_keyword_eq:
  "find_keyword ks w = (case map_of ks w of None \<Rightarrow> T_UNKNOWN | Some t \<Rightarrow> t)"
  by (induction ks w rule: find_keyword.induct) auto

lemma keyword_types: "map_of keywords_tbl w = Some t \<Longrightarrow> t \<noteq> T_UNKNOWN"
  by (auto simp: keywords_tbl_def split: if_splits)

lemma lex_word_eq:
  "lex_ok l \<Longrightarrow> lex_identifier_or_keyword l =
     (let w = takeWhile is_word_char (remaining l) in Inr ((), lex_push (word_type w) w (length w) l))"
  using keyword_types [of "takeWhile is_word_char (remaining l)"]
  by (auto simp: lex_identifier_or_keyword_def sbind_step lex_while_eq convert_str_to_token_def
      find_keyword_eq word_type_def push_from_skip Let_def split: option.splits)

lemma lex_number_eq:
  "lex_ok l \<Longrightarrow> lex_number l =
     (let w = takeWhile isdigit (remaining l) in Inr ((), lex_push T_INT_LIT w (length w) l))"
  by (simp add: lex_number_def sbind_step lex_while_eq push_from_skip Let_def)

lemma first_prefix_Some: "first_prefix ss cs = Some s \<Longrightarrow> s \<in> set ss \<and> starts_with s cs"
  by (induction ss) (auto split: if_splits)

lemma starts_with_length: "starts_with s cs \<Longrightarrow> length s \<le> length cs"
  unfolding starts_with_def by (metis length_take min.cobounded1)

lemma multichar_eq:
  assumes "lex_ok l" and "remaining l \<noteq> []"
  shows "lex_multichar_operators l =
     (case first_prefix multichar_operators (remaining l) of
        None \<Rightarrow> Inr (False, l)
      | Some s \<Rightarrow> Inr (True, lex_push T_BINARY_OPERATOR s (length s) l))"
proof -
  let ?p = "first_prefix multichar_operators (remaining l)"
  have p: "s \<in> set multichar_operators" "starts_with s (remaining l)" "2 \<le> length s"
    "length s \<le> length (remaining l)" if "?p = Some s" for s
    using first_prefix_Some [OF that] by (auto simp: multichar_operators_def dest: starts_with_length)
  show ?thesis
  proof (cases "lex_index l + 1 < lex_len l")
    case True
    then have "first_operator multichar_operators l = Inr (?p, l)"
      using assms by (intro first_operator_eq) (simp_all add: multichar_operators_def)
    with True assms show ?thesis
      by (auto simp: lex_multichar_operators_def sbind_step lex_has_value_def split: option.splits
          dest!: p(4) simp: forward_n_eq push_from_skip)
  next
    case False
    then have "length (remaining l) < 2" using assms(1) by (simp add: length_remaining)
    then have "?p = None" using p by (cases ?p) force+
    with False show ?thesis by (simp add: lex_multichar_operators_def sbind_step)
  qed
qed

lemma lex_iteration_eq:
  assumes "lex_ok l" and "remaining l \<noteq> []"
  shows "lex_iteration l = apply_lexeme (next_lexeme (remaining l)) l"
proof -
  obtain c cs where r: "remaining l = c # cs" using assms(2) by (cases "remaining l") auto
  have c: "lex_char l = Inr (c, l)" by (rule lex_char_eq [OF assms(1) r])
  have look: "looks_at s l = Inr (starts_with s (c # cs), l)" if "s \<noteq> []" for s
    using looks_at_eq [OF assms(1) that assms(2)] r by simp
  consider "starts_with ''//'' (c # cs)" | "\<not> starts_with ''//'' (c # cs)" "starts_with ''/*'' (c # cs)"
    | "\<not> starts_with ''//'' (c # cs)" "\<not> starts_with ''/*'' (c # cs)" by blast
  then show ?thesis
  proof cases
    case 1
    then show ?thesis using c look [of "''//''"] lex_while_eq [OF assms(1), of _ "[]"] r
      unfolding lex_iteration_def next_lexeme_def apply_lexeme_def by (simp add: sbind_step)
  next
    case 2
    then show ?thesis using c look [of "''//''"] look [of "''/*''"] block_comment_eq [OF assms(1)] r
      unfolding lex_iteration_def next_lexeme_def apply_lexeme_def
      by (simp add: sbind_step Let_def)
  next
    case 3
    note m = multichar_eq [OF assms]
    from 3 show ?thesis
      using c look [of "''//''"] look [of "''/*''"] r lex_char_forward_eq [OF assms(1) r] m
        lex_string_eq [OF assms(1) r] lex_push_char_eq [OF assms(1) r]
        lex_number_eq [OF assms(1)] lex_word_eq [OF assms(1)]
      unfolding lex_iteration_def next_lexeme_def
      by (cases "first_prefix multichar_operators (c # cs)"; cases "map_of chartokens c")
         (simp_all add: sbind_step sbind_Inl Let_def apply_lexeme_def)
  qed
qed

section \<open>The whole source\<close>

fun lexeme_length :: "lexeme \<Rightarrow> nat" where
  "lexeme_length (Skipped n) = n"
| "lexeme_length (Token t v n) = n"
| "lexeme_length _ = 1"

lemma first_multichar_bounds:
  "first_prefix multichar_operators cs = Some s \<Longrightarrow> 0 < length s \<and> length s \<le> length cs"
  by (drule first_prefix_Some) (auto simp: multichar_operators_def dest: starts_with_length)

lemma next_lexeme_length:
  assumes "cs \<noteq> []"
  shows "0 < lexeme_length (next_lexeme cs) \<and> lexeme_length (next_lexeme cs) \<le> length cs"
proof -
  obtain c ds where cs: "cs = c # ds" using assms by (cases cs) auto
  have le: "length (takeWhile P cs) \<le> length cs" for P by (rule length_takeWhile_le)
  have "starts_with ''//'' cs \<Longrightarrow> c \<noteq> newline"
    by (auto simp: cs starts_with_def newline_def)
  moreover have "isalpha c \<or> c = CHR ''_'' \<Longrightarrow> is_word_char c"
    by (auto simp: is_word_char_def)
  ultimately show ?thesis
    using le [of "\<lambda>c. c \<noteq> newline"] le [of isdigit] le [of is_word_char] first_multichar_bounds [of cs]
    unfolding next_lexeme_def
    by (cases "first_prefix multichar_operators cs"; cases "map_of chartokens c")
       (auto simp: cs Let_def)
qed

definition token_between :: "lex_token_type \<Rightarrow> string \<Rightarrow> nat \<times> nat \<Rightarrow> nat \<times> nat \<Rightarrow> lex_token" where
  "token_between t v p q =
     \<lparr> lt_type = t, lt_value = v, lt_line_start = fst q, lt_line_end = fst q,
       lt_column_start = snd p, lt_column_end = snd q \<rparr>"

function lex_spec :: "string \<Rightarrow> nat \<times> nat \<Rightarrow> lex_token list res" where
  "lex_spec cs p =
     (if cs = [] then Inr [token_between T_EOF ''[EOF]'' p p]
      else case next_lexeme cs of
             Skipped n \<Rightarrow> lex_spec (drop n cs) (pos_after (take n cs) p)
           | Token t v n \<Rightarrow>
               (let q = pos_after (take n cs) p
                in rbind (lex_spec (drop n cs) q) (\<lambda>ts. Inr (token_between t v p q # ts)))
           | y \<Rightarrow> Inl (lexeme_fault y (pos_after cs p)))"
  by pat_completeness auto
termination
proof (relation "measure (\<lambda>(cs, p). length cs)", goal_cases)
  case (2 cs p n)
  then show ?case using next_lexeme_length [of cs] by auto
next
  case (3 cs p t v n q)
  then show ?case using next_lexeme_length [of cs] by auto
qed simp

declare lex_spec.simps [simp del]

text \<open>The tokens \<^verbatim>\<open>lex_analyze\<close> leaves in the lexer.\<close>

definition run_lexer :: "string \<Rightarrow> string \<Rightarrow> lex_token list res" where
  "run_lexer filename buf =
     rbind (lex_analyze (lex_init filename buf)) (\<lambda>(done, l). Inr (lex_get_tokens l))"

lemma lex_push_ok: "lex_ok l \<Longrightarrow> n \<le> length (remaining l) \<Longrightarrow> lex_ok (lex_push t v n l)"
  using lex_skip_ok [of l n] by (simp add: lex_push_def Let_def lex_ok_def)

lemma lex_skip_fields [simp]:
  "lex_tokens (lex_skip n l) = lex_tokens l"
  "lex_current_line (lex_skip n l) = fst (pos_after (take n (remaining l)) (lex_current_line l, lex_current_column l))"
  "lex_current_column (lex_skip n l) = snd (pos_after (take n (remaining l)) (lex_current_line l, lex_current_column l))"
  by (simp_all add: lex_skip_def Let_def)

lemma lex_push_fields [simp]:
  "remaining (lex_push t v n l) = drop n (remaining l)"
  "lex_current_line (lex_push t v n l) = fst (pos_after (take n (remaining l)) (lex_current_line l, lex_current_column l))"
  "lex_current_column (lex_push t v n l) = snd (pos_after (take n (remaining l)) (lex_current_line l, lex_current_column l))"
  "lex_tokens (lex_push t v n l) = lex_tokens l @
     [token_between t v (lex_current_line l, lex_current_column l)
       (pos_after (take n (remaining l)) (lex_current_line l, lex_current_column l))]"
proof -
  show "remaining (lex_push t v n l) = drop n (remaining l)"
    using remaining_skip [of n l] by (simp add: lex_push_def Let_def remaining_def)
qed (simp_all add: lex_push_def Let_def token_between_def)

lemma lex_loop_spec:
  "lex_ok l \<Longrightarrow>
   rbind (sbind lex_loop (\<lambda>_. lex_token_push_default T_EOF ''[EOF]'') l) (\<lambda>(_, l'). Inr (lex_tokens l'))
     = rbind (lex_spec (remaining l) (lex_current_line l, lex_current_column l)) (\<lambda>ts. Inr (lex_tokens l @ ts))"
proof (induction "length (remaining l)" arbitrary: l rule: less_induct)
  case less
  let ?cs = "remaining l"
  show ?case
  proof (cases "?cs = []")
    case True
    with less.prems show ?thesis
      by (simp add: lex_loop.simps [of l] sbind_Inr has_value_iff lex_spec.simps [of "[]"]
          lex_token_push_default_def lex_tokens_array_push_def token_between_def)
  next
    case False
    note bounds = next_lexeme_length [OF False]
    have it: "lex_iteration l = apply_lexeme (next_lexeme ?cs) l"
      by (rule lex_iteration_eq [OF less.prems False])
    have loop: "sbind lex_loop f l = (case lex_iteration l of Inl e \<Rightarrow> Inl e | Inr (_, l') \<Rightarrow> sbind lex_loop f l')"
      for f :: "unit \<Rightarrow> (lex, unit) st"
      using less.prems False
      by (auto simp: sbind_def lex_loop.simps [of l] has_value_iff split: sum.splits prod.splits)
    show ?thesis
    proof (cases "next_lexeme ?cs")
      case (Skipped n)
      with bounds less.hyps [of "lex_skip n l"] less.prems it show ?thesis
        by (simp add: loop apply_lexeme_def lex_spec.simps [of ?cs] False lex_skip_ok)
    next
      case (Token t v n)
      with bounds less.hyps [of "lex_push t v n l"] less.prems it show ?thesis
        by (cases "lex_spec (drop n ?cs) (pos_after (take n ?cs) (lex_current_line l, lex_current_column l))")
           (simp_all add: loop apply_lexeme_def lex_spec.simps [of ?cs] False lex_push_ok Let_def)
    qed (use it in \<open>simp_all add: loop apply_lexeme_def lex_spec.simps [of ?cs] False\<close>)
  qed
qed

lemma run_lexer_spec: "run_lexer filename buf = lex_spec (c_string buf) (1, 1)"
proof -
  have ok: "lex_ok (lex_init filename buf)" by (simp add: lex_ok_def lex_init_def)
  have "run_lexer filename buf = rbind (sbind lex_loop (\<lambda>_. lex_token_push_default T_EOF ''[EOF]'')
      (lex_init filename buf)) (\<lambda>(_, l'). Inr (lex_tokens l'))"
    by (auto simp: run_lexer_def lex_analyze_def lex_get_tokens_def sbind_def rbind_def split: sum.splits)
  also have "\<dots> = rbind (lex_spec (c_string buf) (1, 1)) (\<lambda>ts. Inr ts)"
    using lex_loop_spec [OF ok] by (simp add: lex_init_def remaining_def)
  finally show ?thesis by (cases "lex_spec (c_string buf) (1, 1)") simp_all
qed

end
