(* ===== verification/Lexer_Correct.thy ===== *)
theory Lexer_Correct
  imports Lexer_Spec
begin

text \<open>
  Properties of the lexer: it computes the specification of theory Lexer\_Spec, every token is well
  formed and recorded at its place in the source, printed tokens are read back, and the cases where
  its line counter and its treatment of open comments go wrong.
\<close>

section \<open>Well-formed tokens\<close>

definition word_ok :: "string \<Rightarrow> bool" where
  "word_ok w \<longleftrightarrow> w \<noteq> [] \<and> \<not> isdigit (hd w) \<and> (\<forall>c \<in> set w. is_word_char c)"

definition token_ok :: "lex_token_type \<Rightarrow> string \<Rightarrow> bool" where
  "token_ok t v \<longleftrightarrow>
     (t = T_INT_LIT \<and> v \<noteq> [] \<and> (\<forall>c \<in> set v. isdigit c)) \<or>
     (t = T_STRING \<and> (CHR 0x22 \<notin> set v \<or> CHR 0x27 \<notin> set v)) \<or>
     (t = T_IDENTIFIER \<and> word_ok v \<and> map_of keywords_tbl v = None) \<or>
     map_of keywords_tbl v = Some t \<or>
     (t = T_BINARY_OPERATOR \<and> v \<in> set multichar_operators) \<or>
     (case v of [c] \<Rightarrow> map_of chartokens c = Some t | _ \<Rightarrow> False)"

text \<open>The source text of a token.\<close>

definition lexeme_text :: "lex_token_type \<Rightarrow> string \<Rightarrow> string" where
  "lexeme_text t v =
     (if t = T_STRING then (let q = (if CHR 0x22 \<in> set v then CHR 0x27 else CHR 0x22) in q # v @ [q])
      else v)"

definition unlex :: "(lex_token_type \<times> string) list \<Rightarrow> string" where
  "unlex ts = concat (map (\<lambda>(t, v). lexeme_text t v @ '' '') ts)"

section \<open>What a lexeme is\<close>

lemma starts_with_simps [simp]:
  "starts_with [] cs" "\<not> starts_with (d # ds) []"
  "starts_with (d # ds) (c # cs) \<longleftrightarrow> d = c \<and> starts_with ds cs"
  by (auto simp: starts_with_def)

lemma word_char_cases: "is_word_char c \<longleftrightarrow> isalpha c \<or> isdigit c \<or> c = CHR ''_''"
  by (auto simp: is_word_char_def isalnum_def)

text \<open>The characters that begin a word, a number or a string begin nothing else.\<close>

definition plain_start :: "char \<Rightarrow> bool" where
  "plain_start c \<longleftrightarrow> is_word_char c \<or> c = CHR 0x22 \<or> c = CHR 0x27"

definition other_starts :: "char list" where
  "other_starts = map fst chartokens @ [CHR ''!'', CHR '' '', CHR 0x09, CHR 0x0A, CHR 0x0B, CHR 0x0C, CHR 0x0D]"

lemma other_starts_not_plain: "list_all (\<lambda>c. \<not> plain_start c) other_starts"
  by code_simp

lemma plain_not_other: "plain_start c \<Longrightarrow> c \<notin> set other_starts"
  using other_starts_not_plain by (auto simp: list_all_iff)

lemma plain_chars:
  assumes "plain_start c"
  shows "map_of chartokens c = None" "\<not> isspace c" "c \<notin> {CHR ''/'', CHR ''='', CHR ''!'', CHR ''<'', CHR ''>''}"
proof -
  show "map_of chartokens c = None"
    using plain_not_other [OF assms] by (simp add: other_starts_def map_of_eq_None_iff)
  show "\<not> isspace c"
    using plain_not_other [OF assms] by (auto simp: other_starts_def isspace_def)
  show "c \<notin> {CHR ''/'', CHR ''='', CHR ''!'', CHR ''<'', CHR ''>''}"
    using plain_not_other [OF assms] by (auto simp: other_starts_def chartokens_def)
qed

text \<open>Before a word, a number or a string no earlier case of the lexer applies.\<close>

lemma next_lexeme_plain:
  assumes "plain_start c"
  shows "next_lexeme (c # cs) =
     (if c = CHR 0x22 \<or> c = CHR 0x27
      then (let body = takeWhile (\<lambda>d. d \<noteq> c) cs
            in if length body + 2 \<le> length (c # cs) then Token T_STRING body (length body + 2)
               else Open_string c)
      else if isdigit c
      then (let ds = takeWhile isdigit (c # cs) in Token T_INT_LIT ds (length ds))
      else if isalpha c \<or> c = CHR ''_''
      then (let w = takeWhile is_word_char (c # cs) in Token (word_type w) w (length w))
      else Bad_character c)"
proof -
  from plain_chars(3) [OF assms]
  have "\<not> starts_with ''//'' (c # cs)" "\<not> starts_with ''/*'' (c # cs)"
    "first_prefix multichar_operators (c # cs) = None"
    by (auto simp: multichar_operators_def)
  with plain_chars(1,2) [OF assms] show ?thesis
    unfolding next_lexeme_def Let_def by (simp del: starts_with_simps)
qed

lemma next_lexeme_not_plain:
  assumes "next_lexeme (c # cs) = Token t v n" and "\<not> plain_start c"
  shows "(t = T_BINARY_OPERATOR \<and> first_prefix multichar_operators (c # cs) = Some v \<and> n = length v)
       \<or> (map_of chartokens c = Some t \<and> v = [c] \<and> n = 1)"
proof -
  have "\<not> isalpha c" "\<not> isdigit c" "c \<noteq> CHR ''_''" "c \<noteq> CHR 0x22" "c \<noteq> CHR 0x27"
    using assms(2) by (auto simp: plain_start_def word_char_cases)
  then show ?thesis
    using assms(1) unfolding next_lexeme_def Let_def
    by (simp split: if_splits option.splits del: starts_with_simps)
qed

lemma take_takeWhile [simp]: "take (length (takeWhile P xs)) xs = takeWhile P xs"
  by (simp flip: takeWhile_eq_take)

lemma word_type_ok: "word_ok w \<Longrightarrow> token_ok (word_type w) w"
  by (auto simp: token_ok_def word_type_def split: option.splits)

lemma keywords_are_words: "list_all (\<lambda>(w, t). word_ok w) keywords_tbl"
  by code_simp

lemma keyword_word: "map_of keywords_tbl w = Some t \<Longrightarrow> word_ok w"
  using keywords_are_words by (auto simp: list_all_iff dest!: map_of_SomeD)

lemma keyword_nonstring: "map_of keywords_tbl w = Some t \<Longrightarrow> t \<notin> {T_STRING, T_EOF, T_UNKNOWN, T_INT_LIT, T_IDENTIFIER}"
  by (auto simp: keywords_tbl_def split: if_splits)

lemma chartoken_nonstring: "map_of chartokens c = Some t \<Longrightarrow> t \<notin> {T_STRING, T_EOF, T_UNKNOWN, T_INT_LIT, T_IDENTIFIER}"
  by (auto simp: chartokens_def split: if_splits)

lemma word_type_nonstring: "word_type w \<noteq> T_STRING"
  using keyword_nonstring [of w] by (auto simp: word_type_def split: option.splits)

lemma first_prefix_take: "first_prefix ss cs = Some s \<Longrightarrow> take (length s) cs = s"
  by (drule first_prefix_Some) (simp add: starts_with_def)

lemma takeWhile_quoted:
  assumes "length (takeWhile (\<lambda>d. d \<noteq> c) cs) + 2 \<le> length (c # cs)"
  shows "take (length (takeWhile (\<lambda>d. d \<noteq> c) cs) + 2) (c # cs) = c # takeWhile (\<lambda>d. d \<noteq> c) cs @ [c]"
proof -
  let ?b = "takeWhile (\<lambda>d. d \<noteq> c) cs"
  have "length ?b < length cs" using assms by simp
  then have "cs ! length ?b = c" by (meson nth_length_takeWhile)
  with \<open>length ?b < length cs\<close> show ?thesis
    by (simp add: take_Suc_conv_app_nth)
qed

text \<open>Every token is well formed, and the characters consumed for it are its source text.\<close>

lemma next_lexeme_ok:
  assumes "next_lexeme cs = Token t v n" and "cs \<noteq> []"
  shows "token_ok t v \<and> take n cs = (if t = T_STRING then hd cs # v @ [hd cs] else v) \<and>
    (t = T_STRING \<longrightarrow> hd cs \<in> {CHR 0x22, CHR 0x27})"
proof -
  obtain c ds where cs: "cs = c # ds" using assms(2) by (cases cs) auto
  show ?thesis
  proof (cases "plain_start c")
    case True
    consider "c = CHR 0x22 \<or> c = CHR 0x27" | "isdigit c" | "isalpha c \<or> c = CHR ''_''" "\<not> isdigit c"
      "\<not> (c = CHR 0x22 \<or> c = CHR 0x27)"
      using True by (auto simp: plain_start_def word_char_cases)
    then show ?thesis
    proof cases
      case 1
      then have "t = T_STRING" "v = takeWhile (\<lambda>d. d \<noteq> c) ds" "n = length v + 2" "length v + 2 \<le> length (c # ds)"
        using assms(1) next_lexeme_plain [OF True, of ds] by (auto simp: cs Let_def split: if_splits)
      with takeWhile_quoted [of c ds] 1 show ?thesis
        by (auto simp: cs token_ok_def dest: set_takeWhileD)
    next
      case 2
      then have "\<not> (c = CHR 0x22 \<or> c = CHR 0x27)" by (auto simp: isdigit_def)
      with 2 have "t = T_INT_LIT" "v = takeWhile isdigit cs" "n = length v"
        using assms(1) next_lexeme_plain [OF True, of ds] by (auto simp: cs Let_def split: if_splits)
      with 2 show ?thesis by (auto simp: cs token_ok_def dest: set_takeWhileD)
    next
      case 3
      then have v: "t = word_type v" "v = takeWhile is_word_char cs" "n = length v"
        using assms(1) next_lexeme_plain [OF True, of ds] by (auto simp: cs Let_def split: if_splits)
      moreover have "word_ok v"
        using 3 v(2) by (auto simp: cs word_ok_def word_char_cases dest: set_takeWhileD)
      ultimately show ?thesis by (simp add: word_type_ok word_type_nonstring)
    qed
  next
    case False
    have "hd (c # ds) = c" by simp
    with next_lexeme_not_plain [OF assms(1) [unfolded cs] False] show ?thesis
      by (auto simp: cs token_ok_def dest: first_prefix_Some first_prefix_take chartoken_nonstring)
  qed
qed

text \<open>The source text of a well-formed token, followed by a space, is read as that token.\<close>

lemma takeWhile_stop: "\<forall>c \<in> set v. P c \<Longrightarrow> \<not> P d \<Longrightarrow> takeWhile P (v @ d # cs) = v"
  by (simp add: takeWhile_append2)

lemma token_ok_cases:
  assumes "token_ok t v"
  shows "(t = T_INT_LIT \<and> v \<noteq> [] \<and> (\<forall>c \<in> set v. isdigit c))
    \<or> (t = T_STRING \<and> (CHR 0x22 \<notin> set v \<or> CHR 0x27 \<notin> set v))
    \<or> (word_ok v \<and> t = word_type v)
    \<or> (t = T_BINARY_OPERATOR \<and> v \<in> set multichar_operators)
    \<or> (\<exists>c. v = [c] \<and> map_of chartokens c = Some t)"
proof (cases "map_of keywords_tbl v = Some t")
  case True
  with keyword_word show ?thesis by (simp add: word_type_def)
next
  case False
  moreover have "(case v of [c] \<Rightarrow> map_of chartokens c = Some t | _ \<Rightarrow> False)
      \<Longrightarrow> \<exists>c. v = [c] \<and> map_of chartokens c = Some t"
    by (simp split: list.splits)
  moreover have "map_of keywords_tbl v = None \<Longrightarrow> word_type v = T_IDENTIFIER"
    by (simp add: word_type_def)
  ultimately show ?thesis using assms unfolding token_ok_def by argo
qed

lemma operator_chars_not_space: "list_all (\<lambda>c. \<not> isspace c) (CHR ''!'' # map fst chartokens)"
  by code_simp

lemma chartoken_not_space: "map_of chartokens c = Some t \<Longrightarrow> \<not> isspace c"
  using operator_chars_not_space by (auto simp: list_all_iff dest!: map_of_SomeD)

lemma operator_not_space: "s \<in> set multichar_operators \<Longrightarrow> s = c # w \<Longrightarrow> \<not> isspace c \<and> c \<noteq> CHR ''/''"
proof -
  have "list_all (\<lambda>s. \<not> isspace (hd s) \<and> hd s \<noteq> CHR ''/'') multichar_operators" by code_simp
  moreover assume "s \<in> set multichar_operators" "s = c # w"
  ultimately show ?thesis by (auto simp: list_all_iff)
qed

lemma next_lexeme_operator:
  assumes "\<not> isspace c" and "\<not> starts_with ''//'' (c # cs)" and "\<not> starts_with ''/*'' (c # cs)"
  shows "first_prefix multichar_operators (c # cs) = Some s \<Longrightarrow>
      next_lexeme (c # cs) = Token T_BINARY_OPERATOR s (length s)"
    "first_prefix multichar_operators (c # cs) = None \<Longrightarrow> map_of chartokens c = Some t \<Longrightarrow>
      next_lexeme (c # cs) = Token t [c] 1"
  using assms unfolding next_lexeme_def Let_def by (simp_all del: starts_with_simps)

lemma first_prefix_space:
  "first_prefix multichar_operators (c # CHR '' '' # cs) = None"
  by (simp add: multichar_operators_def)

lemma first_prefix_operator:
  "v \<in> set multichar_operators \<Longrightarrow> first_prefix multichar_operators (v @ CHR '' '' # cs) = Some v"
  by (simp add: multichar_operators_def) (elim disjE; simp)

lemma next_lexeme_text:
  assumes "token_ok t v"
  shows "next_lexeme (lexeme_text t v @ CHR '' '' # cs) = Token t v (length (lexeme_text t v))"
proof -
  have sp: "\<not> isdigit CHR '' ''" "\<not> is_word_char CHR '' ''" by code_simp+
  consider "t = T_INT_LIT" "v \<noteq> []" "\<forall>c \<in> set v. isdigit c"
    | "t = T_STRING" "CHR 0x22 \<notin> set v \<or> CHR 0x27 \<notin> set v"
    | "word_ok v" "t = word_type v"
    | "t = T_BINARY_OPERATOR" "v \<in> set multichar_operators"
    | c where "v = [c]" "map_of chartokens c = Some t"
    using token_ok_cases [OF assms] by blast
  then show ?thesis
  proof cases
    case 1
    then obtain c ds where v: "v = c # ds" by (cases v) auto
    then have c: "isdigit c" "plain_start c" "\<not> (c = CHR 0x22 \<or> c = CHR 0x27)"
      using 1 by (auto simp: plain_start_def word_char_cases isdigit_def)
    have "takeWhile isdigit (c # ds @ CHR '' '' # cs) = v"
      using takeWhile_stop [of v isdigit "CHR '' ''" cs] 1 sp v by simp
    with 1 c v show ?thesis
      using next_lexeme_plain [OF c(2), of "ds @ CHR '' '' # cs"]
      by (simp add: lexeme_text_def Let_def)
  next
    case 2
    let ?q = "if CHR 0x22 \<in> set v then CHR 0x27 else CHR 0x22"
    have "takeWhile (\<lambda>d. d \<noteq> ?q) (v @ ?q # CHR '' '' # cs) = v"
      using 2 by (intro takeWhile_stop) auto
    with 2 show ?thesis
      using next_lexeme_plain [of ?q "v @ [?q] @ CHR '' '' # cs"]
      by (simp add: lexeme_text_def Let_def plain_start_def)
  next
    case 3
    then obtain c ds where v: "v = c # ds" by (cases v) (auto simp: word_ok_def)
    then have c: "isalpha c \<or> c = CHR ''_''" "\<not> isdigit c" "plain_start c"
      using 3 by (auto simp: plain_start_def word_char_cases word_ok_def)
    then have nq: "\<not> (c = CHR 0x22 \<or> c = CHR 0x27)" by (auto simp: isalpha_def)
    have "takeWhile is_word_char (c # ds @ CHR '' '' # cs) = v"
      using takeWhile_stop [of v is_word_char "CHR '' ''" cs] 3 sp v by (simp add: word_ok_def)
    with 3 c nq v show ?thesis
      using next_lexeme_plain [OF c(3), of "ds @ CHR '' '' # cs"] word_type_nonstring [of v]
      by (auto simp: lexeme_text_def Let_def)
  next
    case 4
    then obtain c w where v: "v = c # w" by (auto simp: multichar_operators_def)
    have "next_lexeme (c # w @ CHR '' '' # cs) = Token T_BINARY_OPERATOR v (length v)"
      using operator_not_space [OF 4(2) v] first_prefix_operator [OF 4(2), of cs] v
      by (intro next_lexeme_operator(1)) auto
    with 4 v show ?thesis by (simp add: lexeme_text_def)
  next
    case 5
    then have "next_lexeme (c # CHR '' '' # cs) = Token t [c] 1"
      using chartoken_not_space [OF 5(2)] first_prefix_space [of c cs]
      by (intro next_lexeme_operator(2)) auto
    with 5 chartoken_nonstring [OF 5(2)] show ?thesis by (simp add: lexeme_text_def)
  qed
qed

section \<open>Properties\<close>

text \<open>
  C4. \<^verbatim>\<open>lex_analyze\<close> computes the specification: its loops, indices and guards produce,
  for every source, the tokens and positions (or the error) that \<open>lex_spec\<close> gives for the
  source up to its first NUL; it always returns or reports, and never reads outside the source.
\<close>

theorem lex_analyze_refines: "run_lexer filename buf = lex_spec (c_string buf) (1, 1)"
  by (rule run_lexer_spec)

lemma lex_spec_Inr_cases:
  assumes "lex_spec cs p = Inr ts" and "cs \<noteq> []"
  obtains (skipped) n where "next_lexeme cs = Skipped n" "lex_spec (drop n cs) (pos_after (take n cs) p) = Inr ts"
  | (tok) t v n us where "next_lexeme cs = Token t v n" "lex_spec (drop n cs) (pos_after (take n cs) p) = Inr us"
      "ts = token_between t v p (pos_after (take n cs) p) # us"
  using assms
  by (cases "next_lexeme cs") (auto simp: lex_spec.simps [of cs] Let_def rbind_eq_Inr)

text \<open>A list of tokens that ends with its only end-of-file token, every other one well formed.\<close>

fun tokens_ok :: "lex_token list \<Rightarrow> bool" where
  "tokens_ok [] = False"
| "tokens_ok [t] = (lt_type t = T_EOF \<and> lt_value t = ''[EOF]'')"
| "tokens_ok (t # ts) = (token_ok (lt_type t) (lt_value t) \<and> tokens_ok ts)"

lemma tokens_ok_Cons: "tokens_ok ts \<Longrightarrow> token_ok (lt_type t) (lt_value t) \<Longrightarrow> tokens_ok (t # ts)"
  by (cases ts) simp_all

lemma lex_spec_tokens_ok: "lex_spec cs p = Inr ts \<Longrightarrow> tokens_ok ts"
proof (induction "length cs" arbitrary: cs p ts rule: less_induct)
  case less
  show ?case
  proof (cases "cs = []")
    case True
    with less.prems show ?thesis by (auto simp: lex_spec.simps [of "[]"] token_between_def)
  next
    case False
    from less.prems False show ?thesis
    proof (cases rule: lex_spec_Inr_cases)
      case (skipped n)
      with next_lexeme_length [OF False] show ?thesis by (auto intro!: less.hyps [OF _ skipped(2)])
    next
      case (tok t v n us)
      have "tokens_ok us"
        using next_lexeme_length [OF False] tok(1) by (intro less.hyps [OF _ tok(2)]) auto
      with tok next_lexeme_ok [OF tok(1) False] show ?thesis
        by (auto intro: tokens_ok_Cons simp: token_between_def)
    qed
  qed
qed

text \<open>
  Where a token comes from: the source is \<open>pre @ lexeme @ post\<close>, the token ends at the
  position after \<open>pre @ lexeme\<close>, starts at the column after \<open>pre\<close>, and the lexeme is its
  value, between two equal quotes, single or double, if it is a string.
\<close>

definition located :: "string \<Rightarrow> nat \<times> nat \<Rightarrow> lex_token \<Rightarrow> bool" where
  "located cs p t \<longleftrightarrow> (\<exists>pre lexeme post. cs = pre @ lexeme @ post
     \<and> t = token_between (lt_type t) (lt_value t) (pos_after pre p) (pos_after (pre @ lexeme) p)
     \<and> (if lt_type t = T_EOF then lexeme = [] \<and> post = []
        else if lt_type t = T_STRING then \<exists>q \<in> {CHR 0x22, CHR 0x27}. lexeme = q # lt_value t @ [q]
        else lexeme = lt_value t))"

lemma located_drop:
  assumes "located (drop n cs) (pos_after (take n cs) p) t"
  shows "located cs p t"
proof -
  obtain pre lexeme post where l: "drop n cs = pre @ lexeme @ post"
    "t = token_between (lt_type t) (lt_value t) (pos_after pre (pos_after (take n cs) p))
           (pos_after (pre @ lexeme) (pos_after (take n cs) p))"
    "if lt_type t = T_EOF then lexeme = [] \<and> post = []
     else if lt_type t = T_STRING then \<exists>q \<in> {CHR 0x22, CHR 0x27}. lexeme = q # lt_value t @ [q] else lexeme = lt_value t"
    using assms unfolding located_def by blast
  have "cs = (take n cs @ pre) @ lexeme @ post" using l(1) by (metis append.assoc append_take_drop_id)
  moreover have "t = token_between (lt_type t) (lt_value t) (pos_after (take n cs @ pre) p)
      (pos_after ((take n cs @ pre) @ lexeme) p)"
    using l(2) by simp
  ultimately show ?thesis using l(3) unfolding located_def by blast
qed

lemma token_ok_not_eof: "token_ok t v \<Longrightarrow> t \<noteq> T_EOF"
  by (auto dest!: token_ok_cases dest: keyword_nonstring chartoken_nonstring simp: word_type_def split: option.splits)

lemma lex_spec_located: "lex_spec cs p = Inr ts \<Longrightarrow> t \<in> set ts \<Longrightarrow> located cs p t"
proof (induction "length cs" arbitrary: cs p ts rule: less_induct)
  case less
  show ?case
  proof (cases "cs = []")
    case True
    with less.prems show ?thesis
      by (auto simp: lex_spec.simps [of "[]"] located_def token_between_def)
  next
    case False
    from less.prems(1) False show ?thesis
    proof (cases rule: lex_spec_Inr_cases)
      case (skipped n)
      have "located (drop n cs) (pos_after (take n cs) p) t"
        using next_lexeme_length [OF False] skipped(1) less.prems(2)
        by (intro less.hyps [OF _ skipped(2)]) auto
      then show ?thesis by (rule located_drop)
    next
      case (tok ty v n us)
      show ?thesis
      proof (cases "t \<in> set us")
        case True
        then have "located (drop n cs) (pos_after (take n cs) p) t"
          using next_lexeme_length [OF False] tok(1)
          by (intro less.hyps [OF _ tok(2)]) auto
        then show ?thesis by (rule located_drop)
      next
        case False
        then have t: "t = token_between ty v p (pos_after (take n cs) p)"
          using less.prems(2) tok(3) by simp
        note ok = next_lexeme_ok [OF tok(1) \<open>cs \<noteq> []\<close>]
        have "cs = [] @ take n cs @ drop n cs" by simp
        moreover have "t = token_between (lt_type t) (lt_value t) (pos_after [] p) (pos_after ([] @ take n cs) p)"
          by (simp add: t token_between_def)
        ultimately show ?thesis using ok token_ok_not_eof [of ty v] unfolding located_def
          by (intro exI [of _ "[]"] exI [of _ "take n cs"] exI [of _ "drop n cs"])
             (auto simp: t token_between_def)
      qed
    qed
  qed
qed

definition sample_source :: string where
  "sample_source = ''var x = 10; // ten'' @ [newline] @ ''println(x >= 9, '' @ [CHR 0x27] @ ''ok'' @ [CHR 0x27] @ '');''"

lemma sample_lexes: "case run_lexer ''a.bl'' sample_source of Inr ts \<Rightarrow> length ts = 15 | Inl e \<Rightarrow> False"
  by code_simp

lemma sample_result: obtains ts where "run_lexer ''a.bl'' sample_source = Inr ts" "length ts = 15"
  using sample_lexes by (auto split: sum.splits)

text \<open>
  C8. A successful run yields well-formed tokens, closed by exactly one end-of-file token:
  integer literals are non-empty digit strings, identifiers are words that are no keyword,
  keywords and operators carry their type, and no token is unknown.
\<close>

theorem lex_tokens_well_formed:
  assumes "run_lexer filename buf = Inr ts"
  shows "tokens_ok ts"
  using assms by (simp add: run_lexer_spec lex_spec_tokens_ok)

theorem lex_tokens_well_formed_witness:
  "\<exists>ts. run_lexer ''a.bl'' sample_source = Inr ts \<and> length ts = 15 \<and> tokens_ok ts"
  by (rule sample_result) (use lex_tokens_well_formed in blast)



definition printable_tokens :: "(lex_token_type \<times> string) list \<Rightarrow> bool" where
  "printable_tokens ts \<longleftrightarrow> (\<forall>(t, v) \<in> set ts. token_ok t v \<and> CHR 0x00 \<notin> set v)"

lemma next_lexeme_space: "next_lexeme (CHR '' '' # cs) = Skipped 1"
proof -
  have "isspace CHR '' ''" by (simp add: isspace_def)
  then show ?thesis by (simp add: next_lexeme_def)
qed

lemma c_string_id: "CHR 0x00 \<notin> set s \<Longrightarrow> c_string s = s"
  by (auto simp: c_string_def takeWhile_eq_all_conv)

lemma lexeme_text_nonempty: "token_ok t v \<Longrightarrow> lexeme_text t v \<noteq> []"
  using next_lexeme_text [of t v "[]"] next_lexeme_length [of "lexeme_text t v @ CHR '' '' # []"] by auto

lemma lex_spec_unlex:
  "printable_tokens ts \<Longrightarrow> \<exists>us e. lex_spec (unlex ts) p = Inr (us @ [e])
     \<and> map (\<lambda>u. (lt_type u, lt_value u)) us = ts \<and> lt_type e = T_EOF"
proof (induction ts arbitrary: p)
  case Nil
  show ?case
    by (rule exI [of _ "[]"])
       (simp add: unlex_def lex_spec.simps [of "[]"] token_between_def)
next
  case (Cons tv ts)
  obtain t v where tv: "tv = (t, v)" by (cases tv)
  let ?x = "lexeme_text t v"
  have ok: "token_ok t v" "printable_tokens ts"
    using Cons.prems by (auto simp: printable_tokens_def tv)
  have u: "unlex (tv # ts) = ?x @ CHR '' '' # unlex ts" by (simp add: unlex_def tv)
  define q where "q = pos_after ?x p"
  from Cons.IH [OF ok(2), of "step_pos q CHR '' ''"] obtain us e where
    us: "lex_spec (unlex ts) (step_pos q CHR '' '') = Inr (us @ [e])"
      "map (\<lambda>u. (lt_type u, lt_value u)) us = ts" "lt_type e = T_EOF" by blast
  have "lex_spec (CHR '' '' # unlex ts) q = Inr (us @ [e])"
    using us(1) by (simp add: lex_spec.simps [of "CHR '' '' # _"] next_lexeme_space)
  then have "lex_spec (unlex (tv # ts)) p = Inr ((token_between t v p q # us) @ [e])"
    using next_lexeme_text [OF ok(1), of "unlex ts"] lexeme_text_nonempty [OF ok(1)]
    by (simp add: u lex_spec.simps [of "?x @ _"] q_def)
  with us show ?case
    by (intro exI [of _ "token_between t v p q # us"] exI [of _ e]) (simp add: tv token_between_def)
qed

lemma no_nul_unlex: "printable_tokens ts \<Longrightarrow> CHR 0x00 \<notin> set (unlex ts)"
  by (auto simp: printable_tokens_def unlex_def lexeme_text_def Let_def split: if_splits)

text \<open>
  C7. Round trip: well-formed tokens printed with a space after each are lexed back to the same types
  and values, with the end-of-file token after them.
\<close>

theorem lex_print_roundtrip:
  assumes "printable_tokens ts"
  shows "\<exists>us e. run_lexer filename (unlex ts) = Inr (us @ [e])
     \<and> map (\<lambda>u. (lt_type u, lt_value u)) us = ts \<and> lt_type e = T_EOF"
  using lex_spec_unlex [OF assms, of "(1, 1)"] no_nul_unlex [OF assms]
  by (simp add: run_lexer_spec c_string_id)

theorem lex_print_roundtrip_witness:
  "\<exists>us e. run_lexer ''a.bl'' (unlex [(T_VAR, ''var''), (T_IDENTIFIER, ''x1''), (T_BINARY_OPERATOR, ''==''),
        (T_STRING, ''it is''), (T_INT_LIT, ''42'')]) = Inr (us @ [e])
     \<and> map (\<lambda>u. (lt_type u, lt_value u)) us
        = [(T_VAR, ''var''), (T_IDENTIFIER, ''x1''), (T_BINARY_OPERATOR, ''==''), (T_STRING, ''it is''), (T_INT_LIT, ''42'')]
     \<and> lt_type e = T_EOF"
  by (rule lex_print_roundtrip) code_simp

lemma to_comment_end_open:
  "(\<forall>xs ys. cs \<noteq> xs @ ''*/'' @ ys) \<Longrightarrow> length cs < to_comment_end cs + 2"
proof (induction cs rule: to_comment_end.induct)
  case (3 c d cs)
  have "\<not> (c = CHR ''*'' \<and> d = CHR ''/'')"
    using 3(2) [rule_format, of "[]" cs] by auto
  moreover have "\<forall>xs ys. d # cs \<noteq> xs @ ''*/'' @ ys"
    using 3(2) by (metis append_Cons)
  ultimately show ?case using 3(1) by auto
qed simp_all



definition crlf_lines :: "nat \<Rightarrow> string" where
  "crlf_lines n = concat (replicate n [carriage_return, newline])"

lemma lex_spec_crlf:
  "lex_spec (crlf_lines n @ ''x'') (Suc m, 1) = Inr [token_between T_IDENTIFIER ''x'' (2 * n + Suc m, 1) (2 * n + Suc m, 2),
     token_between T_EOF ''[EOF]'' (2 * n + Suc m, 2) (2 * n + Suc m, 2)]"
proof (induction n arbitrary: m)
  case 0
  have "next_lexeme ''x'' = Token T_IDENTIFIER ''x'' 1" by code_simp
  then show ?case
    by (simp add: crlf_lines_def lex_spec.simps [of "''x''"] lex_spec.simps [of "[]"] carriage_return_def newline_def
        Let_def numeral_2_eq_2)
next
  case (Suc n)
  have sk: "next_lexeme (carriage_return # cs) = Skipped 1" "next_lexeme (newline # cs) = Skipped 1" for cs
    by (simp_all add: next_lexeme_def isspace_def carriage_return_def newline_def)
  have "crlf_lines (Suc n) @ ''x'' = carriage_return # newline # crlf_lines n @ ''x''"
    by (simp add: crlf_lines_def)
  then show ?case using Suc.IH [of "Suc (Suc m)"]
    by (simp add: lex_spec.simps [of "carriage_return # _"] lex_spec.simps [of "newline # _"] sk)
qed

text \<open>
  A line break written as carriage return and line feed counts twice: after \<open>n\<close> such lines
  a token is recorded on line \<open>2 * n + 1\<close>.
\<close>

theorem crlf_counts_two_lines:
  "run_lexer filename (crlf_lines n @ ''x'')
     = Inr [token_between T_IDENTIFIER ''x'' (2 * n + 1, 1) (2 * n + 1, 2),
            token_between T_EOF ''[EOF]'' (2 * n + 1, 2) (2 * n + 1, 2)]"
proof -
  have "c_string (crlf_lines n @ ''x'') = crlf_lines n @ ''x''"
    by (rule c_string_id) (auto simp: crlf_lines_def carriage_return_def newline_def)
  then show ?thesis using lex_spec_crlf [of n 0] by (simp add: run_lexer_spec)
qed

end
