(* ===== verification/Ast.thy ===== *)
theory Ast
  imports Lexer
begin

text \<open>
  The syntax tree (src/ast.h), and the copy of a tree that a function declaration keeps
  (\<^verbatim>\<open>parser_ast_deep_copy\<close> in src/parser.c).
\<close>

section \<open>Nodes\<close>

datatype ast_bin_operator =
    OP_PLUS | OP_MINUS | OP_DIVIDE | OP_TIMES | OP_MODULUS | OP_CMP_LT | OP_CMP_GT | OP_CMP_GE
  | OP_CMP_LE | OP_CMP_EQ | OP_CMP_EQ_S | OP_CMP_NE | OP_CMP_NE_S
  | OP_RAW char

text \<open>
  Where a node comes from. A field that the parser leaves indeterminate is \<open>None\<close>; so is a
  file name that is NULL or indeterminate.
\<close>

record loc =
  lc_filename :: "string option"
  lc_line_start :: "nat option"
  lc_line_end :: "nat option"
  lc_column_start :: "nat option"
  lc_column_end :: "nat option"

definition no_loc :: loc where
  "no_loc = \<lparr> lc_filename = None, lc_line_start = None, lc_line_end = None,
              lc_column_start = None, lc_column_end = None \<rparr>"

definition zero_loc :: loc where
  "zero_loc = \<lparr> lc_filename = None, lc_line_start = Some 0, lc_line_end = Some 0,
                lc_column_start = Some 0, lc_column_end = Some 0 \<rparr>"

text \<open>
  An array with its size is a list, a pointer that may be NULL an option. \<^verbatim>\<open>NODE_IMPORT_STMT\<close>
  is declared and never built.
\<close>

datatype ast_node =
    NODE_ROOT (node_loc: loc) "ast_node list"
  | NODE_INT_LIT (node_loc: loc) int
  | NODE_BINARY_EXPR (node_loc: loc) ast_bin_operator ast_node ast_node
  | NODE_IDENTIFIER (node_loc: loc) string
  | NODE_STRING (node_loc: loc) string
  | NODE_VAR_DECL (node_loc: loc) string bool "ast_node option"
  | NODE_ASSIGNMENT (node_loc: loc) ast_node ast_node
  | NODE_EXPR_CALL (node_loc: loc) string "ast_node list"
  | NODE_FN_DECL (node_loc: loc) string "string list" "ast_node list"
  | NODE_ARRAY_LIT (node_loc: loc) "ast_node list"
  | NODE_IMPORT_STMT (node_loc: loc)
  | NODE_BLOCK (node_loc: loc) "ast_node list"
  | NODE_IF_STMT (node_loc: loc) ast_node ast_node "ast_node option"
  | NODE_LOOP_STMT (node_loc: loc) "ast_node option" "string option" ast_node

fun ast_type_number :: "ast_node \<Rightarrow> nat" where
  "ast_type_number (NODE_ROOT l ns) = 0"
| "ast_type_number (NODE_INT_LIT l i) = 1"
| "ast_type_number (NODE_BINARY_EXPR l op a b) = 2"
| "ast_type_number (NODE_IDENTIFIER l s) = 3"
| "ast_type_number (NODE_STRING l s) = 4"
| "ast_type_number (NODE_VAR_DECL l s c v) = 5"
| "ast_type_number (NODE_ASSIGNMENT l a v) = 6"
| "ast_type_number (NODE_EXPR_CALL l f as) = 7"
| "ast_type_number (NODE_FN_DECL l f ps b) = 8"
| "ast_type_number (NODE_ARRAY_LIT l es) = 9"
| "ast_type_number (NODE_IMPORT_STMT l) = 10"
| "ast_type_number (NODE_BLOCK l ns) = 11"
| "ast_type_number (NODE_IF_STMT l c t e) = 12"
| "ast_type_number (NODE_LOOP_STMT l n v b) = 13"

text \<open>\<^verbatim>\<open>ast_type_to_str\<close>; the entry the table does not give is NULL.\<close>

fun ast_type_to_str :: "ast_node \<Rightarrow> string option" where
  "ast_type_to_str (NODE_IDENTIFIER l s) = Some ''IDENTIFIER''"
| "ast_type_to_str (NODE_BINARY_EXPR l op a b) = Some ''BINARY_EXPR''"
| "ast_type_to_str (NODE_INT_LIT l i) = Some ''INT_LIT''"
| "ast_type_to_str (NODE_ROOT l ns) = Some ''ROOT''"
| "ast_type_to_str (NODE_STRING l s) = Some ''STRING''"
| "ast_type_to_str (NODE_VAR_DECL l s c v) = Some ''VAR_DECL''"
| "ast_type_to_str (NODE_ASSIGNMENT l a v) = Some ''ASSIGNMENT''"
| "ast_type_to_str (NODE_EXPR_CALL l f as) = Some ''CALL_EXPR''"
| "ast_type_to_str (NODE_FN_DECL l f ps b) = Some ''FN_DECL''"
| "ast_type_to_str (NODE_ARRAY_LIT l es) = Some ''ARRAY_LIT''"
| "ast_type_to_str (NODE_BLOCK l ns) = Some ''BLOCK''"
| "ast_type_to_str (NODE_IF_STMT l c t e) = Some ''IF_STMT''"
| "ast_type_to_str (NODE_LOOP_STMT l n v b) = Some ''LOOP_STMT''"
| "ast_type_to_str (NODE_IMPORT_STMT l) = None"

section \<open>Copying a tree\<close>

definition copy_not_recognized :: "ast_node \<Rightarrow> fault" where
  "copy_not_recognized node =
     Fatal_error (''parser_ast_deep_copy(): AST type not recognized: ('' @ fmt_d (int (ast_type_number node)) @ '')'')"

text \<open>
  The copy of a variable declaration is allocated zeroed and its \<^verbatim>\<open>is_const\<close> is not
  copied; the copy of a block shares the children of the original, so its value is the block
  itself.
\<close>

fun parser_ast_deep_copy :: "ast_node \<Rightarrow> ast_node res" and deep_copy_list :: "ast_node list \<Rightarrow> ast_node list res"
where
  "parser_ast_deep_copy (NODE_ROOT l ns) =
     rbind (deep_copy_list ns) (\<lambda>ns'. Inr (NODE_ROOT l ns'))"
| "parser_ast_deep_copy (NODE_IDENTIFIER l s) = Inr (NODE_IDENTIFIER l s)"
| "parser_ast_deep_copy (NODE_STRING l s) = Inr (NODE_STRING l s)"
| "parser_ast_deep_copy (NODE_INT_LIT l i) = Inr (NODE_INT_LIT l i)"
| "parser_ast_deep_copy (NODE_BINARY_EXPR l op a b) =
     rbind (parser_ast_deep_copy a) (\<lambda>a'. rbind (parser_ast_deep_copy b) (\<lambda>b'.
       Inr (NODE_BINARY_EXPR l op a' b')))"
| "parser_ast_deep_copy (NODE_ASSIGNMENT l a v) =
     rbind (parser_ast_deep_copy a) (\<lambda>a'. rbind (parser_ast_deep_copy v) (\<lambda>v'.
       Inr (NODE_ASSIGNMENT l a' v')))"
| "parser_ast_deep_copy (NODE_EXPR_CALL l f args) =
     rbind (deep_copy_list args) (\<lambda>args'. Inr (NODE_EXPR_CALL l f args'))"
| "parser_ast_deep_copy (NODE_VAR_DECL l name is_const None) = Inr (NODE_VAR_DECL l name False None)"
| "parser_ast_deep_copy (NODE_VAR_DECL l name is_const (Some v)) =
     rbind (parser_ast_deep_copy v) (\<lambda>v'. Inr (NODE_VAR_DECL l name False (Some v')))"
| "parser_ast_deep_copy (NODE_FN_DECL l f params body) =
     rbind (deep_copy_list body) (\<lambda>body'. Inr (NODE_FN_DECL l f params body'))"
| "parser_ast_deep_copy (NODE_BLOCK l ns) = Inr (NODE_BLOCK l ns)"
| "parser_ast_deep_copy (NODE_ARRAY_LIT l es) = Inl (copy_not_recognized (NODE_ARRAY_LIT l es))"
| "parser_ast_deep_copy (NODE_IMPORT_STMT l) = Inl (copy_not_recognized (NODE_IMPORT_STMT l))"
| "parser_ast_deep_copy (NODE_IF_STMT l c t e) = Inl (copy_not_recognized (NODE_IF_STMT l c t e))"
| "parser_ast_deep_copy (NODE_LOOP_STMT l n v b) = Inl (copy_not_recognized (NODE_LOOP_STMT l n v b))"
| "deep_copy_list [] = Inr []"
| "deep_copy_list (n # ns) =
     rbind (parser_ast_deep_copy n) (\<lambda>n'. rbind (deep_copy_list ns) (\<lambda>ns'. Inr (n' # ns')))"

section \<open>What a copy keeps\<close>

text \<open>Trees the copier accepts, and the tree with its constants turned into variables.\<close>

fun copyable :: "ast_node \<Rightarrow> bool" where
  "copyable (NODE_ROOT l ns) = (\<forall>n \<in> set ns. copyable n)"
| "copyable (NODE_BINARY_EXPR l op a b) = (copyable a \<and> copyable b)"
| "copyable (NODE_ASSIGNMENT l a v) = (copyable a \<and> copyable v)"
| "copyable (NODE_EXPR_CALL l f args) = (\<forall>n \<in> set args. copyable n)"
| "copyable (NODE_VAR_DECL l name is_const (Some v)) = copyable v"
| "copyable (NODE_FN_DECL l f params body) = (\<forall>n \<in> set body. copyable n)"
| "copyable (NODE_ARRAY_LIT l es) = False"
| "copyable (NODE_IMPORT_STMT l) = False"
| "copyable (NODE_IF_STMT l c t e) = False"
| "copyable (NODE_LOOP_STMT l n v b) = False"
| "copyable n = True"

fun forget_const :: "ast_node \<Rightarrow> ast_node" where
  "forget_const (NODE_ROOT l ns) = NODE_ROOT l (map forget_const ns)"
| "forget_const (NODE_BINARY_EXPR l op a b) = NODE_BINARY_EXPR l op (forget_const a) (forget_const b)"
| "forget_const (NODE_ASSIGNMENT l a v) = NODE_ASSIGNMENT l (forget_const a) (forget_const v)"
| "forget_const (NODE_EXPR_CALL l f args) = NODE_EXPR_CALL l f (map forget_const args)"
| "forget_const (NODE_VAR_DECL l name is_const v) = NODE_VAR_DECL l name False (map_option forget_const v)"
| "forget_const (NODE_FN_DECL l f params body) = NODE_FN_DECL l f params (map forget_const body)"
| "forget_const n = n"

lemma deep_copy_cases:
  "(case parser_ast_deep_copy n of Inr n' \<Rightarrow> copyable n \<and> n' = forget_const n
      | Inl e \<Rightarrow> \<not> copyable n \<and> (\<exists>s. e = Fatal_error s))"
  "(case deep_copy_list ns of Inr ns' \<Rightarrow> (\<forall>n \<in> set ns. copyable n) \<and> ns' = map forget_const ns
      | Inl e \<Rightarrow> (\<exists>n \<in> set ns. \<not> copyable n) \<and> (\<exists>s. e = Fatal_error s))"
proof (induction n and ns rule: parser_ast_deep_copy_deep_copy_list.induct)
qed (auto simp: rbind_def copy_not_recognized_def split: sum.splits)

section \<open>Properties\<close>


end
