(* ===== verification/Parser.thy ===== *)
theory Parser
  imports Ast
begin

text \<open>
  The recursive-descent parser (src/parser.c). The functions that call \<^verbatim>\<open>parser_parse_expr\<close>
  and \<^verbatim>\<open>parser_parse_stmt\<close> take them as arguments \<open>pe\<close> and \<open>ps\<close>; the recursion is closed
  with fuel at the end of the theory, and theory Parser\_Correct shows that the fuel suffices.
\<close>

section \<open>The parser's state\<close>

record parser =
  ps_index :: nat
  ps_token_count :: nat
  ps_tokens :: "lex_token list"
  ps_filename :: "string option"
  ps_filebuf :: "string option"

definition parser_init :: parser where
  "parser_init = \<lparr> ps_index = 0, ps_token_count = 0, ps_tokens = [], ps_filename = None, ps_filebuf = None \<rparr>"

definition parser_init_from_lex :: "lex \<Rightarrow> parser" where
  "parser_init_from_lex l = parser_init\<lparr> ps_token_count := lex_get_token_count l,
     ps_tokens := lex_get_tokens l, ps_filename := Some (lex_filename l), ps_filebuf := Some (lex_buf l) \<rparr>"

definition parser_set_tokens :: "lex_token list \<Rightarrow> nat \<Rightarrow> parser \<Rightarrow> parser" where
  "parser_set_tokens tokens count p = p\<lparr> ps_token_count := count, ps_tokens := tokens \<rparr>"

definition parser_set_filename :: "string \<Rightarrow> parser \<Rightarrow> parser" where
  "parser_set_filename filename p = p\<lparr> ps_filename := Some (c_string filename) \<rparr>"

definition tok_at :: "nat \<Rightarrow> (parser, lex_token) st" where
  "tok_at i = (\<lambda>p. if i < length (ps_tokens p) then Inr (ps_tokens p ! i, p)
                   else Inl (Undefined ''token array over-read''))"

definition no_more_token :: string where
  "no_more_token = ''No more token to return''"

definition parser_at :: "(parser, lex_token) st" where
  "parser_at =
     sbind (sget (\<lambda>p. ps_index p < ps_token_count p)) (\<lambda>b.
     sbind (sassert b no_more_token) (\<lambda>_. sbind (sget ps_index) tok_at))"

definition parser_ret_forward :: "(parser, lex_token) st" where
  "parser_ret_forward =
     sbind (sget (\<lambda>p. ps_index p < ps_token_count p)) (\<lambda>b.
     sbind (sassert b no_more_token) (\<lambda>_.
     sbind (sget ps_index) (\<lambda>i.
     sbind (smod (\<lambda>p. p\<lparr> ps_index := ps_index p + 1 \<rparr>)) (\<lambda>_. tok_at i))))"

definition at_type :: "(parser, lex_token_type) st" where
  "at_type = sbind parser_at (\<lambda>t. sret (lt_type t))"

definition parser_is_eof :: "(parser, bool) st" where
  "parser_is_eof =
     sbind (sget (\<lambda>p. ps_index p \<ge> ps_token_count p)) (\<lambda>b.
     if b then sret True else sbind at_type (\<lambda>t. sret (t = T_EOF)))"

text \<open>
  \<^verbatim>\<open>PARSER_ERROR_ARGS\<close> reports at the current token and exits. A NULL name passed for a
  \<^verbatim>\<open>%s\<close> is undefined.
\<close>

definition parser_error :: "string \<Rightarrow> (parser, 'a) st" where
  "parser_error msg =
     sbind parser_at (\<lambda>t.
     sthrow (Parse_error (lt_line_start t) (lt_line_end t + 1) (lt_column_start t) (lt_column_end t) msg))"

definition token_name :: "lex_token_type \<Rightarrow> (parser, string) st" where
  "token_name t = (case lex_token_to_str t of Some s \<Rightarrow> sret s
                   | None \<Rightarrow> sthrow (Undefined ''NULL passed for a string conversion''))"

definition quoted :: "string \<Rightarrow> string" where
  "quoted s = CHR 0x27 # s @ [CHR 0x27]"

definition parser_expect :: "lex_token_type \<Rightarrow> (parser, lex_token) st" where
  "parser_expect type =
     sbind parser_is_eof (\<lambda>eof.
     if eof
     then sbind (token_name type) (\<lambda>name. parser_error (''unexpected end of file, expecting '' @ name))
     else
     sbind at_type (\<lambda>t.
     if t \<noteq> type
     then sbind parser_at (\<lambda>tok.
          sbind (token_name (lt_type tok)) (\<lambda>got.
          sbind (token_name type) (\<lambda>name.
          parser_error (''unexpected token '' @ quoted (lt_value tok) @ '' ('' @ got @ ''), expecting '' @ name))))
     else
     sbind (sget ps_index) (\<lambda>i.
     sbind (smod (\<lambda>p. p\<lparr> ps_index := ps_index p + 1 \<rparr>)) (\<lambda>_. tok_at i))))"

section \<open>Loops\<close>

text \<open>
  A \<^verbatim>\<open>while\<close> loop with a \<^verbatim>\<open>break\<close>: the body returns whether to go on. Every iteration of
  the parser's loops consumes a token, so one more round than there are tokens left suffices.
\<close>

fun swhile :: "nat \<Rightarrow> ('s, bool) st \<Rightarrow> ('a \<Rightarrow> ('s, bool \<times> 'a) st) \<Rightarrow> 'a \<Rightarrow> ('s, 'a) st" where
  "swhile 0 test body x = sthrow Out_of_fuel"
| "swhile (Suc n) test body x =
     sbind test (\<lambda>t.
     if t then sbind (body x) (\<lambda>(go_on, y). if go_on then swhile n test body y else sret y)
     else sret x)"

definition token_rounds :: "parser \<Rightarrow> nat" where
  "token_rounds p = Suc (ps_token_count p - ps_index p)"

definition pwhile :: "(parser, bool) st \<Rightarrow> ('a \<Rightarrow> (parser, bool \<times> 'a) st) \<Rightarrow> 'a \<Rightarrow> (parser, 'a) st" where
  "pwhile test body x = sbind (sget token_rounds) (\<lambda>n. swhile n test body x)"

text \<open>\<^verbatim>\<open>!parser_is_eof(parser) && parser_at(parser).type != type\<close>\<close>

definition not_eof_nor :: "lex_token_type \<Rightarrow> (parser, bool) st" where
  "not_eof_nor type = sbind parser_is_eof (\<lambda>eof. if eof then sret False else sbind at_type (\<lambda>t. sret (t \<noteq> type)))"

section \<open>Building nodes\<close>

definition loc_of_token :: "string option \<Rightarrow> lex_token \<Rightarrow> loc" where
  "loc_of_token filename t =
     \<lparr> lc_filename = filename, lc_line_start = Some (lt_line_start t), lc_line_end = Some (lt_line_end t),
       lc_column_start = Some (lt_column_start t), lc_column_end = Some (lt_column_end t) \<rparr>"

text \<open>From the start of the first token to the end of the second one.\<close>

definition loc_between :: "string option \<Rightarrow> lex_token \<Rightarrow> lex_token \<Rightarrow> loc" where
  "loc_between filename a b =
     (loc_of_token filename a)\<lparr> lc_line_end := Some (lt_line_end b), lc_column_end := Some (lt_column_end b) \<rparr>"

text \<open>\<^verbatim>\<open>init_node\<close>: the fields it does not name are zero.\<close>

definition init_node :: "(parser, loc) st" where
  "init_node =
     sbind parser_at (\<lambda>t. sbind (sget ps_filename) (\<lambda>f.
     sret (zero_loc\<lparr> lc_filename := f, lc_line_start := Some (lt_line_start t),
                     lc_column_start := Some (lt_column_start t) \<rparr>)))"

definition c_hd :: "string \<Rightarrow> char" where
  "c_hd s = (case s of [] \<Rightarrow> CHR 0x00 | c # _ \<Rightarrow> c)"

section \<open>Expressions\<close>

definition operator_of_char :: "char \<Rightarrow> ast_bin_operator" where
  "operator_of_char c =
     (if c = CHR ''+'' then OP_PLUS else if c = CHR ''-'' then OP_MINUS
      else if c = CHR ''/'' then OP_DIVIDE else if c = CHR ''*'' then OP_TIMES
      else if c = CHR ''%'' then OP_MODULUS else if c = CHR ''<'' then OP_CMP_LT
      else if c = CHR ''>'' then OP_CMP_GT else OP_RAW c)"

definition operator_of_string :: "string \<Rightarrow> ast_bin_operator" where
  "operator_of_string s =
     (if s = ''>='' then OP_CMP_GE else if s = ''<='' then OP_CMP_LE
      else if s = ''=='' then OP_CMP_EQ else if s = ''==='' then OP_CMP_EQ_S
      else if s = ''!='' then OP_CMP_NE else if s = ''!=='' then OP_CMP_NE_S
      else operator_of_char (c_hd s))"

definition parser_parse_binexp_operator :: "(parser, ast_bin_operator) st" where
  "parser_parse_binexp_operator =
     sbind (parser_expect T_BINARY_OPERATOR) (\<lambda>t. sret (operator_of_string (lt_value t)))"

definition parser_parse_binexp_inner ::
  "ast_bin_operator \<Rightarrow> ast_node \<Rightarrow> ast_node \<Rightarrow> (parser, ast_node) st" where
  "parser_parse_binexp_inner operator left right =
     sbind (sget ps_filename) (\<lambda>f.
     sret (NODE_BINARY_EXPR
       \<lparr> lc_filename = f,
         lc_line_start = lc_line_start (node_loc left), lc_line_end = lc_line_end (node_loc right),
         lc_column_start = lc_column_start (node_loc left), lc_column_end = lc_column_end (node_loc right) \<rparr>
       operator left right))"

definition parser_parse_primary_expr :: "(parser, ast_node) st \<Rightarrow> (parser, ast_node) st" where
  "parser_parse_primary_expr pe =
     sbind parser_at (\<lambda>token.
     sbind (sget ps_filename) (\<lambda>f.
     if lt_type token = T_IDENTIFIER
     then sbind parser_ret_forward (\<lambda>_. sret (NODE_IDENTIFIER (loc_of_token f token) (lt_value token)))
     else if lt_type token = T_INT_LIT
     then sbind parser_ret_forward (\<lambda>_.
          sbind (sassert (\<forall>c \<in> set (lt_value token). isdigit c) ''Invalid integer'') (\<lambda>_.
          sbind (slift (atoll (lt_value token))) (\<lambda>i.
          sret (NODE_INT_LIT (loc_of_token f token) i))))
     else if lt_type token = T_STRING
     then sbind parser_ret_forward (\<lambda>_. sret (NODE_STRING (loc_of_token f token) (lt_value token)))
     else if lt_type token = T_PAREN_OPEN
     then sbind parser_ret_forward (\<lambda>_.
          sbind pe (\<lambda>node.
          sbind (parser_expect T_PAREN_CLOSE) (\<lambda>_. sret node)))
     else
     sbind (token_name (lt_type token)) (\<lambda>name.
     parser_error (''unexpected token '' @ quoted (lt_value token) @ '' ('' @ name @ '')''))))"

definition call_follows :: "(parser, bool) st" where
  "call_follows =
     sbind (sget (\<lambda>p. p)) (\<lambda>p.
     if ps_token_count p > ps_index p + 2
     then sbind (tok_at (ps_index p)) (\<lambda>a.
          if lt_type a = T_IDENTIFIER
          then sbind (tok_at (ps_index p + 1)) (\<lambda>b. sret (lt_type b = T_PAREN_OPEN))
          else sret False)
     else sret False)"

text \<open>One argument of a call, and the comma after it if there is one.\<close>

definition parse_argument :: "(parser, ast_node) st \<Rightarrow> ast_node list \<Rightarrow> (parser, bool \<times> ast_node list) st" where
  "parse_argument pe args =
     sbind pe (\<lambda>param.
     sbind at_type (\<lambda>t.
     sbind (if t = T_COMMA then sbind (parser_expect T_COMMA) (\<lambda>_. sret ()) else sret ()) (\<lambda>_.
     sret (True, args @ [param]))))"

definition parser_parse_call_expr :: "(parser, ast_node) st \<Rightarrow> (parser, ast_node) st" where
  "parser_parse_call_expr pe =
     sbind call_follows (\<lambda>call.
     if call
     then sbind (sget ps_filename) (\<lambda>f.
          sbind parser_at (\<lambda>start.
          sbind (parser_expect T_IDENTIFIER) (\<lambda>identifier.
          sbind (parser_expect T_PAREN_OPEN) (\<lambda>_.
          sbind (pwhile (not_eof_nor T_PAREN_CLOSE) (parse_argument pe) []) (\<lambda>args.
          sbind (parser_expect T_PAREN_CLOSE) (\<lambda>_.
          sbind parser_at (\<lambda>end_token.
          sret (NODE_EXPR_CALL (loc_between f start end_token) (lt_value identifier) args))))))))
     else parser_parse_primary_expr pe)"

text \<open>
  The three loops for binary operators: while the next token is an operator of the level, parse it
  and the operand after it.
\<close>

definition operator_follows :: "(string \<Rightarrow> bool) \<Rightarrow> (parser, bool) st" where
  "operator_follows P =
     sbind parser_is_eof (\<lambda>eof.
     if eof then sret False
     else sbind parser_at (\<lambda>t. sret (lt_type t = T_BINARY_OPERATOR \<and> P (lt_value t))))"

definition parse_operand :: "(parser, ast_node) st \<Rightarrow> ast_node \<Rightarrow> (parser, bool \<times> ast_node) st" where
  "parse_operand operand left =
     sbind parser_parse_binexp_operator (\<lambda>operator.
     sbind operand (\<lambda>right.
     sbind (parser_parse_binexp_inner operator left right) (\<lambda>node. sret (True, node))))"

definition is_multiplicative :: "string \<Rightarrow> bool" where
  "is_multiplicative v \<longleftrightarrow> c_hd v = CHR ''*'' \<or> c_hd v = CHR ''/'' \<or> c_hd v = CHR ''%''"

definition is_additive :: "string \<Rightarrow> bool" where
  "is_additive v \<longleftrightarrow> c_hd v = CHR ''+'' \<or> c_hd v = CHR ''-''"

definition is_comparison :: "string \<Rightarrow> bool" where
  "is_comparison v \<longleftrightarrow> c_hd v = CHR ''>'' \<or> c_hd v = CHR ''<'' \<or>
     v \<in> {''>='', ''<='', ''=='', ''==='', ''!='', ''!==''}"

definition parser_parse_binexp_multiplicative :: "(parser, ast_node) st \<Rightarrow> (parser, ast_node) st" where
  "parser_parse_binexp_multiplicative pe =
     sbind (parser_parse_call_expr pe) (\<lambda>left.
     pwhile (operator_follows is_multiplicative) (parse_operand (parser_parse_call_expr pe)) left)"

definition parser_parse_binexp_additive :: "(parser, ast_node) st \<Rightarrow> (parser, ast_node) st" where
  "parser_parse_binexp_additive pe =
     sbind (parser_parse_binexp_multiplicative pe) (\<lambda>left.
     pwhile (operator_follows is_additive) (parse_operand (parser_parse_binexp_multiplicative pe)) left)"

definition parser_parse_binexp_comparison :: "(parser, ast_node) st \<Rightarrow> (parser, ast_node) st" where
  "parser_parse_binexp_comparison pe =
     sbind (parser_parse_binexp_additive pe) (\<lambda>left.
     pwhile (operator_follows is_comparison) (parse_operand (parser_parse_binexp_additive pe)) left)"

definition parse_element :: "(parser, ast_node) st \<Rightarrow> ast_node list \<Rightarrow> (parser, bool \<times> ast_node list) st" where
  "parse_element pe elements =
     sbind pe (\<lambda>expr.
     sbind at_type (\<lambda>t.
     if t = T_SQUARE_BRACE_CLOSE then sret (False, elements @ [expr])
     else sbind (parser_expect T_COMMA) (\<lambda>_. sret (True, elements @ [expr]))))"

definition parser_parse_array_lit :: "(parser, ast_node) st \<Rightarrow> (parser, ast_node) st" where
  "parser_parse_array_lit pe =
     sbind at_type (\<lambda>t.
     if t \<noteq> T_ARRAY then parser_parse_binexp_comparison pe
     else
     sbind (parser_expect T_ARRAY) (\<lambda>_.
     sbind (parser_expect T_SQUARE_BRACE_OPEN) (\<lambda>_.
     sbind (pwhile (not_eof_nor T_SQUARE_BRACE_CLOSE) (parse_element pe) []) (\<lambda>elements.
     sbind (parser_expect T_SQUARE_BRACE_CLOSE) (\<lambda>_.
     sret (NODE_ARRAY_LIT no_loc elements))))))"

definition assignment_follows :: "(parser, bool) st" where
  "assignment_follows =
     sbind parser_is_eof (\<lambda>eof.
     if eof then sret False
     else sbind (sget (\<lambda>p. p)) (\<lambda>p.
          if ps_index p + 1 < ps_token_count p
          then sbind (tok_at (ps_index p + 1)) (\<lambda>t. sret (lt_type t = T_ASSIGNMENT))
          else sret False))"

definition parser_parse_assignment_expr :: "(parser, ast_node) st \<Rightarrow> (parser, ast_node) st" where
  "parser_parse_assignment_expr pe =
     sbind assignment_follows (\<lambda>assignment.
     if assignment
     then sbind (parser_expect T_IDENTIFIER) (\<lambda>start_token.
          sbind (parser_expect T_ASSIGNMENT) (\<lambda>_.
          sbind pe (\<lambda>val.
          sbind (sget ps_filename) (\<lambda>f.
          sbind parser_at (\<lambda>end_token.
          sret (NODE_ASSIGNMENT (loc_between f start_token end_token)
                  (NODE_IDENTIFIER (loc_of_token None start_token) (lt_value start_token)) val))))))
     else parser_parse_array_lit pe)"

section \<open>Statements\<close>

definition parser_parse_var_decl :: "(parser, ast_node) st \<Rightarrow> (parser, ast_node) st" where
  "parser_parse_var_decl pe =
     sbind at_type (\<lambda>t.
     sbind (sassert (t = T_VAR \<or> t = T_CONST) ''parser_at(parser).type == T_VAR || parser_at(parser).type == T_CONST'') (\<lambda>_.
     sbind parser_ret_forward (\<lambda>start_token.
     let is_const = (lt_type start_token = T_CONST) in
     sbind (parser_expect T_IDENTIFIER) (\<lambda>identifier.
     sbind (sget ps_filename) (\<lambda>f.
     sbind at_type (\<lambda>t.
     if t = T_SEMICOLON
     then sbind parser_at (\<lambda>end_token.
          if is_const
          then parser_error (''constant '' @ quoted (lt_value identifier)
                 @ '' must have a value assigned to it when declaring'')
          else sret (NODE_VAR_DECL (loc_between f start_token end_token) (lt_value identifier) is_const None))
     else
     sbind (parser_expect T_ASSIGNMENT) (\<lambda>_.
     sbind pe (\<lambda>expr.
     sbind parser_at (\<lambda>end_token.
     sret (NODE_VAR_DECL (loc_between f start_token end_token) (lt_value identifier) is_const (Some expr)))))))))))"

definition parse_parameter :: "string list \<Rightarrow> (parser, bool \<times> string list) st" where
  "parse_parameter params =
     sbind (parser_expect T_IDENTIFIER) (\<lambda>identifier.
     sbind at_type (\<lambda>t.
     if t = T_PAREN_CLOSE then sret (False, params @ [lt_value identifier])
     else sbind (parser_expect T_COMMA) (\<lambda>_. sret (True, params @ [lt_value identifier]))))"

text \<open>One statement of a function body, a block or the program.\<close>

definition parse_child :: "(parser, ast_node) st \<Rightarrow> ast_node list \<Rightarrow> (parser, bool \<times> ast_node list) st" where
  "parse_child ps children = sbind ps (\<lambda>node. sret (True, children @ [node]))"

definition parser_parse_fn_decl :: "(parser, ast_node) st \<Rightarrow> (parser, ast_node) st" where
  "parser_parse_fn_decl ps =
     sbind (parser_expect T_FUNCTION) (\<lambda>first_token.
     sbind (parser_expect T_IDENTIFIER) (\<lambda>fn_name_token.
     sbind (parser_expect T_PAREN_OPEN) (\<lambda>_.
     sbind (sget ps_filename) (\<lambda>f.
     sbind (pwhile (not_eof_nor T_PAREN_CLOSE) parse_parameter []) (\<lambda>params.
     sbind (parser_expect T_PAREN_CLOSE) (\<lambda>_.
     sbind (parser_expect T_BLOCK_BRACE_OPEN) (\<lambda>_.
     sbind (pwhile (not_eof_nor T_BLOCK_BRACE_CLOSE) (parse_child ps) []) (\<lambda>body.
     sbind (parser_expect T_BLOCK_BRACE_CLOSE) (\<lambda>last_token.
     sret (NODE_FN_DECL (loc_between f first_token last_token) (lt_value fn_name_token) params body))))))))))"

definition parser_parse_block :: "(parser, ast_node) st \<Rightarrow> (parser, ast_node) st" where
  "parser_parse_block ps =
     sbind (parser_expect T_BLOCK_BRACE_OPEN) (\<lambda>_.
     sbind (pwhile (not_eof_nor T_BLOCK_BRACE_CLOSE) (parse_child ps) []) (\<lambda>children.
     sbind (parser_expect T_BLOCK_BRACE_CLOSE) (\<lambda>_.
     sret (NODE_BLOCK zero_loc children))))"

definition parser_parse_if :: "(parser, ast_node) st \<Rightarrow> (parser, ast_node) st \<Rightarrow> (parser, ast_node) st" where
  "parser_parse_if pe ps =
     sbind (parser_expect T_IF) (\<lambda>_.
     sbind (parser_expect T_PAREN_OPEN) (\<lambda>_.
     sbind pe (\<lambda>condition.
     sbind (parser_expect T_PAREN_CLOSE) (\<lambda>_.
     sbind ps (\<lambda>if_body.
     sbind at_type (\<lambda>t.
     if t = T_ELSE
     then sbind (parser_expect T_ELSE) (\<lambda>_.
          sbind ps (\<lambda>else_body. sret (NODE_IF_STMT zero_loc condition if_body (Some else_body))))
     else sret (NODE_IF_STMT zero_loc condition if_body None)))))))"

definition parser_parse_loop_stmt :: "(parser, ast_node) st \<Rightarrow> (parser, ast_node) st \<Rightarrow> (parser, ast_node) st" where
  "parser_parse_loop_stmt pe ps =
     sbind init_node (\<lambda>l.
     sbind (parser_expect T_LOOP) (\<lambda>_.
     sbind at_type (\<lambda>t.
     sbind (if t = T_PAREN_OPEN
            then sbind (parser_expect T_PAREN_OPEN) (\<lambda>_.
                 sbind pe (\<lambda>iter_count.
                 sbind at_type (\<lambda>t.
                 sbind (if t \<noteq> T_PAREN_CLOSE
                        then sbind (parser_expect T_AS) (\<lambda>_.
                             sbind (parser_expect T_IDENTIFIER) (\<lambda>v. sret (Some (lt_value v))))
                        else sret None) (\<lambda>iter_varname.
                 sbind (parser_expect T_PAREN_CLOSE) (\<lambda>_. sret (Some iter_count, iter_varname))))))
            else sret (None, None)) (\<lambda>(iter_count, iter_varname1).
     sbind at_type (\<lambda>t.
     sbind (if t = T_IDENTIFIER
            then sbind (parser_expect T_IDENTIFIER) (\<lambda>v. sret (Some (lt_value v)))
            else sret iter_varname1) (\<lambda>iter_varname.
     sbind ps (\<lambda>body.
     sbind parser_at (\<lambda>end_token.
     sret (NODE_LOOP_STMT (l\<lparr> lc_line_end := Some (lt_line_end end_token),
                             lc_column_end := Some (lt_column_end end_token) \<rparr>)
             iter_count iter_varname body)))))))))"

definition skip_semicolon :: "unit \<Rightarrow> (parser, bool \<times> unit) st" where
  "skip_semicolon _ = sbind parser_ret_forward (\<lambda>_. sret (True, ()))"

definition at_semicolon :: "(parser, bool) st" where
  "at_semicolon = sbind at_type (\<lambda>t. sret (t = T_SEMICOLON))"

definition parser_parse_stmt_body ::
  "(parser, ast_node) st \<Rightarrow> (parser, ast_node) st \<Rightarrow> (parser, ast_node) st" where
  "parser_parse_stmt_body pe ps =
     sbind at_type (\<lambda>t.
     sbind (if t = T_VAR \<or> t = T_CONST
            then sbind (parser_parse_var_decl pe) (\<lambda>n. sret (n, True))
            else if t = T_FUNCTION then sbind (parser_parse_fn_decl ps) (\<lambda>n. sret (n, False))
            else if t = T_BLOCK_BRACE_OPEN then sbind (parser_parse_block ps) (\<lambda>n. sret (n, False))
            else if t = T_IF then sbind (parser_parse_if pe ps) (\<lambda>n. sret (n, False))
            else if t = T_LOOP then sbind (parser_parse_loop_stmt pe ps) (\<lambda>n. sret (n, False))
            else sbind pe (\<lambda>n. sret (n, True))) (\<lambda>(stmt, semicolon_is_expected).
     sbind (if semicolon_is_expected then sbind (parser_expect T_SEMICOLON) (\<lambda>_. sret ()) else sret ()) (\<lambda>_.
     sbind (pwhile at_semicolon skip_semicolon ()) (\<lambda>_. sret stmt))))"

section \<open>Closing the recursion\<close>

fun parser_parse_expr :: "nat \<Rightarrow> (parser, ast_node) st" where
  "parser_parse_expr 0 = sthrow Out_of_fuel"
| "parser_parse_expr (Suc n) = parser_parse_assignment_expr (parser_parse_expr n)"

fun parser_parse_stmt :: "nat \<Rightarrow> (parser, ast_node) st" where
  "parser_parse_stmt 0 = sthrow Out_of_fuel"
| "parser_parse_stmt (Suc n) = parser_parse_stmt_body (parser_parse_expr (Suc n)) (parser_parse_stmt n)"

text \<open>For evaluation, these two are unfolded only once they have a state to run on.\<close>

lemma parser_parse_expr_code [code]:
  "parser_parse_expr 0 p = Inl Out_of_fuel"
  "parser_parse_expr (Suc n) p = parser_parse_assignment_expr (parser_parse_expr n) p"
  by (simp_all add: sthrow_def)

lemma parser_parse_stmt_code [code]:
  "parser_parse_stmt 0 p = Inl Out_of_fuel"
  "parser_parse_stmt (Suc n) p = parser_parse_stmt_body (parser_parse_expr (Suc n)) (parser_parse_stmt n) p"
  by (simp_all add: sthrow_def)

definition root_loc :: "string option \<Rightarrow> loc" where
  "root_loc f = no_loc\<lparr> lc_filename := f \<rparr>"

definition not_eof :: "(parser, bool) st" where
  "not_eof = sbind parser_is_eof (\<lambda>eof. sret (\<not> eof))"

definition parser_create_ast_node :: "(parser, ast_node) st" where
  "parser_create_ast_node =
     sbind (sget token_rounds) (\<lambda>fuel.
     sbind (pwhile not_eof (parse_child (parser_parse_stmt fuel)) []) (\<lambda>nodes.
     sbind (sget ps_filename) (\<lambda>f. sret (NODE_ROOT (root_loc f) nodes))))"

text \<open>From the source text to the tree, as src/blaze.c composes the lexer and the parser.\<close>

definition parse_source :: "string \<Rightarrow> string \<Rightarrow> ast_node res" where
  "parse_source filename buf =
     rbind (lex_analyze (lex_init filename buf)) (\<lambda>(done, l).
     rbind (parser_create_ast_node (parser_init_from_lex l)) (\<lambda>(node, p). Inr node))"

end
