(* ===== verification/Parser_Correct.thy ===== *)
theory Parser_Correct
  imports Parser Lexer_Correct
begin

text \<open>
  The parser is safe on the lexer's output: with the fuel it is given it always returns or reports,
  it never fails an assertion or reads outside the token array, it never consumes the end-of-file
  token, and the trees it returns are well formed. The rules below compute weakest preconditions:
  all the parser changes is its index.
\<close>

section \<open>Well-formed trees\<close>

fun node_ok :: "ast_node \<Rightarrow> bool" where
  "node_ok (NODE_ROOT l ns) = False"
| "node_ok (NODE_INT_LIT l i) = (0 \<le> i \<and> i \<le> llong_max)"
| "node_ok (NODE_BINARY_EXPR l op a b) = ((\<forall>c. op \<noteq> OP_RAW c) \<and> node_ok a \<and> node_ok b)"
| "node_ok (NODE_IDENTIFIER l s) = True"
| "node_ok (NODE_STRING l s) = True"
| "node_ok (NODE_VAR_DECL l s c v) = (case v of None \<Rightarrow> \<not> c | Some e \<Rightarrow> node_ok e)"
| "node_ok (NODE_ASSIGNMENT l a v) = ((case a of NODE_IDENTIFIER _ _ \<Rightarrow> True | _ \<Rightarrow> False) \<and> node_ok v)"
| "node_ok (NODE_EXPR_CALL l f args) = (\<forall>n \<in> set args. node_ok n)"
| "node_ok (NODE_FN_DECL l f ps b) = (\<forall>n \<in> set b. node_ok n)"
| "node_ok (NODE_ARRAY_LIT l es) = (\<forall>n \<in> set es. node_ok n)"
| "node_ok (NODE_IMPORT_STMT l) = False"
| "node_ok (NODE_BLOCK l ns) = (\<forall>n \<in> set ns. node_ok n)"
| "node_ok (NODE_IF_STMT l c t e) = (node_ok c \<and> node_ok t \<and> (case e of None \<Rightarrow> True | Some n \<Rightarrow> node_ok n))"
| "node_ok (NODE_LOOP_STMT l n v b) = ((case n of None \<Rightarrow> True | Some c \<Rightarrow> node_ok c) \<and> node_ok b)"

section \<open>Weakest preconditions\<close>

text \<open>How a run on the lexer's output may end without returning.\<close>

definition parser_fault :: "fault \<Rightarrow> bool" where
  "parser_fault e \<longleftrightarrow> (\<exists>a b c d m. e = Parse_error a b c d m)
     \<or> e = Undefined ''NULL passed for a string conversion''
     \<or> e = Undefined ''atoll: value not representable''"

text \<open>A parser on a token array of the lexer, at a token.\<close>

definition pok :: "parser \<Rightarrow> nat \<Rightarrow> bool" where
  "pok p i \<longleftrightarrow> tokens_ok (ps_tokens p) \<and> ps_token_count p = length (ps_tokens p) \<and> i < ps_token_count p"

abbreviation tok :: "parser \<Rightarrow> nat \<Rightarrow> lex_token" where
  "tok p i \<equiv> ps_tokens p ! i"

definition runs :: "parser \<Rightarrow> nat \<Rightarrow> (parser, 'a) st \<Rightarrow> ('a \<Rightarrow> nat \<Rightarrow> bool) \<Rightarrow> bool" where
  "runs p i m Q \<longleftrightarrow>
     (case m (p\<lparr> ps_index := i \<rparr>) of
        Inr (x, p') \<Rightarrow> p' = p\<lparr> ps_index := ps_index p' \<rparr> \<and> Q x (ps_index p')
      | Inl e \<Rightarrow> parser_fault e)"

lemma runs_sret [intro]: "Q x i \<Longrightarrow> runs p i (sret x) Q"
  by (auto simp: runs_def)

lemma runs_sbind [intro]: "runs p i m (\<lambda>x j. runs p j (f x) Q) \<Longrightarrow> runs p i (sbind m f) Q"
proof -
  assume r: "runs p i m (\<lambda>x j. runs p j (f x) Q)"
  show ?thesis
  proof (cases "m (p\<lparr> ps_index := i \<rparr>)")
    case (Inl e)
    with r show ?thesis by (simp add: runs_def sbind_def)
  next
    case (Inr y)
    obtain x p' where y: "y = (x, p')" by (cases y)
    from r have pq: "p' = p\<lparr> ps_index := ps_index p' \<rparr> \<and> runs p (ps_index p') (f x) Q"
      by (simp only: runs_def [of p i] Inr y sum.case prod.case)
    then have p': "p\<lparr> ps_index := ps_index p' \<rparr> = p'" by simp
    have e: "sbind m f (p\<lparr> ps_index := i \<rparr>) = f x (p\<lparr> ps_index := ps_index p' \<rparr>)"
      using Inr y p' by (simp add: sbind_def)
    from pq have "runs p (ps_index p') (f x) Q" ..
    then show ?thesis unfolding runs_def e .
  qed
qed

lemma runs_mono: "runs p i m P \<Longrightarrow> (\<And>x j. P x j \<Longrightarrow> Q x j) \<Longrightarrow> runs p i m Q"
  by (auto simp: runs_def split: sum.splits)

lemma runs_if [intro]: "(b \<Longrightarrow> runs p i m Q) \<Longrightarrow> (\<not> b \<Longrightarrow> runs p i n Q) \<Longrightarrow> runs p i (if b then m else n) Q"
  by simp

lemma runs_filename [intro]: "Q (ps_filename p) i \<Longrightarrow> runs p i (sget ps_filename) Q"
  by (auto simp: runs_def)

lemma runs_slift [intro]: "(\<And>x. r = Inr x \<Longrightarrow> Q x i) \<Longrightarrow> (\<And>e. r = Inl e \<Longrightarrow> parser_fault e) \<Longrightarrow> runs p i (slift r) Q"
  by (cases r) (auto simp: runs_def)

lemma runs_sassert [intro]: "b \<Longrightarrow> Q () i \<Longrightarrow> runs p i (sassert b msg) Q"
  by (auto simp: runs_def)

lemma runs_parser_at [intro]: "pok p i \<Longrightarrow> Q (tok p i) i \<Longrightarrow> runs p i parser_at Q"
  by (auto simp: runs_def parser_at_def sbind_def tok_at_def pok_def)

lemma runs_at_type [intro]: "pok p i \<Longrightarrow> Q (lt_type (tok p i)) i \<Longrightarrow> runs p i at_type Q"
  unfolding at_type_def by blast

lemma runs_is_eof [intro]: "pok p i \<Longrightarrow> Q (lt_type (tok p i) = T_EOF) i \<Longrightarrow> runs p i parser_is_eof Q"
  unfolding parser_is_eof_def
  by (rule runs_sbind) (auto simp: runs_def pok_def at_type_def parser_at_def sbind_def tok_at_def)

text \<open>The end-of-file token is the last one, so there is a token after any other.\<close>

lemma tokens_ok_eof: "tokens_ok ts \<Longrightarrow> i < length ts \<Longrightarrow> lt_type (ts ! i) = T_EOF \<longleftrightarrow> Suc i = length ts"
proof (induction ts arbitrary: i rule: tokens_ok.induct)
  case (3 t u ts)
  then show ?case using token_ok_not_eof by (cases i) auto
qed auto

lemma pok_Suc: "pok p i \<Longrightarrow> lt_type (tok p i) \<noteq> T_EOF \<Longrightarrow> pok p (Suc i)"
  using tokens_ok_eof [of "ps_tokens p" i] by (auto simp: pok_def)

lemma pok_token: "pok p i \<Longrightarrow> lt_type (tok p i) \<noteq> T_EOF \<Longrightarrow> token_ok (lt_type (tok p i)) (lt_value (tok p i))"
proof -
  have "tokens_ok ts \<Longrightarrow> i < length ts \<Longrightarrow> lt_type (ts ! i) \<noteq> T_EOF \<Longrightarrow> token_ok (lt_type (ts ! i)) (lt_value (ts ! i))" for ts i
  proof (induction ts arbitrary: i rule: tokens_ok.induct)
    case (3 t u ts)
    then show ?case by (cases i) auto
  qed auto
  then show "pok p i \<Longrightarrow> lt_type (tok p i) \<noteq> T_EOF \<Longrightarrow> ?thesis" by (simp add: pok_def)
qed

lemma runs_parser_error [intro]: "pok p i \<Longrightarrow> runs p i (parser_error msg) Q"
  unfolding parser_error_def by (intro runs_sbind runs_parser_at) (auto simp: runs_def parser_fault_def)

lemma runs_token_name [intro]: "(\<And>s. Q s i) \<Longrightarrow> runs p i (token_name t) Q"
  by (auto simp: runs_def token_name_def parser_fault_def split: option.splits)

lemma runs_ret_forward [intro]:
  "pok p i \<Longrightarrow> lt_type (tok p i) \<noteq> T_EOF \<Longrightarrow> (pok p (Suc i) \<Longrightarrow> Q (tok p i) (Suc i)) \<Longrightarrow>
   runs p i parser_ret_forward Q"
  using pok_Suc [of p i]
  by (auto simp: runs_def parser_ret_forward_def sbind_def tok_at_def pok_def)

lemma runs_advance:
  "pok p i \<Longrightarrow> lt_type (tok p i) \<noteq> T_EOF \<Longrightarrow> (pok p (Suc i) \<Longrightarrow> Q (tok p i) (Suc i)) \<Longrightarrow>
   runs p i (sbind (sget ps_index) (\<lambda>i. sbind (smod (\<lambda>p. p\<lparr> ps_index := ps_index p + 1 \<rparr>)) (\<lambda>_. tok_at i))) Q"
  using pok_Suc [of p i] by (auto simp: runs_def sbind_def tok_at_def pok_def)

lemma runs_expect [intro]:
  "pok p i \<Longrightarrow> type \<noteq> T_EOF \<Longrightarrow> (lt_type (tok p i) = type \<Longrightarrow> pok p (Suc i) \<Longrightarrow> Q (tok p i) (Suc i)) \<Longrightarrow>
   runs p i (parser_expect type) Q"
  unfolding parser_expect_def
  by (intro runs_sbind runs_is_eof runs_if runs_at_type runs_parser_at runs_token_name
      runs_parser_error runs_advance) auto

lemma runs_not_eof_nor [intro]:
  "pok p i \<Longrightarrow> (\<And>b. (b \<longleftrightarrow> lt_type (tok p i) \<noteq> T_EOF \<and> lt_type (tok p i) \<noteq> type) \<Longrightarrow> Q b i) \<Longrightarrow>
   runs p i (not_eof_nor type) Q"
  unfolding not_eof_nor_def by (intro runs_sbind runs_is_eof runs_if runs_sret runs_at_type) auto

text \<open>A loop whose every round moves on, with an invariant \<open>I\<close> of the value it builds.\<close>

lemma runs_pwhile:
  assumes "pok p i" and "I x"
    and step: "\<And>x j. pok p j \<Longrightarrow> i \<le> j \<Longrightarrow> I x \<Longrightarrow>
        runs p j test (\<lambda>b k. k = j \<and> (b \<longrightarrow> runs p j (body x) (\<lambda>(go_on, y) k. j < k \<and> pok p k \<and> I y)))"
    and post: "\<And>x j. pok p j \<Longrightarrow> i \<le> j \<Longrightarrow> I x \<Longrightarrow> Q x j"
  shows "runs p i (pwhile test body x) Q"
proof -
  have "runs p j (swhile n test body x) Q" if "pok p j" "i \<le> j" "I x" "ps_token_count p - j < n" for j n x
    using that
  proof (induction n arbitrary: j x)
    case (Suc n)
    show ?case unfolding swhile.simps
    proof (rule runs_sbind, rule runs_mono [OF step [OF Suc.prems(1,2,3)]])
      fix b k assume k: "k = j \<and> (b \<longrightarrow> runs p j (body x) (\<lambda>(go_on, y) k. j < k \<and> pok p k \<and> I y))"
      show "runs p k (if b then sbind (body x) (\<lambda>(go_on, y). if go_on then swhile n test body y else sret y)
              else sret x) Q"
      proof (rule runs_if)
        assume b
        with k have r: "runs p k (body x) (\<lambda>(go_on, y) k. j < k \<and> pok p k \<and> I y)" by simp
        show "runs p k (sbind (body x) (\<lambda>(go_on, y). if go_on then swhile n test body y else sret y)) Q"
        proof (rule runs_sbind, rule runs_mono [OF r], clarify)
          fix go_on y m assume "j < m" "pok p m" "I y"
          with Suc.prems k show "runs p m (if go_on then swhile n test body y else sret y) Q"
            by (intro runs_if runs_sret post Suc.IH) (auto simp: pok_def)
        qed
      next
        assume "\<not> b"
        then show "runs p k (sret x) Q" using k Suc.prems post by auto
      qed
    qed
  qed simp
  then have "runs p i (swhile (Suc (ps_token_count p - i)) test body x) Q"
    using assms(1,2) by blast
  then show ?thesis by (simp add: runs_def pwhile_def sbind_def token_rounds_def del: swhile.simps)
qed

section \<open>Expressions\<close>

text \<open>From index \<open>k\<close> on, \<open>m\<close> consumes at least one token and returns a well-formed tree.\<close>

definition safe_from :: "parser \<Rightarrow> nat \<Rightarrow> (parser, ast_node) st \<Rightarrow> bool" where
  "safe_from p k m \<longleftrightarrow> (\<forall>i \<ge> k. pok p i \<longrightarrow> runs p i m (\<lambda>x j. i < j \<and> pok p j \<and> node_ok x))"

lemma safe_fromI:
  "(\<And>i. k \<le> i \<Longrightarrow> pok p i \<Longrightarrow> runs p i m (\<lambda>x j. i < j \<and> pok p j \<and> node_ok x)) \<Longrightarrow> safe_from p k m"
  by (simp add: safe_from_def)

lemma runs_safe:
  "safe_from p k m \<Longrightarrow> k \<le> i \<Longrightarrow> pok p i \<Longrightarrow> (\<And>x j. i < j \<Longrightarrow> pok p j \<Longrightarrow> node_ok x \<Longrightarrow> Q x j) \<Longrightarrow>
   runs p i m Q"
  by (rule runs_mono [of p i m "\<lambda>x j. i < j \<and> pok p j \<and> node_ok x"]) (simp_all add: safe_from_def)

lemma safe_mono: "safe_from p k m \<Longrightarrow> k \<le> k' \<Longrightarrow> safe_from p k' m"
  by (simp add: safe_from_def)

lemma atoll_faults: "atoll s = Inl e \<Longrightarrow> parser_fault e" "atoll s = Inr i \<Longrightarrow> 0 \<le> i \<and> i \<le> llong_max"
  by (auto simp: atoll_def parser_fault_def in_llong_def split: if_splits)

lemma int_token_digits: "token_ok T_INT_LIT v \<Longrightarrow> c \<in> set v \<Longrightarrow> isdigit c"
  by (auto dest!: token_ok_cases dest: keyword_nonstring chartoken_nonstring
      simp: word_type_def split: option.splits)

lemma pok_int_digits:
  "pok p i \<Longrightarrow> lt_type (tok p i) = T_INT_LIT \<Longrightarrow> \<forall>c \<in> set (lt_value (tok p i)). isdigit c"
  using pok_token [of p i] int_token_digits by auto

lemma safe_primary:
  assumes "safe_from p (Suc k) pe"
  shows "safe_from p k (parser_parse_primary_expr pe)"
  unfolding parser_parse_primary_expr_def
  by (intro safe_fromI runs_sbind runs_parser_at runs_filename runs_if runs_ret_forward runs_sret
      runs_sassert runs_slift runs_token_name runs_parser_error runs_expect runs_safe [OF assms])
     (simp_all add: pok_int_digits atoll_faults)

lemma runs_call_follows:
  "pok p i \<Longrightarrow> (\<And>b. (b \<Longrightarrow> lt_type (tok p i) = T_IDENTIFIER) \<Longrightarrow> Q b i) \<Longrightarrow> runs p i call_follows Q"
  by (auto simp: call_follows_def runs_def sbind_def tok_at_def pok_def)

lemma safe_call:
  assumes "safe_from p (Suc k) pe"
  shows "safe_from p k (parser_parse_call_expr pe)"
proof (rule safe_fromI)
  fix i assume i: "k \<le> i" "pok p i"
  have arg: "runs p j (parse_argument pe args) (\<lambda>(go_on, y) m. j < m \<and> pok p m \<and> (\<forall>n \<in> set y. node_ok n))"
    if "pok p j" "i < j" "\<forall>n \<in> set args. node_ok n" for j args
    unfolding parse_argument_def
    by (intro runs_sbind runs_safe [OF assms] runs_at_type runs_if runs_expect runs_sret)
       (use that i in auto)
  show "runs p i (parser_parse_call_expr pe) (\<lambda>x j. i < j \<and> pok p j \<and> node_ok x)"
    unfolding parser_parse_call_expr_def
  proof (intro runs_sbind runs_call_follows runs_if runs_filename runs_parser_at runs_expect)
    fix b assume "\<not> b"
    show "runs p i (parser_parse_primary_expr pe) (\<lambda>x j. i < j \<and> pok p j \<and> node_ok x)"
      by (rule runs_safe [OF safe_primary [OF assms]]) (use i in auto)
  next
    assume p2: "pok p (Suc (Suc i))"
    show "runs p (Suc (Suc i)) (pwhile (not_eof_nor T_PAREN_CLOSE) (parse_argument pe) [])
       (\<lambda>args j. runs p j (sbind (parser_expect T_PAREN_CLOSE) (\<lambda>_. sbind parser_at (\<lambda>end_token.
          sret (NODE_EXPR_CALL (loc_between (ps_filename p) (tok p i) end_token) (lt_value (tok p i)) args))))
          (\<lambda>x j. i < j \<and> pok p j \<and> node_ok x))"
    proof (rule runs_pwhile [where I = "\<lambda>args. \<forall>n \<in> set args. node_ok n"])
      fix args j assume a: "pok p j" "Suc (Suc i) \<le> j" "\<forall>n \<in> set args. node_ok n"
      show "runs p j (not_eof_nor T_PAREN_CLOSE) (\<lambda>b m. m = j \<and> (b \<longrightarrow> runs p j (parse_argument pe args)
          (\<lambda>(go_on, y) m. j < m \<and> pok p m \<and> (\<forall>n \<in> set y. node_ok n))))"
        using a by (intro runs_not_eof_nor) (auto intro: arg)
      show "runs p j (sbind (parser_expect T_PAREN_CLOSE) (\<lambda>_. sbind parser_at (\<lambda>end_token.
          sret (NODE_EXPR_CALL (loc_between (ps_filename p) (tok p i) end_token) (lt_value (tok p i)) args))))
          (\<lambda>x j. i < j \<and> pok p j \<and> node_ok x)"
        using a by (intro runs_sbind runs_expect runs_parser_at runs_sret) auto
    qed (use p2 in auto)
  qed (use i in auto)
qed

lemma operator_characters:
  "list_all (\<lambda>(c, t). t = T_BINARY_OPERATOR \<longrightarrow> (case operator_of_string [c] of OP_RAW d \<Rightarrow> False | _ \<Rightarrow> True)) chartokens"
  "list_all (\<lambda>v. case operator_of_string v of OP_RAW d \<Rightarrow> False | _ \<Rightarrow> True) multichar_operators"
  "list_all (\<lambda>(w, t). t \<noteq> T_BINARY_OPERATOR) keywords_tbl"
  by code_simp+

lemma operator_not_raw: "token_ok T_BINARY_OPERATOR v \<Longrightarrow> operator_of_string v \<noteq> OP_RAW c"
  using operator_characters
  by (auto simp: list_all_iff word_type_def dest!: token_ok_cases map_of_SomeD split: option.splits)

lemma runs_operator_follows:
  "pok p i \<Longrightarrow> (\<And>b. (b \<Longrightarrow> lt_type (tok p i) = T_BINARY_OPERATOR) \<Longrightarrow> Q b i) \<Longrightarrow> runs p i (operator_follows P) Q"
  unfolding operator_follows_def by (intro runs_sbind runs_is_eof runs_if runs_sret runs_parser_at) auto

lemma runs_operator:
  "pok p i \<Longrightarrow> lt_type (tok p i) = T_BINARY_OPERATOR \<Longrightarrow>
   (\<And>op. pok p (Suc i) \<Longrightarrow> \<forall>c. op \<noteq> OP_RAW c \<Longrightarrow> Q op (Suc i)) \<Longrightarrow> runs p i parser_parse_binexp_operator Q"
  unfolding parser_parse_binexp_operator_def
  by (intro runs_sbind runs_expect runs_sret) (use pok_token [of p i] operator_not_raw in auto)

lemma safe_binexp:
  assumes "safe_from p k operand"
  shows "safe_from p k (sbind operand (\<lambda>left. pwhile (operator_follows P) (parse_operand operand) left))"
proof (rule safe_fromI)
  fix i assume i: "k \<le> i" "pok p i"
  have round: "runs p j (parse_operand operand left) (\<lambda>(go_on, y) m. j < m \<and> pok p m \<and> node_ok y)"
    if "pok p j" "i \<le> j" "node_ok left" "lt_type (tok p j) = T_BINARY_OPERATOR" for j left
    unfolding parse_operand_def parser_parse_binexp_inner_def
    by (intro runs_sbind runs_operator runs_safe [OF assms] runs_filename runs_sret) (use that i in auto)
  show "runs p i (sbind operand (\<lambda>left. pwhile (operator_follows P) (parse_operand operand) left))
      (\<lambda>x j. i < j \<and> pok p j \<and> node_ok x)"
    by (intro runs_sbind runs_safe [OF assms] runs_pwhile [where I = node_ok] runs_operator_follows)
       (use i in \<open>auto intro!: round\<close>)
qed

lemma safe_comparison:
  assumes "safe_from p (Suc k) pe"
  shows "safe_from p k (parser_parse_binexp_comparison pe)"
  unfolding parser_parse_binexp_comparison_def parser_parse_binexp_additive_def
    parser_parse_binexp_multiplicative_def
  by (intro safe_binexp safe_call assms)

lemma safe_array:
  assumes "safe_from p (Suc k) pe"
  shows "safe_from p k (parser_parse_array_lit pe)"
proof (rule safe_fromI)
  fix i assume i: "k \<le> i" "pok p i"
  have round: "runs p j (parse_element pe es) (\<lambda>(go_on, y) m. j < m \<and> pok p m \<and> (\<forall>n \<in> set y. node_ok n))"
    if "pok p j" "i < j" "\<forall>n \<in> set es. node_ok n" for j es
    unfolding parse_element_def
    by (intro runs_sbind runs_safe [OF assms] runs_at_type runs_if runs_expect runs_sret) (use that i in auto)
  show "runs p i (parser_parse_array_lit pe) (\<lambda>x j. i < j \<and> pok p j \<and> node_ok x)"
    unfolding parser_parse_array_lit_def
    by (intro runs_sbind runs_at_type runs_if runs_expect runs_sret runs_not_eof_nor
        runs_pwhile [where I = "\<lambda>es. \<forall>n \<in> set es. node_ok n"] runs_safe [OF safe_comparison [OF assms]])
       (use i in \<open>auto intro!: round\<close>)
qed

lemma runs_assignment_follows:
  "pok p i \<Longrightarrow> (\<And>b. Q b i) \<Longrightarrow> runs p i assignment_follows Q"
  unfolding assignment_follows_def
  by (intro runs_sbind runs_is_eof runs_if runs_sret)
     (auto simp: runs_def sbind_def tok_at_def pok_def)

lemma safe_assignment:
  assumes "safe_from p (Suc k) pe"
  shows "safe_from p k (parser_parse_assignment_expr pe)"
  unfolding parser_parse_assignment_expr_def
  by (intro safe_fromI runs_sbind runs_assignment_follows runs_if runs_expect runs_filename runs_parser_at
      runs_sret runs_safe [OF assms] runs_safe [OF safe_array [OF assms]]) auto

lemma safe_expr: "safe_from p (ps_token_count p - n) (parser_parse_expr n)"
proof (induction n)
  case 0
  show ?case by (rule safe_fromI) (simp add: pok_def)
next
  case (Suc n)
  show ?case unfolding parser_parse_expr.simps
    by (intro safe_assignment safe_mono [OF Suc.IH]) simp
qed

section \<open>Statements and programs\<close>

lemma safe_var_decl:
  assumes "safe_from p (Suc k) pe" and "k \<le> i" "pok p i" "lt_type (tok p i) \<in> {T_VAR, T_CONST}"
  shows "runs p i (parser_parse_var_decl pe) (\<lambda>x j. i < j \<and> pok p j \<and> node_ok x)"
  unfolding parser_parse_var_decl_def Let_def
  by (intro runs_sbind runs_at_type runs_sassert runs_ret_forward runs_expect runs_filename runs_if
      runs_parser_at runs_parser_error runs_sret runs_safe [OF assms(1)])
     (use assms(2,3,4) in auto)

lemma runs_children:
  assumes "safe_from p k ps" and "k \<le> i" "pok p i"
    and "\<And>x j. pok p j \<Longrightarrow> i \<le> j \<Longrightarrow> \<forall>n \<in> set x. node_ok n \<Longrightarrow> Q x j"
    and "\<And>j R. pok p j \<Longrightarrow> (\<And>b. R b j) \<Longrightarrow> runs p j test R"
  shows "runs p i (pwhile test (parse_child ps) []) Q"
proof (rule runs_pwhile [where I = "\<lambda>ns. \<forall>n \<in> set ns. node_ok n"])
  fix ns j assume a: "pok p j" "i \<le> j" "\<forall>n \<in> set ns. node_ok n"
  have "runs p j (parse_child ps ns) (\<lambda>(go_on, y) k. j < k \<and> pok p k \<and> (\<forall>n \<in> set y. node_ok n))"
    unfolding parse_child_def
    by (intro runs_sbind runs_safe [OF assms(1)] runs_sret) (use a assms(2) in auto)
  with a assms(5) show "runs p j test (\<lambda>b k. k = j \<and> (b \<longrightarrow>
      runs p j (parse_child ps ns) (\<lambda>(go_on, y) k. j < k \<and> pok p k \<and> (\<forall>n \<in> set y. node_ok n))))"
    by auto
qed (use assms in auto)

lemma safe_fn_decl:
  assumes "safe_from p (Suc k) ps" and "k \<le> i" "pok p i"
  shows "runs p i (parser_parse_fn_decl ps) (\<lambda>x j. i < j \<and> pok p j \<and> node_ok x)"
proof -
  have round: "runs p j (parse_parameter params) (\<lambda>(go_on, y) m. j < m \<and> pok p m \<and> True)"
    if "pok p j" for j params
    unfolding parse_parameter_def
    by (intro runs_sbind runs_expect runs_at_type runs_if runs_sret) (use that in auto)
  show ?thesis unfolding parser_parse_fn_decl_def
    by (intro runs_sbind runs_expect runs_filename runs_sret runs_not_eof_nor
        runs_pwhile [where I = "\<lambda>_. True" and body = parse_parameter] runs_children [OF assms(1)])
       (use assms(2,3) round in auto)
qed

lemma safe_block:
  assumes "safe_from p (Suc k) ps" and "k \<le> i" "pok p i"
  shows "runs p i (parser_parse_block ps) (\<lambda>x j. i < j \<and> pok p j \<and> node_ok x)"
  unfolding parser_parse_block_def
  by (intro runs_sbind runs_expect runs_children [OF assms(1)] runs_not_eof_nor runs_sret)
     (use assms(2,3) in auto)

lemma safe_if:
  assumes "safe_from p (Suc k) pe" "safe_from p (Suc k) ps" and "k \<le> i" "pok p i"
  shows "runs p i (parser_parse_if pe ps) (\<lambda>x j. i < j \<and> pok p j \<and> node_ok x)"
  unfolding parser_parse_if_def
  by (intro runs_sbind runs_expect runs_safe [OF assms(1)] runs_safe [OF assms(2)] runs_at_type runs_if runs_sret)
     (use assms(3,4) in auto)

lemma runs_init_node: "pok p i \<Longrightarrow> (\<And>l. Q l i) \<Longrightarrow> runs p i init_node Q"
  unfolding init_node_def by (intro runs_sbind runs_parser_at runs_filename runs_sret) auto

lemma runs_case_pair [intro]: "runs p i (f (fst x) (snd x)) Q \<Longrightarrow> runs p i (case x of (a, b) \<Rightarrow> f a b) Q"
  by (cases x) simp

lemma safe_loop:
  assumes "safe_from p (Suc k) pe" "safe_from p (Suc k) ps" and "k \<le> i" "pok p i"
  shows "runs p i (parser_parse_loop_stmt pe ps) (\<lambda>x j. i < j \<and> pok p j \<and> node_ok x)"
  unfolding parser_parse_loop_stmt_def
  by (intro runs_sbind runs_init_node runs_expect runs_at_type runs_if runs_safe [OF assms(1)]
      runs_safe [OF assms(2)] runs_sret runs_case_pair runs_parser_at)
     (use assms(3,4) in auto)

lemma runs_semicolons:
  assumes "pok p i" and "\<And>j. pok p j \<Longrightarrow> i \<le> j \<Longrightarrow> Q () j"
  shows "runs p i (pwhile at_semicolon skip_semicolon ()) Q"
  by (rule runs_pwhile [where I = "\<lambda>_. True"])
     (use assms in \<open>auto simp: at_semicolon_def skip_semicolon_def intro!: runs_sbind runs_at_type runs_sret runs_ret_forward\<close>)

lemma safe_stmt_body:
  assumes "safe_from p k pe" "safe_from p (Suc k) ps"
  shows "safe_from p k (parser_parse_stmt_body pe ps)"
proof (rule safe_fromI)
  fix i assume i: "k \<le> i" "pok p i"
  note pe = safe_mono [OF assms(1), of "Suc k"]
  let ?R = "\<lambda>x j. i < j \<and> pok p j \<and> node_ok x"
  have rest: "runs p j (sbind (if b then sbind (parser_expect T_SEMICOLON) (\<lambda>_. sret ()) else sret ())
      (\<lambda>_. sbind (pwhile at_semicolon skip_semicolon ()) (\<lambda>_. sret n))) ?R"
    if "i < j" "pok p j" "node_ok n" for j n and b :: bool
    by (intro runs_sbind runs_if runs_expect runs_sret runs_semicolons) (use that in auto)
  have pair: "runs p i (sbind m (\<lambda>n. sret (n, b))) (\<lambda>x j. runs p j (case x of (stmt, semicolon_is_expected) \<Rightarrow>
      sbind (if semicolon_is_expected then sbind (parser_expect T_SEMICOLON) (\<lambda>_. sret ()) else sret ())
      (\<lambda>_. sbind (pwhile at_semicolon skip_semicolon ()) (\<lambda>_. sret stmt))) ?R)"
    if "runs p i m ?R" for m and b :: bool
    by (intro runs_sbind runs_mono [OF that] runs_sret) (use rest in auto)
  show "runs p i (parser_parse_stmt_body pe ps) ?R"
    unfolding parser_parse_stmt_body_def
    by (intro runs_sbind runs_at_type runs_if pair safe_var_decl [OF pe] safe_fn_decl [OF assms(2)]
        safe_block [OF assms(2)] safe_if [OF pe assms(2)] safe_loop [OF pe assms(2)] runs_safe [OF assms(1)])
       (use i in auto)
qed

lemma safe_stmt: "safe_from p (ps_token_count p - n) (parser_parse_stmt n)"
proof (induction n)
  case 0
  show ?case by (rule safe_fromI) (simp add: pok_def)
next
  case (Suc n)
  show ?case unfolding parser_parse_stmt.simps
    by (intro safe_stmt_body safe_expr safe_mono [OF Suc.IH]) simp
qed

lemma runs_create_ast_node:
  assumes "pok p 0"
  shows "runs p 0 parser_create_ast_node
     (\<lambda>x j. \<exists>l nodes. x = NODE_ROOT l nodes \<and> (\<forall>n \<in> set nodes. node_ok n) \<and> pok p j)"
proof -
  let ?Q = "\<lambda>x j. \<exists>l nodes. x = NODE_ROOT l nodes \<and> (\<forall>n \<in> set nodes. node_ok n) \<and> pok p j"
  have "runs p 0 (sbind (pwhile not_eof (parse_child (parser_parse_stmt (Suc (ps_token_count p)))) [])
      (\<lambda>nodes. sbind (sget ps_filename) (\<lambda>f. sret (NODE_ROOT (root_loc f) nodes)))) ?Q"
  proof (intro runs_sbind runs_children runs_filename runs_sret)
    show "safe_from p 0 (parser_parse_stmt (Suc (ps_token_count p)))"
      using safe_stmt [of p "Suc (ps_token_count p)"] by simp
  next
    fix j and R :: "bool \<Rightarrow> nat \<Rightarrow> bool" assume "pok p j" "\<And>b. R b j"
    then show "runs p j not_eof R"
      unfolding not_eof_def by (intro runs_sbind runs_is_eof runs_sret) auto
  qed (use assms in auto)
  then show ?thesis
    by (simp add: parser_create_ast_node_def runs_def sbind_def token_rounds_def)
qed

text \<open>The loop over the program ends at the end-of-file token only.\<close>

lemma swhile_exit:
  assumes "\<And>x s g y t. body x s = Inr ((g, y), t) \<Longrightarrow> g"
  shows "swhile n test body x s = Inr (y, t) \<Longrightarrow> \<exists>s'. test s' = Inr (False, t)"
proof (induction n arbitrary: x s)
  case (Suc n)
  then show ?case by (auto simp: sbind_eq_Inr dest: assms split: if_splits)
qed simp

lemma at_eof_after_root:
  assumes "parser_create_ast_node p = Inr (n, p\<lparr> ps_index := j \<rparr>)" and "pok p j"
  shows "Suc j = ps_token_count p"
proof -
  obtain fuel x nodes s where "swhile fuel not_eof (parse_child s) x p = Inr (nodes, p\<lparr> ps_index := j \<rparr>)"
    using assms(1) by (auto simp: parser_create_ast_node_def pwhile_def sbind_eq_Inr)
  then obtain q where "not_eof q = Inr (False, p\<lparr> ps_index := j \<rparr>)"
    using swhile_exit [of "parse_child s" fuel not_eof x p nodes "p\<lparr> ps_index := j \<rparr>"]
    by (auto simp: parse_child_def sbind_eq_Inr)
  then have "lt_type (tok p j) = T_EOF" using assms(2)
    by (auto simp: not_eof_def parser_is_eof_def at_type_def parser_at_def tok_at_def sbind_eq_Inr pok_def
        sassert_eq_Inr split: if_splits)
  then show ?thesis using assms(2) tokens_ok_eof [of "ps_tokens p" j] by (simp add: pok_def)
qed

lemma create_ast_node_result:
  assumes "pok p 0" and "ps_index p = 0"
  shows "case parser_create_ast_node p of
           Inr (node, p') \<Rightarrow> p' = p\<lparr> ps_index := ps_token_count p - 1 \<rparr>
             \<and> (\<exists>l nodes. node = NODE_ROOT l nodes \<and> (\<forall>n \<in> set nodes. node_ok n))
         | Inl e \<Rightarrow> parser_fault e"
proof -
  have p0: "p\<lparr> ps_index := 0 \<rparr> = p" using assms(2) by simp
  note r = runs_create_ast_node [OF assms(1), unfolded runs_def p0]
  show ?thesis
  proof (cases "parser_create_ast_node p")
    case (Inl e)
    with r show ?thesis by simp
  next
    case (Inr y)
    obtain node p' where y: "y = (node, p')" by (cases y)
    with r Inr obtain j where j: "p' = p\<lparr> ps_index := j \<rparr>" "pok p j"
      and n: "\<exists>l nodes. node = NODE_ROOT l nodes \<and> (\<forall>n \<in> set nodes. node_ok n)" by auto
    have "Suc j = ps_token_count p" using Inr y j by (intro at_eof_after_root) simp_all
    then have "j = ps_token_count p - 1" by simp
    with Inr y j n show ?thesis by simp
  qed
qed

lemma lex_spec_fault: "lex_spec cs p = Inl e \<Longrightarrow>
    e = Assertion_failed no_character \<or> (\<exists>m. e = Syntax_error m) \<or> (\<exists>a b m. e = Syntax_error_at a b m)"
proof (induction "length cs" arbitrary: cs p rule: less_induct)
  case less
  show ?case
  proof (cases "cs = []")
    case False
    note b = next_lexeme_length [OF False]
    show ?thesis
    proof (cases "next_lexeme cs")
      case (Skipped n)
      with less.prems False have "lex_spec (drop n cs) (pos_after (take n cs) p) = Inl e"
        by (simp add: lex_spec.simps [of cs])
      then show ?thesis using b Skipped False by (intro less.hyps [of "drop n cs"]) auto
    next
      case (Token t v n)
      with less.prems False have "lex_spec (drop n cs) (pos_after (take n cs) p) = Inl e"
        by (simp add: lex_spec.simps [of cs] Let_def rbind_eq_Inl)
      then show ?thesis using b Token False by (intro less.hyps [of "drop n cs"]) auto
    qed (use less.prems False in \<open>auto simp: lex_spec.simps [of cs]\<close>)
  qed (use less.prems in \<open>simp add: lex_spec.simps [of "[]"]\<close>)
qed

section \<open>Properties\<close>



definition source_fault :: "fault \<Rightarrow> bool" where
  "source_fault e \<longleftrightarrow> parser_fault e \<or> e = Assertion_failed no_character
     \<or> (\<exists>m. e = Syntax_error m) \<or> (\<exists>a b m. e = Syntax_error_at a b m)"


end
