(* ===== verification/Parser_Roundtrip.thy ===== *)
theory Parser_Roundtrip
  imports Parser_Correct
begin

text \<open>
  What the parser accepts and what it means: a tree printed as source text, with only the
  parentheses that precedence and associativity require, is read back as the same tree, source
  locations aside.
\<close>

section \<open>Printing\<close>

type_synonym ktok = "lex_token_type \<times> string"

fun op_text :: "ast_bin_operator \<Rightarrow> string" where
  "op_text OP_PLUS = ''+''" | "op_text OP_MINUS = ''-''" | "op_text OP_DIVIDE = ''/''"
| "op_text OP_TIMES = ''*''" | "op_text OP_MODULUS = ''%''" | "op_text OP_CMP_LT = ''<''"
| "op_text OP_CMP_GT = ''>''" | "op_text OP_CMP_GE = ''>=''" | "op_text OP_CMP_LE = ''<=''"
| "op_text OP_CMP_EQ = ''==''" | "op_text OP_CMP_EQ_S = ''===''" | "op_text OP_CMP_NE = ''!=''"
| "op_text OP_CMP_NE_S = ''!==''" | "op_text (OP_RAW c) = [c]"

text \<open>
  The levels of the grammar: 0 an expression, 1 a comparison, 2 a sum, 3 a product, 4 a call or
  a primary expression.
\<close>

fun op_level :: "ast_bin_operator \<Rightarrow> nat" where
  "op_level OP_TIMES = 3" | "op_level OP_DIVIDE = 3" | "op_level OP_MODULUS = 3"
| "op_level OP_PLUS = 2" | "op_level OP_MINUS = 2"
| "op_level _ = 1"

definition paren :: "bool \<Rightarrow> ktok list \<Rightarrow> ktok list" where
  "paren b ks = (if b then [(T_PAREN_OPEN, ''('')] @ ks @ [(T_PAREN_CLOSE, '')'')] else ks)"

fun commas :: "ktok list list \<Rightarrow> ktok list" where
  "commas [] = []"
| "commas [ks] = ks"
| "commas (ks # kss) = ks @ [(T_COMMA, '','')] @ commas kss"

fun pr :: "nat \<Rightarrow> ast_node \<Rightarrow> ktok list" where
  "pr lv (NODE_INT_LIT l i) = [(T_INT_LIT, digits 10 (nat i))]"
| "pr lv (NODE_IDENTIFIER l s) = [(T_IDENTIFIER, s)]"
| "pr lv (NODE_STRING l s) = [(T_STRING, s)]"
| "pr lv (NODE_BINARY_EXPR l op a b) =
     paren (op_level op < lv) (pr (op_level op) a @ [(T_BINARY_OPERATOR, op_text op)] @ pr (Suc (op_level op)) b)"
| "pr lv (NODE_EXPR_CALL l f args) =
     [(T_IDENTIFIER, f), (T_PAREN_OPEN, ''('')] @ commas (map (pr 0) args) @ [(T_PAREN_CLOSE, '')'')]"
| "pr lv (NODE_ARRAY_LIT l es) =
     paren (0 < lv) ([(T_ARRAY, ''array''), (T_SQUARE_BRACE_OPEN, ''['')] @ commas (map (pr 0) es)
       @ [(T_SQUARE_BRACE_CLOSE, '']'')])"
| "pr lv (NODE_ASSIGNMENT l (NODE_IDENTIFIER l' s) v) =
     paren (0 < lv) ([(T_IDENTIFIER, s), (T_ASSIGNMENT, ''='')] @ pr 0 v)"
| "pr lv _ = []"

fun expr_ok :: "ast_node \<Rightarrow> bool" where
  "expr_ok (NODE_INT_LIT l i) = (0 \<le> i \<and> i \<le> llong_max)"
| "expr_ok (NODE_IDENTIFIER l s) = True"
| "expr_ok (NODE_STRING l s) = True"
| "expr_ok (NODE_BINARY_EXPR l op a b) = ((\<forall>c. op \<noteq> OP_RAW c) \<and> expr_ok a \<and> expr_ok b)"
| "expr_ok (NODE_EXPR_CALL l f args) = (\<forall>n \<in> set args. expr_ok n)"
| "expr_ok (NODE_ARRAY_LIT l es) = (\<forall>n \<in> set es. expr_ok n)"
| "expr_ok (NODE_ASSIGNMENT l (NODE_IDENTIFIER l' s) v) = expr_ok v"
| "expr_ok _ = False"

fun erase :: "ast_node \<Rightarrow> ast_node" where
  "erase (NODE_ROOT l ns) = NODE_ROOT no_loc (map erase ns)"
| "erase (NODE_INT_LIT l i) = NODE_INT_LIT no_loc i"
| "erase (NODE_BINARY_EXPR l op a b) = NODE_BINARY_EXPR no_loc op (erase a) (erase b)"
| "erase (NODE_IDENTIFIER l s) = NODE_IDENTIFIER no_loc s"
| "erase (NODE_STRING l s) = NODE_STRING no_loc s"
| "erase (NODE_VAR_DECL l s c v) = NODE_VAR_DECL no_loc s c (map_option erase v)"
| "erase (NODE_ASSIGNMENT l a v) = NODE_ASSIGNMENT no_loc (erase a) (erase v)"
| "erase (NODE_EXPR_CALL l f args) = NODE_EXPR_CALL no_loc f (map erase args)"
| "erase (NODE_FN_DECL l f ps b) = NODE_FN_DECL no_loc f ps (map erase b)"
| "erase (NODE_ARRAY_LIT l es) = NODE_ARRAY_LIT no_loc (map erase es)"
| "erase (NODE_IMPORT_STMT l) = NODE_IMPORT_STMT no_loc"
| "erase (NODE_BLOCK l ns) = NODE_BLOCK no_loc (map erase ns)"
| "erase (NODE_IF_STMT l c t e) = NODE_IF_STMT no_loc (erase c) (erase t) (map_option erase e)"
| "erase (NODE_LOOP_STMT l n v b) = NODE_LOOP_STMT no_loc (map_option erase n) v (erase b)"

section \<open>Runs that succeed\<close>

definition gets :: "parser \<Rightarrow> nat \<Rightarrow> (parser, 'a) st \<Rightarrow> ('a \<Rightarrow> nat \<Rightarrow> bool) \<Rightarrow> bool" where
  "gets p i m Q \<longleftrightarrow> (\<exists>x j. m (p\<lparr> ps_index := i \<rparr>) = Inr (x, p\<lparr> ps_index := j \<rparr>) \<and> Q x j)"

lemma gets_sret: "Q x i \<Longrightarrow> gets p i (sret x) Q"
  by (auto simp: gets_def)

lemma gets_sbind: "gets p i m (\<lambda>x j. gets p j (f x) Q) \<Longrightarrow> gets p i (sbind m f) Q"
  by (auto simp: gets_def sbind_def)

lemma gets_mono: "gets p i m P \<Longrightarrow> (\<And>x j. P x j \<Longrightarrow> Q x j) \<Longrightarrow> gets p i m Q"
  by (auto simp: gets_def)

lemma gets_sget: "Q (g (p\<lparr> ps_index := i \<rparr>)) i \<Longrightarrow> gets p i (sget g) Q"
  by (auto simp: gets_def)

lemma gets_tok_at: "k < length (ps_tokens p) \<Longrightarrow> Q (tok p k) i \<Longrightarrow> gets p i (tok_at k) Q"
  by (auto simp: gets_def tok_at_def)

lemma gets_if: "(b \<Longrightarrow> gets p i m Q) \<Longrightarrow> (\<not> b \<Longrightarrow> gets p i n Q) \<Longrightarrow> gets p i (if b then m else n) Q"
  by simp

lemma gets_slift: "Q x i \<Longrightarrow> gets p i (slift (Inr x)) Q"
  by (auto simp: gets_def)

lemma gets_filename: "Q (ps_filename p) i \<Longrightarrow> gets p i (sget ps_filename) Q"
  by (auto simp: gets_def)

lemma gets_parser_at: "pok p i \<Longrightarrow> Q (tok p i) i \<Longrightarrow> gets p i parser_at Q"
  by (auto simp: gets_def parser_at_def sbind_def tok_at_def pok_def)

lemma gets_at_type: "pok p i \<Longrightarrow> Q (lt_type (tok p i)) i \<Longrightarrow> gets p i at_type Q"
  unfolding at_type_def by (intro gets_sbind gets_parser_at gets_sret)

lemma gets_is_eof: "pok p i \<Longrightarrow> Q (lt_type (tok p i) = T_EOF) i \<Longrightarrow> gets p i parser_is_eof Q"
  unfolding parser_is_eof_def
  by (rule gets_sbind) (auto simp: gets_def pok_def at_type_def parser_at_def sbind_def tok_at_def)

lemma gets_ret_forward:
  "pok p i \<Longrightarrow> Q (tok p i) (Suc i) \<Longrightarrow> gets p i parser_ret_forward Q"
  by (auto simp: gets_def parser_ret_forward_def sbind_def tok_at_def pok_def)

lemma gets_expect:
  "pok p i \<Longrightarrow> lt_type (tok p i) = type \<Longrightarrow> type \<noteq> T_EOF \<Longrightarrow> Q (tok p i) (Suc i) \<Longrightarrow> gets p i (parser_expect type) Q"
  by (auto simp: gets_def parser_expect_def parser_is_eof_def at_type_def parser_at_def sbind_def tok_at_def pok_def)

lemma gets_not_eof_nor:
  "pok p i \<Longrightarrow> Q (lt_type (tok p i) \<noteq> T_EOF \<and> lt_type (tok p i) \<noteq> type) i \<Longrightarrow> gets p i (not_eof_nor type) Q"
  unfolding not_eof_nor_def
  by (intro gets_sbind gets_is_eof) (auto intro!: gets_sret gets_sbind gets_at_type)

text \<open>One round of a loop; the fuel of the rest is enough.\<close>

lemma swhile_more: "swhile n test body x s = Inr r \<Longrightarrow> n \<le> m \<Longrightarrow> swhile m test body x s = Inr r"
proof (induction n arbitrary: m x s)
  case (Suc n)
  obtain k where m: "m = Suc k" "n \<le> k" using Suc.prems(2) by (cases m) auto
  from Suc.prems(1) obtain t s1 where t: "test s = Inr (t, s1)"
    by (cases "test s") (auto simp: sbind_def)
  show ?case
  proof (cases t)
    case True
    with Suc.prems(1) t obtain g y s2 where b: "body x s1 = Inr ((g, y), s2)"
      and r: "(if g then swhile n test body y else sret y) s2 = Inr r"
      by (cases r) (auto simp: sbind_eq_Inr)
    with Suc.IH [of y s2 k] m have "(if g then swhile k test body y else sret y) s2 = Inr r"
      by (auto split: if_splits)
    with t True b m show ?thesis by (simp add: sbind_step)
  next
    case False
    with Suc.prems(1) t m show ?thesis by (simp add: sbind_step)
  qed
qed simp

lemma gets_pwhile_step:
  assumes "gets p i test (\<lambda>b k. b \<and> k = i)"
    and "gets p i (body x) (\<lambda>(go_on, y) j. go_on \<and> i < j \<and> j \<le> ps_token_count p \<and> gets p j (pwhile test body y) Q)"
  shows "gets p i (pwhile test body x) Q"
proof -
  have t: "test (p\<lparr> ps_index := i \<rparr>) = Inr (True, p\<lparr> ps_index := i \<rparr>)"
    using assms(1) by (auto simp: gets_def)
  obtain y j where b: "body x (p\<lparr> ps_index := i \<rparr>) = Inr ((True, y), p\<lparr> ps_index := j \<rparr>)" and j: "i < j" "j \<le> ps_token_count p"
    and w: "gets p j (pwhile test body y) Q"
    using assms(2) by (auto simp: gets_def [of p i "body x"])
  from w obtain z k where
    w': "swhile (Suc (ps_token_count p - j)) test body y (p\<lparr> ps_index := j \<rparr>) = Inr (z, p\<lparr> ps_index := k \<rparr>)" "Q z k"
    by (auto simp: gets_def pwhile_def sbind_def token_rounds_def simp del: swhile.simps)
  have "swhile (ps_token_count p - i) test body y (p\<lparr> ps_index := j \<rparr>) = Inr (z, p\<lparr> ps_index := k \<rparr>)"
    using j by (intro swhile_more [OF w'(1)]) simp
  then have "swhile (Suc (ps_token_count p - i)) test body x (p\<lparr> ps_index := i \<rparr>) = Inr (z, p\<lparr> ps_index := k \<rparr>)"
    using t b by (simp add: sbind_step)
  with w'(2) show ?thesis
    by (auto simp: gets_def pwhile_def sbind_def token_rounds_def simp del: swhile.simps)
qed

lemma gets_pwhile_stop:
  assumes "gets p i test (\<lambda>b k. \<not> b \<and> k = i)" and "Q x i"
  shows "gets p i (pwhile test body x) Q"
  using assms by (auto simp: gets_def pwhile_def sbind_def token_rounds_def)

lemma gets_pwhile_break:
  assumes "gets p i test (\<lambda>b k. b \<and> k = i)" and "gets p i (body x) (\<lambda>(go_on, y) j. \<not> go_on \<and> Q y j)"
  shows "gets p i (pwhile test body x) Q"
  using assms by (auto simp: gets_def pwhile_def sbind_def token_rounds_def)

section \<open>Expressions\<close>

fun toks_at :: "parser \<Rightarrow> nat \<Rightarrow> ktok list \<Rightarrow> bool" where
  "toks_at p i [] = True"
| "toks_at p i ((t, v) # ks) =
     (lt_type (tok p i) = t \<and> lt_value (tok p i) = v \<and> toks_at p (Suc i) ks)"

lemma toks_at_append [simp]: "toks_at p i (xs @ ys) \<longleftrightarrow> toks_at p i xs \<and> toks_at p (i + length xs) ys"
  by (induction p i xs rule: toks_at.induct) auto

lemma pok_le: "pok p j \<Longrightarrow> i \<le> j \<Longrightarrow> pok p i"
  by (simp add: pok_def)

text \<open>A token that does not continue an expression of a level.\<close>

definition stops :: "nat \<Rightarrow> lex_token \<Rightarrow> bool" where
  "stops lv t \<longleftrightarrow> lt_type t \<noteq> T_PAREN_OPEN \<and> (lv = 0 \<longrightarrow> lt_type t \<noteq> T_ASSIGNMENT)
     \<and> (lt_type t = T_BINARY_OPERATOR \<longrightarrow> (\<exists>op. (\<forall>c. op \<noteq> OP_RAW c) \<and> lt_value t = op_text op \<and> op_level op < lv))"

fun plevel :: "nat \<Rightarrow> (parser, ast_node) st \<Rightarrow> (parser, ast_node) st" where
  "plevel 0 pe = parser_parse_assignment_expr pe"
| "plevel (Suc 0) pe = parser_parse_binexp_comparison pe"
| "plevel (Suc (Suc 0)) pe = parser_parse_binexp_additive pe"
| "plevel (Suc (Suc (Suc 0))) pe = parser_parse_binexp_multiplicative pe"
| "plevel (Suc (Suc (Suc (Suc n)))) pe = parser_parse_call_expr pe"

fun level_test :: "nat \<Rightarrow> string \<Rightarrow> bool" where
  "level_test (Suc 0) = is_comparison"
| "level_test (Suc (Suc 0)) = is_additive"
| "level_test _ = is_multiplicative"

lemma plevel_loop:
  "1 \<le> k \<Longrightarrow> k \<le> 3 \<Longrightarrow> plevel k pe = sbind (plevel (Suc k) pe) (\<lambda>left.
     pwhile (operator_follows (level_test k)) (parse_operand (plevel (Suc k) pe)) left)"
proof -
  assume "1 \<le> k" "k \<le> 3"
  then have "k = Suc 0 \<or> k = Suc (Suc 0) \<or> k = Suc (Suc (Suc 0))" by linarith
  then show ?thesis
    by (elim disjE) (simp_all add: parser_parse_binexp_comparison_def parser_parse_binexp_additive_def
        parser_parse_binexp_multiplicative_def)
qed

lemma op_level_range: "1 \<le> op_level op \<and> op_level op \<le> 3"
  by (cases op) simp_all

lemma level_test_op: "(\<forall>c. op \<noteq> OP_RAW c) \<Longrightarrow> 1 \<le> k \<Longrightarrow> k \<le> 3 \<Longrightarrow> level_test k (op_text op) \<longleftrightarrow> op_level op = k"
proof -
  assume "\<forall>c. op \<noteq> OP_RAW c" "1 \<le> k" "k \<le> 3"
  then have "k = Suc 0 \<or> k = Suc (Suc 0) \<or> k = Suc (Suc (Suc 0))" by linarith
  then show ?thesis using \<open>\<forall>c. op \<noteq> OP_RAW c\<close>
    by (elim disjE; cases op) (simp_all add: is_comparison_def is_additive_def is_multiplicative_def c_hd_def)
qed

lemma operator_of_text: "(\<forall>c. op \<noteq> OP_RAW c) \<Longrightarrow> operator_of_string (op_text op) = op"
  by (cases op) (simp_all add: operator_of_string_def operator_of_char_def c_hd_def)

text \<open>
  The parser of level \<open>lv\<close>, started where \<open>e\<close> is printed at that level and followed by a
  token that does not continue it, returns \<open>e\<close>.
\<close>

definition reads :: "nat \<Rightarrow> ast_node \<Rightarrow> bool" where
  "reads lv e \<longleftrightarrow> (\<forall>p i m. ps_token_count p - i \<le> Suc m \<longrightarrow> toks_at p i (pr lv e)
     \<longrightarrow> pok p (i + length (pr lv e)) \<longrightarrow> stops lv (tok p (i + length (pr lv e)))
     \<longrightarrow> gets p i (plevel lv (parser_parse_expr m)) (\<lambda>x j. j = i + length (pr lv e) \<and> erase x = erase e))"

lemma readsD:
  "reads lv e \<Longrightarrow> ps_token_count p - i \<le> Suc m \<Longrightarrow> toks_at p i (pr lv e) \<Longrightarrow> pok p (i + length (pr lv e)) \<Longrightarrow>
   stops lv (tok p (i + length (pr lv e))) \<Longrightarrow> (\<And>x. erase x = erase e \<Longrightarrow> Q x (i + length (pr lv e))) \<Longrightarrow>
   gets p i (plevel lv (parser_parse_expr m)) Q"
  unfolding reads_def by (rule gets_mono [of p i _ "\<lambda>x j. j = i + length (pr lv e) \<and> erase x = erase e"]) auto

lemma readsI:
  "(\<And>p i m. ps_token_count p - i \<le> Suc m \<Longrightarrow> toks_at p i (pr lv e) \<Longrightarrow> pok p (i + length (pr lv e)) \<Longrightarrow>
     stops lv (tok p (i + length (pr lv e))) \<Longrightarrow>
     gets p i (plevel lv (parser_parse_expr m)) (\<lambda>x j. j = i + length (pr lv e) \<and> erase x = erase e))
   \<Longrightarrow> reads lv e"
  unfolding reads_def by blast

text \<open>As an argument of the closed recursion, at level 0.\<close>

lemma gets_expr:
  assumes "reads 0 e" and "ps_token_count p - i \<le> m" "toks_at p i (pr 0 e)" "pok p (i + length (pr 0 e))"
    and "stops 0 (tok p (i + length (pr 0 e)))" and "\<And>x. erase x = erase e \<Longrightarrow> Q x (i + length (pr 0 e))"
  shows "gets p i (parser_parse_expr m) Q"
proof -
  have "pok p i" using assms(4) by (rule pok_le) simp
  then obtain k where m: "m = Suc k" using assms(2) by (cases m) (auto simp: pok_def)
  have "gets p i (plevel 0 (parser_parse_expr k)) (\<lambda>x j. j = i + length (pr 0 e) \<and> erase x = erase e)"
    using assms(1-5) m unfolding reads_def by auto
  then show ?thesis using assms(6) by (auto simp: m elim!: gets_mono)
qed

text \<open>
  Inside the operator loop of level \<open>k\<close>: what is printed at that level has been read and the
  loop goes on with it as the left operand.
\<close>

definition op_loop :: "nat \<Rightarrow> nat \<Rightarrow> ast_node \<Rightarrow> (parser, ast_node) st" where
  "op_loop k m = pwhile (operator_follows (level_test k)) (parse_operand (plevel (Suc k) (parser_parse_expr m)))"

definition left_chain :: "nat \<Rightarrow> ast_node \<Rightarrow> bool" where
  "left_chain k e \<longleftrightarrow> (\<forall>p i m Q. ps_token_count p - i \<le> Suc m \<longrightarrow> toks_at p i (pr k e)
     \<longrightarrow> pok p (i + length (pr k e)) \<longrightarrow> stops (Suc k) (tok p (i + length (pr k e)))
     \<longrightarrow> (\<forall>x. erase x = erase e \<longrightarrow> gets p (i + length (pr k e)) (op_loop k m x) Q)
     \<longrightarrow> gets p i (plevel k (parser_parse_expr m)) Q)"

lemma plevel_op_loop:
  "1 \<le> k \<Longrightarrow> k \<le> 3 \<Longrightarrow> plevel k (parser_parse_expr m) = sbind (plevel (Suc k) (parser_parse_expr m)) (op_loop k m)"
  by (simp add: plevel_loop [of k] op_loop_def)

lemma gets_operator_follows:
  "pok p i \<Longrightarrow> Q (lt_type (tok p i) = T_BINARY_OPERATOR \<and> P (lt_value (tok p i))) i \<Longrightarrow> gets p i (operator_follows P) Q"
  unfolding operator_follows_def
  by (intro gets_sbind gets_is_eof) (auto intro!: gets_sret gets_sbind gets_parser_at)

lemma stops_Suc: "stops k t \<Longrightarrow> 1 \<le> k \<Longrightarrow> stops (Suc k) t"
  by (auto simp: stops_def intro: less_SucI)

lemma chains_same:
  assumes "reads (Suc k) e" and "1 \<le> k" "k \<le> 3" and "pr k e = pr (Suc k) e"
  shows "left_chain k e"
  unfolding left_chain_def
proof (intro allI impI)
  fix p i m and Q :: "ast_node \<Rightarrow> nat \<Rightarrow> bool"
  assume a: "ps_token_count p - i \<le> Suc m" "toks_at p i (pr k e)" "pok p (i + length (pr k e))"
    "stops (Suc k) (tok p (i + length (pr k e)))"
    "\<forall>x. erase x = erase e \<longrightarrow> gets p (i + length (pr k e)) (op_loop k m x) Q"
  show "gets p i (plevel k (parser_parse_expr m)) Q"
    unfolding plevel_op_loop [OF assms(2,3)]
    by (rule gets_sbind, rule readsD [OF assms(1) a(1)]) (use a assms(4) in auto)
qed

lemma reads_chains:
  assumes "left_chain k e" and "1 \<le> k" "k \<le> 3"
  shows "reads k e"
proof (rule readsI)
  fix p i m
  assume a: "ps_token_count p - i \<le> Suc m" "toks_at p i (pr k e)" "pok p (i + length (pr k e))"
    "stops k (tok p (i + length (pr k e)))"
  let ?Q = "\<lambda>x j. j = i + length (pr k e) \<and> erase x = erase e"
  have "gets p (i + length (pr k e)) (op_loop k m x) ?Q" if "erase x = erase e" for x
    unfolding op_loop_def
  proof (rule gets_pwhile_stop, rule gets_operator_follows)
    show "\<not> (lt_type (tok p (i + length (pr k e))) = T_BINARY_OPERATOR
        \<and> level_test k (lt_value (tok p (i + length (pr k e))))) \<and> i + length (pr k e) = i + length (pr k e)"
      using a(4) assms(2,3) by (auto simp: stops_def level_test_op)
  qed (use a that in auto)
  then show "gets p i (plevel k (parser_parse_expr m)) ?Q"
    using assms(1) a stops_Suc [OF a(4) assms(2)] unfolding left_chain_def by blast
qed

lemma stops_operator:
  "lt_type t = T_BINARY_OPERATOR \<Longrightarrow> lt_value t = op_text op \<Longrightarrow> \<forall>c. op \<noteq> OP_RAW c \<Longrightarrow> op_level op < k \<Longrightarrow> stops k t"
  by (auto simp: stops_def)

lemma gets_parse_operand:
  assumes "pok p i" "lt_type (tok p i) = T_BINARY_OPERATOR" "lt_value (tok p i) = op_text op" "\<forall>c. op \<noteq> OP_RAW c"
    and "gets p (Suc i) operand (\<lambda>right j. \<forall>l. Q (True, NODE_BINARY_EXPR l op left right) j)"
  shows "gets p i (parse_operand operand left) Q"
  unfolding parse_operand_def parser_parse_binexp_operator_def parser_parse_binexp_inner_def
  by (intro gets_sbind gets_expect gets_sret gets_mono [OF assms(5)] gets_filename)
     (use assms(1-4) in \<open>auto simp: operator_of_text\<close>)

lemma chains_binary:
  assumes "left_chain k a" and "reads (Suc k) b" and k: "op_level op = k" "\<forall>c. op \<noteq> OP_RAW c"
  shows "left_chain k (NODE_BINARY_EXPR l op a b)"
  unfolding left_chain_def
proof (intro allI impI)
  fix p i m and Q :: "ast_node \<Rightarrow> nat \<Rightarrow> bool"
  let ?e = "NODE_BINARY_EXPR l op a b"
  let ?n = "length (pr k a)" and ?n' = "length (pr (Suc k) b)"
  assume h: "ps_token_count p - i \<le> Suc m" "toks_at p i (pr k ?e)" "pok p (i + length (pr k ?e))"
    "stops (Suc k) (tok p (i + length (pr k ?e)))"
    "\<forall>x. erase x = erase ?e \<longrightarrow> gets p (i + length (pr k ?e)) (op_loop k m x) Q"
  have k13: "1 \<le> k" "k \<le> 3" using op_level_range [of op] k by auto
  have len: "length (pr k ?e) = ?n + Suc ?n'" by (simp add: paren_def k)
  have t: "toks_at p i (pr k a)" "lt_type (tok p (i + ?n)) = T_BINARY_OPERATOR"
    "lt_value (tok p (i + ?n)) = op_text op" "toks_at p (Suc (i + ?n)) (pr (Suc k) b)"
    using h(2) by (simp_all add: paren_def k)
  have "pok p (i + (?n + Suc ?n'))" using h(3) by (simp only: len)
  then have pk: "pok p (i + ?n)" "pok p (Suc (i + ?n))" by (auto elim!: pok_le)
  have loop: "gets p (i + ?n) (op_loop k m x) Q" if x: "erase x = erase a" for x
    unfolding op_loop_def
  proof (rule gets_pwhile_step)
    show "gets p (i + ?n) (operator_follows (level_test k)) (\<lambda>b j. b \<and> j = i + ?n)"
      using pk t k k13 by (intro gets_operator_follows) (simp_all add: level_test_op)
    show "gets p (i + ?n) (parse_operand (plevel (Suc k) (parser_parse_expr m)) x)
       (\<lambda>(go_on, y) j. go_on \<and> i + ?n < j \<and> j \<le> ps_token_count p \<and>
          gets p j (pwhile (operator_follows (level_test k)) (parse_operand (plevel (Suc k) (parser_parse_expr m))) y) Q)"
    proof (rule gets_parse_operand [OF pk(1) t(2,3) k(2)], rule readsD [OF assms(2)])
      fix y assume y: "erase y = erase b"
      have "gets p (i + length (pr k ?e)) (op_loop k m (NODE_BINARY_EXPR l' op x y)) Q" for l'
        using h(5) x y by simp
      moreover have "i + length (pr k ?e) \<le> ps_token_count p" using h(3) unfolding pok_def by (elim conjE) (rule less_imp_le)
      ultimately show "\<forall>l'. (case (True, NODE_BINARY_EXPR l' op x y) of (go_on, z) \<Rightarrow>
          \<lambda>j. go_on \<and> i + ?n < j \<and> j \<le> ps_token_count p \<and>
          gets p j (pwhile (operator_follows (level_test k))
            (parse_operand (plevel (Suc k) (parser_parse_expr m))) z) Q) (Suc (i + ?n) + ?n')"
        unfolding op_loop_def len by (simp add: add.assoc)
    next
      show "ps_token_count p - Suc (i + ?n) \<le> Suc m" using h(1) by simp
      show "toks_at p (Suc (i + ?n)) (pr (Suc k) b)" by (rule t)
      have "Suc (i + ?n) + ?n' = i + length (pr k ?e)" by (simp only: len)
      with h(3,4) show "pok p (Suc (i + ?n) + ?n')" "stops (Suc k) (tok p (Suc (i + ?n) + ?n'))"
        by (simp_all only:)
    qed
  qed
  have "stops (Suc k) (tok p (i + ?n))" using t k by (intro stops_operator) auto
  then show "gets p i (plevel k (parser_parse_expr m)) Q"
    using assms(1) h(1) t(1) pk(1) loop unfolding left_chain_def by blast
qed

text \<open>How the text of an expression begins.\<close>

fun is_array :: "ast_node \<Rightarrow> bool" where
  "is_array (NODE_ARRAY_LIT l es) = True"
| "is_array _ = False"

fun is_assignment :: "ast_node \<Rightarrow> bool" where
  "is_assignment (NODE_ASSIGNMENT l a v) = True"
| "is_assignment _ = False"

definition expr_starts :: "lex_token_type set" where
  "expr_starts = {T_INT_LIT, T_IDENTIFIER, T_STRING, T_PAREN_OPEN, T_ARRAY}"

definition head_ok :: "nat \<Rightarrow> ast_node \<Rightarrow> ktok list \<Rightarrow> bool" where
  "head_ok lv e ks \<longleftrightarrow> ks \<noteq> [] \<and> fst (hd ks) \<in> expr_starts
     \<and> (fst (hd ks) = T_ARRAY \<longrightarrow> lv = 0 \<and> is_array e)
     \<and> (lv = 0 \<and> is_assignment e \<or> tl ks = [] \<or> fst (hd (tl ks)) \<noteq> T_ASSIGNMENT)"

lemma head_ok_append: "head_ok lv e ks \<Longrightarrow> t \<noteq> T_ASSIGNMENT \<Longrightarrow> head_ok lv e (ks @ (t, v) # ks')"
  by (cases ks; cases "tl ks") (simp_all add: head_ok_def)

lemma head_ok_paren: "head_ok lv e ks \<Longrightarrow> head_ok lv' e' ([(T_PAREN_OPEN, v)] @ ks @ ks')"
  by (cases ks) (auto simp: head_ok_def expr_starts_def)

lemma head_ok_level: "head_ok k a ks \<Longrightarrow> 1 \<le> k \<Longrightarrow> head_ok lv e ks"
  by (simp add: head_ok_def)

lemma pr_head: "expr_ok e \<Longrightarrow> head_ok lv e (pr lv e)"
proof (induction e arbitrary: lv)
  case (NODE_BINARY_EXPR l op a b)
  let ?k = "op_level op" and ?e = "NODE_BINARY_EXPR l op a b"
  have "head_ok ?k a (pr ?k a)" using NODE_BINARY_EXPR.prems by (intro NODE_BINARY_EXPR.IH(1)) simp
  then have "head_ok lv ?e (pr ?k a)"
    by (rule head_ok_level) (use op_level_range [of op] in simp)
  then have h: "head_ok lv ?e (pr ?k a @ (T_BINARY_OPERATOR, op_text op) # pr (Suc ?k) b)"
    by (rule head_ok_append) simp
  show ?case
  proof (cases "?k < lv")
    case True
    with head_ok_paren [OF h, of lv ?e] show ?thesis by (simp add: paren_def)
  next
    case False
    with h show ?thesis by (simp add: paren_def)
  qed
next
  case (NODE_ASSIGNMENT l a v)
  then obtain l' s where "a = NODE_IDENTIFIER l' s" by (cases a) auto
  then show ?case by (auto simp: head_ok_def paren_def expr_starts_def)
qed (auto simp: head_ok_def paren_def expr_starts_def)

text \<open>Literals, identifiers and expressions in parentheses.\<close>

lemma gets_call_follows:
  "pok p i \<Longrightarrow> Q (ps_token_count p > i + 2 \<and> lt_type (tok p i) = T_IDENTIFIER
     \<and> lt_type (tok p (Suc i)) = T_PAREN_OPEN) i \<Longrightarrow> gets p i call_follows Q"
  unfolding call_follows_def
  by (intro gets_sbind gets_sget gets_if gets_sret gets_tok_at) (simp_all add: pok_def)

lemma gets_primary_instead:
  assumes "pok p i" and "lt_type (tok p i) = T_IDENTIFIER \<Longrightarrow> lt_type (tok p (Suc i)) \<noteq> T_PAREN_OPEN"
    and "gets p i (parser_parse_primary_expr pe) Q"
  shows "gets p i (parser_parse_call_expr pe) Q"
  unfolding parser_parse_call_expr_def
  by (intro gets_sbind gets_call_follows) (use assms in auto)

lemma plevel_4 [simp]: "plevel 4 pe = parser_parse_call_expr pe"
  by (simp add: eval_nat_numeral)

lemma digits_10_isdigit: "\<forall>c \<in> set (digits 10 n). isdigit c"
  by (simp add: digits_all_isdigit)

lemma reads_int: "0 \<le> x \<Longrightarrow> x \<le> llong_max \<Longrightarrow> reads 4 (NODE_INT_LIT l x)"
proof (rule readsI)
  fix p i m
  let ?e = "NODE_INT_LIT l x"
  assume x: "0 \<le> x" "x \<le> llong_max"
    and t: "toks_at p i (pr 4 ?e)" and pk: "pok p (i + length (pr 4 ?e))"
  have "in_llong x" using x by (simp add: in_llong_def llong_min_def)
  then have a: "atoll (digits 10 (nat x)) = Inr x" using atoll_digits [of "nat x"] x by simp
  have p: "pok p i" "pok p (Suc i)" using pk by (auto elim: pok_le)
  show "gets p i (plevel 4 (parser_parse_expr m)) (\<lambda>y j. j = i + length (pr 4 ?e) \<and> erase y = erase ?e)"
    using t p a unfolding plevel_4
    by (intro gets_primary_instead)
       (auto simp: parser_parse_primary_expr_def digits_10_isdigit
         intro!: gets_sbind gets_parser_at gets_filename gets_ret_forward gets_sret gets_slift)
qed

lemma reads_identifier: "reads 4 (NODE_IDENTIFIER l s)"
proof (rule readsI)
  fix p i m
  let ?e = "NODE_IDENTIFIER l s"
  assume t: "toks_at p i (pr 4 ?e)" and pk: "pok p (i + length (pr 4 ?e))"
    and st: "stops 4 (tok p (i + length (pr 4 ?e)))"
  have p: "pok p i" "pok p (Suc i)" using pk by (auto elim: pok_le)
  show "gets p i (plevel 4 (parser_parse_expr m)) (\<lambda>y j. j = i + length (pr 4 ?e) \<and> erase y = erase ?e)"
    using t p st unfolding plevel_4
    by (intro gets_primary_instead)
       (auto simp: parser_parse_primary_expr_def stops_def
         intro!: gets_sbind gets_parser_at gets_filename gets_ret_forward gets_sret gets_slift)
qed

lemma reads_string: "reads 4 (NODE_STRING l s)"
proof (rule readsI)
  fix p i m
  let ?e = "NODE_STRING l s"
  assume t: "toks_at p i (pr 4 ?e)" and pk: "pok p (i + length (pr 4 ?e))"
  have p: "pok p i" "pok p (Suc i)" using pk by (auto elim: pok_le)
  show "gets p i (plevel 4 (parser_parse_expr m)) (\<lambda>y j. j = i + length (pr 4 ?e) \<and> erase y = erase ?e)"
    using t p unfolding plevel_4
    by (intro gets_primary_instead)
       (auto simp: parser_parse_primary_expr_def
         intro!: gets_sbind gets_parser_at gets_filename gets_ret_forward gets_sret gets_slift)
qed

lemma stops_close: "lt_type t \<notin> {T_PAREN_OPEN, T_ASSIGNMENT, T_BINARY_OPERATOR} \<Longrightarrow> stops lv t"
  by (auto simp: stops_def)

lemma reads_paren:
  assumes "reads 0 e" and "pr 4 e = paren True (pr 0 e)"
  shows "reads 4 e"
proof (rule readsI)
  fix p i m
  let ?n = "length (pr 0 e)"
  assume h: "ps_token_count p - i \<le> Suc m" "toks_at p i (pr 4 e)" "pok p (i + length (pr 4 e))"
  have len: "length (pr 4 e) = Suc (Suc ?n)" by (simp add: assms(2) paren_def)
  have t: "lt_type (tok p i) = T_PAREN_OPEN" "toks_at p (Suc i) (pr 0 e)"
    "lt_type (tok p (Suc (i + ?n))) = T_PAREN_CLOSE"
    using h(2) by (simp_all add: assms(2) paren_def)
  have pk: "pok p i" "pok p (Suc i + ?n)" using h(3) by (auto simp: len elim!: pok_le)
  show "gets p i (plevel 4 (parser_parse_expr m)) (\<lambda>y j. j = i + length (pr 4 e) \<and> erase y = erase e)"
    unfolding plevel_4
  proof (rule gets_primary_instead)
    show "gets p i (parser_parse_primary_expr (parser_parse_expr m)) (\<lambda>y j. j = i + length (pr 4 e) \<and> erase y = erase e)"
      unfolding parser_parse_primary_expr_def
      by (intro gets_sbind gets_parser_at gets_filename)
         (use t pk h in \<open>auto simp: len intro!: gets_sbind gets_ret_forward gets_sret gets_expect
            gets_expr [OF assms(1)] stops_close\<close>)
  qed (use pk t in auto)
qed

text \<open>Lists separated by commas: call arguments and array elements.\<close>

lemma commas_Cons: "commas (ks # kss) = ks @ (if kss = [] then [] else (T_COMMA, '','') # commas kss)"
  by (cases kss) simp_all

lemma expr_start_type:
  assumes "expr_ok e" and "toks_at p i (pr lv e @ ks)"
  shows "lt_type (tok p i) \<in> expr_starts"
  using pr_head [OF assms(1), of lv] assms(2)
  by (cases "pr lv e") (auto simp: head_ok_def)

text \<open>
  The loops over such a list: \<open>pt\<close> prints an item, \<open>R x e\<close> relates what was read to the
  item, and one round reads an item and the comma after it, if there is one.
\<close>

definition reads_item ::
  "parser \<Rightarrow> lex_token_type \<Rightarrow> ('e \<Rightarrow> ktok list) \<Rightarrow> ('x \<Rightarrow> 'e \<Rightarrow> bool) \<Rightarrow>
   ('x list \<Rightarrow> (parser, bool \<times> 'x list) st) \<Rightarrow> nat \<Rightarrow> 'e \<Rightarrow> bool" where
  "reads_item p close pt R body j e \<longleftrightarrow>
     0 < length (pt e) \<and> lt_type (tok p j) \<notin> {T_EOF, close} \<and>
     (\<forall>acc. gets p j (body acc) (\<lambda>(g, y) k. \<exists>x. R x e \<and> y = acc @ [x] \<and>
        (if lt_type (tok p (j + length (pt e))) = T_COMMA then g \<and> k = Suc (j + length (pt e))
         else k = j + length (pt e))))"

lemma gets_comma_list:
  fixes Q :: "'x list \<Rightarrow> nat \<Rightarrow> bool"
  assumes "close \<noteq> T_COMMA"
    and item: "\<And>e j. e \<in> set es \<Longrightarrow> i0 \<le> j \<Longrightarrow> toks_at p j (pt e) \<Longrightarrow> pok p (j + length (pt e)) \<Longrightarrow>
      lt_type (tok p (j + length (pt e))) \<in> {T_COMMA, close} \<Longrightarrow> reads_item p close pt R body j e"
  shows "i0 \<le> i \<Longrightarrow> toks_at p i (commas (map pt es)) \<Longrightarrow> n = length (commas (map pt es)) \<Longrightarrow>
     lt_type (tok p (i + n)) = close \<Longrightarrow> pok p (i + n) \<Longrightarrow>
     (\<And>xs. list_all2 R xs es \<Longrightarrow> Q (acc @ xs) (i + n)) \<Longrightarrow>
     gets p i (pwhile (not_eof_nor close) body acc) Q"
  using item
proof (induction es arbitrary: i n acc)
  case Nil
  from Nil.prems(6) [of "[]"] Nil.prems(1-5) show ?case
    by (intro gets_pwhile_stop gets_not_eof_nor) auto
next
  case (Cons e es)
  let ?l = "length (pt e)" and ?cs = "commas (map pt es)"
  have ts: "toks_at p i (pt e)" "toks_at p (i + ?l) (if es = [] then [] else (T_COMMA, '','') # ?cs)"
    using Cons.prems(2) by (auto simp: commas_Cons)
  have n: "n = ?l + (if es = [] then 0 else Suc (length ?cs))"
    using Cons.prems(3) by (simp add: commas_Cons)
  have pk: "pok p i" "pok p (i + ?l)" using Cons.prems(5) by (auto elim: pok_le simp: n)
  have nt: "lt_type (tok p (i + ?l)) = (if es = [] then close else T_COMMA)"
    using ts(2) Cons.prems(4) n by auto
  have it: "reads_item p close pt R body i e"
    using Cons.prems(1) ts pk nt by (intro Cons.prems(7)) auto
  have test: "gets p i (not_eof_nor close) (\<lambda>b k. b \<and> k = i)"
    using it pk by (intro gets_not_eof_nor) (auto simp: reads_item_def)
  have q: "Q ((acc @ [x]) @ xs) (i + n)" if "R x e" "list_all2 R xs es" for x xs
    using Cons.prems(6) [of "x # xs"] that by simp
  show ?case
  proof (cases "es = []")
    case True
    have b: "gets p i (body acc) (\<lambda>(g, y) k. \<exists>x. R x e \<and> y = acc @ [x] \<and> k = i + n)"
      using it nt True assms(1) n by (auto simp: reads_item_def)
    have stop: "gets p (i + n) (pwhile (not_eof_nor close) body (acc @ [x])) Q" if "R x e" for x
      using Cons.prems(4,5) q [OF that, of "[]"] True by (intro gets_pwhile_stop gets_not_eof_nor) auto
    from b obtain g x where gx: "body acc (p\<lparr> ps_index := i \<rparr>) = Inr ((g, acc @ [x]), p\<lparr> ps_index := i + n \<rparr>)" "R x e"
      by (auto simp: gets_def)
    show ?thesis
    proof (cases g)
      case True
      show ?thesis
        by (rule gets_pwhile_step [OF test])
           (use gx True stop n it pk Cons.prems(5) in \<open>auto simp: gets_def [of p i] reads_item_def pok_def\<close>)
    next
      case False
      show ?thesis
        by (rule gets_pwhile_break [OF test])
           (use gx False q [OF gx(2), of "[]"] \<open>es = []\<close> in \<open>auto simp: gets_def\<close>)
    qed
  next
    case False
    have eq: "Suc (i + ?l) + length ?cs = i + n" using n False by simp
    have b: "gets p i (body acc) (\<lambda>(g, y) k. \<exists>x. R x e \<and> y = acc @ [x] \<and> g \<and> k = Suc (i + ?l))"
      using it nt False by (simp add: reads_item_def)
    have rest: "gets p (Suc (i + ?l)) (pwhile (not_eof_nor close) body (acc @ [x])) Q" if "R x e" for x
    proof (rule Cons.IH)
      show "lt_type (tok p (Suc (i + ?l) + length ?cs)) = close" by (simp only: eq Cons.prems(4))
      show "pok p (Suc (i + ?l) + length ?cs)" by (simp only: eq Cons.prems(5))
      show "Q ((acc @ [x]) @ xs) (Suc (i + ?l) + length ?cs)" if "list_all2 R xs es" for xs
        using q [OF \<open>R x e\<close> that] by (simp only: eq)
    qed (use Cons.prems(1,7) ts(2) False in auto)
    have "Suc (i + ?l) \<le> ps_token_count p" using pk by (simp add: pok_def)
    then show ?thesis
      by (intro gets_pwhile_step [OF test] gets_mono [OF b]) (use rest in auto)
  qed
qed

lemma reads_argument:
  assumes "reads 0 e" "expr_ok e" "pok p (j + length (pr 0 e))" "toks_at p j (pr 0 e)"
    "lt_type (tok p (j + length (pr 0 e))) \<in> {T_COMMA, T_PAREN_CLOSE}" "ps_token_count p - j \<le> m"
  shows "reads_item p T_PAREN_CLOSE (pr 0) (\<lambda>x e. erase x = erase e) (parse_argument (parser_parse_expr m)) j e"
proof -
  have "pr 0 e \<noteq> []" using pr_head [OF assms(2), of 0] by (simp add: head_ok_def)
  moreover have "lt_type (tok p j) \<in> expr_starts"
    using expr_start_type [of e p j 0 "[]"] assms by simp
  moreover have "stops 0 (tok p (j + length (pr 0 e)))"
    using assms(5) by (intro stops_close) auto
  ultimately show ?thesis
    unfolding reads_item_def parse_argument_def
    by (auto simp: expr_starts_def)
       (insert assms, auto intro!: gets_sbind gets_expr [OF assms(1)] gets_at_type gets_sret gets_expect)
qed

lemma reads_element:
  assumes "reads 0 e" "expr_ok e" "pok p (j + length (pr 0 e))" "toks_at p j (pr 0 e)"
    "lt_type (tok p (j + length (pr 0 e))) \<in> {T_COMMA, T_SQUARE_BRACE_CLOSE}" "ps_token_count p - j \<le> m"
  shows "reads_item p T_SQUARE_BRACE_CLOSE (pr 0) (\<lambda>x e. erase x = erase e) (parse_element (parser_parse_expr m)) j e"
proof -
  have "pr 0 e \<noteq> []" using pr_head [OF assms(2), of 0] by (simp add: head_ok_def)
  moreover have "lt_type (tok p j) \<in> expr_starts"
    using expr_start_type [of e p j 0 "[]"] assms by simp
  moreover have "stops 0 (tok p (j + length (pr 0 e)))"
    using assms(5) by (intro stops_close) auto
  ultimately show ?thesis
    unfolding reads_item_def parse_element_def
    by (auto simp: expr_starts_def)
       (insert assms, auto intro!: gets_sbind gets_expr [OF assms(1)] gets_at_type gets_sret gets_expect)
qed

lemma map_erase_eq: "list_all2 (\<lambda>x e. erase x = erase e) xs es \<Longrightarrow> map erase xs = map erase es"
  by (induction rule: list_all2_induct) simp_all

lemma reads_call:
  assumes "\<And>e. e \<in> set args \<Longrightarrow> reads 0 e \<and> expr_ok e"
  shows "reads 4 (NODE_EXPR_CALL l f args)"
proof (rule readsI)
  fix p i m
  let ?e = "NODE_EXPR_CALL l f args" and ?cs = "commas (map (pr 0) args)"
  assume h: "ps_token_count p - i \<le> Suc m" "toks_at p i (pr 4 ?e)" "pok p (i + length (pr 4 ?e))"
  have t: "lt_type (tok p i) = T_IDENTIFIER" "lt_value (tok p i) = f" "lt_type (tok p (Suc i)) = T_PAREN_OPEN"
    "toks_at p (i + 2) ?cs" "lt_type (tok p (i + 2 + length ?cs)) = T_PAREN_CLOSE"
    using h(2) by simp_all
  have pk: "pok p i" "pok p (Suc i)" "pok p (i + 2 + length ?cs)" "pok p (Suc (i + 2 + length ?cs))"
    using h(3) by (auto elim!: pok_le)
  have c: "ps_token_count p > i + 2" using pk(3) by (simp add: pok_def)
  have args: "gets p (i + 2) (pwhile (not_eof_nor T_PAREN_CLOSE) (parse_argument (parser_parse_expr m)) [])
     (\<lambda>xs j. list_all2 (\<lambda>x e. erase x = erase e) xs args \<and> j = i + 2 + length ?cs)"
  proof (rule gets_comma_list [where pt = "pr 0" and es = args and i = "i + 2" and n = "length ?cs" and R = "\<lambda>x e. erase x = erase e"])
    show "reads_item p T_PAREN_CLOSE (pr 0) (\<lambda>x e. erase x = erase e) (parse_argument (parser_parse_expr m)) j e"
      if "e \<in> set args" "i + 2 \<le> j" "toks_at p j (pr 0 e)" "pok p (j + length (pr 0 e))"
        "lt_type (tok p (j + length (pr 0 e))) \<in> {T_COMMA, T_PAREN_CLOSE}" for e j
      using assms [OF that(1)] that h(1) by (intro reads_argument) auto
  qed (use t pk in simp_all)
  have erase: "erase (NODE_EXPR_CALL l' f xs) = erase ?e" if "list_all2 (\<lambda>x e. erase x = erase e) xs args" for l' xs
    using map_erase_eq [OF that] by simp
  show "gets p i (plevel 4 (parser_parse_expr m)) (\<lambda>y j. j = i + length (pr 4 ?e) \<and> erase y = erase ?e)"
    unfolding plevel_4 parser_parse_call_expr_def
    by (intro gets_sbind gets_call_follows)
       (use t pk c erase in \<open>auto intro!: gets_sbind gets_filename gets_expect gets_parser_at gets_sret
          gets_mono [OF args [unfolded add_2_eq_Suc']]\<close>)
qed

text \<open>Level 0: arrays, assignments and the rest.\<close>

lemma gets_assignment_follows:
  "pok p i \<Longrightarrow> lt_type (tok p i) \<noteq> T_EOF \<Longrightarrow> pok p (Suc i) \<Longrightarrow> Q (lt_type (tok p (Suc i)) = T_ASSIGNMENT) i \<Longrightarrow>
   gets p i assignment_follows Q"
  unfolding assignment_follows_def
  by (intro gets_sbind gets_is_eof)
     (auto simp: pok_def intro!: gets_sbind gets_sget gets_tok_at gets_sret)

lemma reads_array:
  assumes "\<And>e. e \<in> set es \<Longrightarrow> reads 0 e \<and> expr_ok e"
  shows "reads 0 (NODE_ARRAY_LIT l es)"
proof (rule readsI)
  fix p i m
  let ?e = "NODE_ARRAY_LIT l es" and ?cs = "commas (map (pr 0) es)"
  assume h: "ps_token_count p - i \<le> Suc m" "toks_at p i (pr 0 ?e)" "pok p (i + length (pr 0 ?e))"
  have t: "lt_type (tok p i) = T_ARRAY" "lt_type (tok p (Suc i)) = T_SQUARE_BRACE_OPEN"
    "toks_at p (i + 2) ?cs" "lt_type (tok p (i + 2 + length ?cs)) = T_SQUARE_BRACE_CLOSE"
    using h(2) by (simp_all add: paren_def)
  have pk: "pok p i" "pok p (Suc i)" "pok p (i + 2 + length ?cs)" "pok p (Suc (i + 2 + length ?cs))"
    using h(3) by (auto elim!: pok_le simp: paren_def)
  have es: "gets p (i + 2) (pwhile (not_eof_nor T_SQUARE_BRACE_CLOSE) (parse_element (parser_parse_expr m)) [])
     (\<lambda>xs j. list_all2 (\<lambda>x e. erase x = erase e) xs es \<and> j = i + 2 + length ?cs)"
  proof (rule gets_comma_list [where pt = "pr 0" and es = es and i = "i + 2" and n = "length ?cs" and R = "\<lambda>x e. erase x = erase e"])
    show "reads_item p T_SQUARE_BRACE_CLOSE (pr 0) (\<lambda>x e. erase x = erase e) (parse_element (parser_parse_expr m)) j e"
      if "e \<in> set es" "i + 2 \<le> j" "toks_at p j (pr 0 e)" "pok p (j + length (pr 0 e))"
        "lt_type (tok p (j + length (pr 0 e))) \<in> {T_COMMA, T_SQUARE_BRACE_CLOSE}" for e j
      using assms [OF that(1)] that h(1) by (intro reads_element) auto
  qed (use t pk in simp_all)
  have erase: "erase (NODE_ARRAY_LIT l' xs) = erase ?e" if "list_all2 (\<lambda>x e. erase x = erase e) xs es" for l' xs
    using map_erase_eq [OF that] by simp
  show "gets p i (plevel 0 (parser_parse_expr m)) (\<lambda>y j. j = i + length (pr 0 ?e) \<and> erase y = erase ?e)"
    unfolding plevel.simps parser_parse_assignment_expr_def parser_parse_array_lit_def
    by (intro gets_sbind gets_assignment_follows)
       (use t pk erase in \<open>auto simp: paren_def intro!: gets_sbind gets_at_type gets_expect gets_sret
          gets_mono [OF es [unfolded add_2_eq_Suc']]\<close>)
qed

lemma reads_assignment:
  assumes "reads 0 v"
  shows "reads 0 (NODE_ASSIGNMENT l (NODE_IDENTIFIER l' s) v)"
proof (rule readsI)
  fix p i m
  let ?e = "NODE_ASSIGNMENT l (NODE_IDENTIFIER l' s) v" and ?n = "length (pr 0 v)"
  assume h: "ps_token_count p - i \<le> Suc m" "toks_at p i (pr 0 ?e)" "pok p (i + length (pr 0 ?e))"
    "stops 0 (tok p (i + length (pr 0 ?e)))"
  have t: "lt_type (tok p i) = T_IDENTIFIER" "lt_value (tok p i) = s" "lt_type (tok p (Suc i)) = T_ASSIGNMENT"
    "toks_at p (Suc (Suc i)) (pr 0 v)"
    using h(2) by (simp_all add: paren_def)
  have pk: "pok p i" "pok p (Suc i)" "pok p (Suc (Suc i) + ?n)" and st: "stops 0 (tok p (Suc (Suc i) + ?n))"
    using h(3,4) by (auto elim!: pok_le simp: paren_def)
  show "gets p i (plevel 0 (parser_parse_expr m)) (\<lambda>y j. j = i + length (pr 0 ?e) \<and> erase y = erase ?e)"
    unfolding plevel.simps parser_parse_assignment_expr_def
    by (intro gets_sbind gets_assignment_follows)
       (use t pk st h(1) in \<open>auto simp: paren_def intro!: gets_sbind gets_expect gets_filename gets_parser_at gets_sret
          gets_expr [OF assms]\<close>)
qed

lemma reads_level_0:
  assumes "reads 1 e" "pr 0 e = pr 1 e" "expr_ok e" "\<not> is_array e" "\<not> is_assignment e"
  shows "reads 0 e"
proof (rule readsI)
  fix p i m
  assume h: "ps_token_count p - i \<le> Suc m" "toks_at p i (pr 0 e)" "pok p (i + length (pr 0 e))"
    "stops 0 (tok p (i + length (pr 0 e)))"
  have hd: "head_ok 0 e (pr 0 e)" using assms(3) by (rule pr_head)
  then obtain t v ks where ks: "pr 0 e = (t, v) # ks" by (cases "pr 0 e") (auto simp: head_ok_def)
  have ty: "lt_type (tok p i) \<in> expr_starts" "lt_type (tok p i) \<noteq> T_ARRAY"
    using hd h(2) assms(4) by (auto simp: ks head_ok_def)
  have next_tok: "lt_type (tok p (Suc i)) \<noteq> T_ASSIGNMENT"
  proof (cases ks)
    case Nil
    then show ?thesis using h(4) ks by (simp add: stops_def)
  next
    case (Cons k ks')
    then show ?thesis using hd h(2) ks assms(5) by (cases k) (auto simp: head_ok_def)
  qed
  have pk: "pok p i" "pok p (Suc i)" using h(3) by (auto elim!: pok_le simp: ks)
  have "stops 1 (tok p (i + length (pr 1 e)))" using h(4) assms(2) by (auto simp: stops_def)
  then have r: "gets p i (plevel 1 (parser_parse_expr m)) (\<lambda>y j. j = i + length (pr 0 e) \<and> erase y = erase e)"
    using h assms(1,2) unfolding reads_def by simp
  show "gets p i (plevel 0 (parser_parse_expr m)) (\<lambda>y j. j = i + length (pr 0 e) \<and> erase y = erase e)"
    unfolding plevel.simps parser_parse_assignment_expr_def parser_parse_array_lit_def
    by (intro gets_sbind gets_assignment_follows)
       (use ty next_tok pk r in \<open>auto simp: expr_starts_def intro!: gets_sbind gets_at_type\<close>)
qed

text \<open>All levels together.\<close>

definition reads_all :: "ast_node \<Rightarrow> bool" where
  "reads_all e \<longleftrightarrow> reads 0 e \<and> reads 4 e \<and> (\<forall>k. 1 \<le> k \<longrightarrow> k \<le> 3 \<longrightarrow> left_chain k e)"

lemma reads_allD: "reads_all e \<Longrightarrow> k \<le> 4 \<Longrightarrow> reads k e"
proof -
  assume e: "reads_all e" "k \<le> 4"
  then consider "k = 0" | "1 \<le> k" "k \<le> 3" | "k = 4" by linarith
  then show ?thesis using e(1) by cases (auto simp: reads_all_def intro: reads_chains)
qed

text \<open>Downwards from a level, where the text is the same.\<close>

lemma chains_below:
  assumes "reads (Suc K) e" "K \<le> 3" "\<And>k. k \<le> K \<Longrightarrow> pr k e = pr (Suc K) e"
  shows "1 \<le> k \<Longrightarrow> k \<le> K \<Longrightarrow> left_chain k e"
proof (induction "K - k" arbitrary: k)
  case 0
  then show ?case using assms by (intro chains_same) auto
next
  case (Suc d)
  then have "left_chain (Suc k) e" by simp
  then have "reads (Suc k) e" using Suc.hyps(2) assms(2) by (intro reads_chains) auto
  then show ?case using Suc.prems Suc.hyps(2) assms by (intro chains_same) auto
qed

lemma reads_all_atom:
  assumes "reads 4 e" "\<And>k. pr k e = pr 4 e" "expr_ok e" "\<not> is_array e" "\<not> is_assignment e"
  shows "reads_all e"
proof -
  have c: "left_chain k e" if "1 \<le> k" "k \<le> 3" for k
    using assms(1,2) that chains_below [of 3 e k] by simp
  then have "reads 1 e" by (intro reads_chains) auto
  then have "reads 0 e" using assms(2) [of 0] assms(2) [of 1] assms(3-5) by (intro reads_level_0) auto
  with c assms(1) show ?thesis by (simp add: reads_all_def)
qed

text \<open>Upwards, in parentheses.\<close>

lemma reads_all_paren:
  assumes "reads 0 e" and "\<And>k. 1 \<le> k \<Longrightarrow> k \<le> K \<Longrightarrow> left_chain k e" and "\<And>k. K < k \<Longrightarrow> pr k e = paren True (pr 0 e)" "K \<le> 3"
  shows "reads_all e"
proof -
  have r: "reads 4 e" using assms by (intro reads_paren) auto
  have "left_chain k e" if "K < k" "k \<le> 3" for k
    using that
  proof (induction "3 - k" arbitrary: k)
    case 0
    then show ?case using r assms(3) [of 3] assms(3) [of 4] by (intro chains_same) auto
  next
    case (Suc d)
    then have "left_chain (Suc k) e" by simp
    then have "reads (Suc k) e" using Suc by (intro reads_chains) auto
    then show ?case using Suc.prems Suc.hyps(2) assms(3) [of k] assms(3) [of "Suc k"] by (intro chains_same) auto
  qed
  with assms(1,2) r show ?thesis unfolding reads_all_def by (metis not_less)
qed

lemma reads_all_binary:
  assumes "reads_all a" "reads_all b" "expr_ok (NODE_BINARY_EXPR l op a b)"
  shows "reads_all (NODE_BINARY_EXPR l op a b)"
proof -
  let ?e = "NODE_BINARY_EXPR l op a b" and ?K = "op_level op"
  note K = op_level_range [of op]
  have p: "pr k ?e = (if ?K < k then paren True (pr 0 ?e) else pr 0 ?e)" for k by (simp add: paren_def)
  have "reads (Suc ?K) b" using assms(2) K by (intro reads_allD) auto
  then have top: "left_chain ?K ?e"
    using assms K by (intro chains_binary) (auto simp: reads_all_def)
  have c: "left_chain k ?e" if "1 \<le> k" "k \<le> ?K" for k
  proof (cases "k = ?K")
    case True
    with top show ?thesis by simp
  next
    case False
    define J where "J = ?K - 1"
    have J: "?K = Suc J" "k \<le> J" using that False by (simp_all add: J_def)
    have "reads (Suc J) ?e" using top K J by (intro reads_chains) auto
    then show ?thesis using that J K p by (intro chains_below [of J]) auto
  qed
  then have "reads 1 ?e" using K by (intro reads_chains) auto
  then have "reads 0 ?e" using assms(3) K p [of 1] by (intro reads_level_0) auto
  then show ?thesis
  proof (rule reads_all_paren [of _ ?K])
    show "pr k ?e = paren True (pr 0 ?e)" if "?K < k" for k using p [of k] that by (simp only: if_True)
  qed (use c K in auto)
qed

lemma reads_everything: "expr_ok e \<Longrightarrow> reads_all e"
proof (induction e rule: expr_ok.induct)
  case (1 l i)
  then show ?case by (intro reads_all_atom reads_int) auto
next
  case (2 l s)
  then show ?case by (intro reads_all_atom reads_identifier) auto
next
  case (3 l s)
  then show ?case by (intro reads_all_atom reads_string) auto
next
  case (4 l op a b)
  then show ?case by (intro reads_all_binary) auto
next
  case (5 l f args)
  then show ?case by (intro reads_all_atom reads_call) (auto simp: reads_all_def)
next
  case (6 l es)
  then show ?case by (intro reads_all_paren [of _ 0] reads_array) (auto simp: reads_all_def paren_def)
next
  case (7 l l' s v)
  then show ?case by (intro reads_all_paren [of _ 0] reads_assignment) (auto simp: reads_all_def paren_def)
qed auto

end
