(* ===== verification/Stmt_Roundtrip.thy ===== *)
theory Stmt_Roundtrip
  imports Parser_Roundtrip
begin

text \<open>
  Programs printed as source text are read back: the statement level of theory
  Parser\_Roundtrip, and the round trip through the lexer and the parser.
\<close>

section \<open>Printing statements\<close>

fun prs :: "ast_node \<Rightarrow> ktok list" where
  "prs (NODE_VAR_DECL l s c v) =
     [(if c then T_CONST else T_VAR, if c then ''const'' else ''var''), (T_IDENTIFIER, s)]
       @ (case v of None \<Rightarrow> [] | Some e \<Rightarrow> (T_ASSIGNMENT, ''='') # pr 0 e) @ [(T_SEMICOLON, '';'')]"
| "prs (NODE_FN_DECL l f ps body) =
     [(T_FUNCTION, ''function''), (T_IDENTIFIER, f), (T_PAREN_OPEN, ''('')]
       @ commas (map (\<lambda>s. [(T_IDENTIFIER, s)]) ps)
       @ [(T_PAREN_CLOSE, '')''), (T_BLOCK_BRACE_OPEN, ''{'')] @ concat (map prs body) @ [(T_BLOCK_BRACE_CLOSE, ''}'')]"
| "prs (NODE_BLOCK l ns) =
     [(T_BLOCK_BRACE_OPEN, ''{'')] @ concat (map prs ns) @ [(T_BLOCK_BRACE_CLOSE, ''}'')]"
| "prs (NODE_IF_STMT l c t e) =
     [(T_IF, ''if''), (T_PAREN_OPEN, ''('')] @ pr 0 c @ [(T_PAREN_CLOSE, '')'')] @ prs t
       @ (case e of None \<Rightarrow> [] | Some n \<Rightarrow> (T_ELSE, ''else'') # prs n)"
| "prs (NODE_LOOP_STMT l n v b) =
     [(T_LOOP, ''loop'')]
       @ (case n of
            None \<Rightarrow> (case v of None \<Rightarrow> [] | Some s \<Rightarrow> [(T_IDENTIFIER, s)])
          | Some e \<Rightarrow> (T_PAREN_OPEN, ''('') # pr 0 e
              @ (case v of None \<Rightarrow> [] | Some s \<Rightarrow> [(T_AS, ''as''), (T_IDENTIFIER, s)]) @ [(T_PAREN_CLOSE, '')'')])
       @ prs b"
| "prs e = pr 0 e @ [(T_SEMICOLON, '';'')]"

text \<open>A statement that an \<^verbatim>\<open>else\<close> after it would continue.\<close>

fun ends_open :: "ast_node \<Rightarrow> bool" where
  "ends_open (NODE_IF_STMT l c t None) = True"
| "ends_open (NODE_IF_STMT l c t (Some e)) = ends_open e"
| "ends_open (NODE_LOOP_STMT l n v b) = ends_open b"
| "ends_open _ = False"

text \<open>
  Statements whose text says what they are: a constant has a value, a branch before \<^verbatim>\<open>else\<close>
  does not end in an \<^verbatim>\<open>if\<close> without one, and the body of a loop does not begin with what the
  head of the loop would take for its own.
\<close>

fun stmt_ok :: "ast_node \<Rightarrow> bool" where
  "stmt_ok (NODE_VAR_DECL l s c v) = (case v of None \<Rightarrow> \<not> c | Some e \<Rightarrow> expr_ok e)"
| "stmt_ok (NODE_FN_DECL l f ps body) = (\<forall>n \<in> set body. stmt_ok n)"
| "stmt_ok (NODE_BLOCK l ns) = (\<forall>n \<in> set ns. stmt_ok n)"
| "stmt_ok (NODE_IF_STMT l c t e) =
     (expr_ok c \<and> stmt_ok t \<and> (case e of None \<Rightarrow> True | Some n \<Rightarrow> stmt_ok n \<and> \<not> ends_open t))"
| "stmt_ok (NODE_LOOP_STMT l n v b) =
     ((case n of None \<Rightarrow> True | Some e \<Rightarrow> expr_ok e) \<and> stmt_ok b
      \<and> (n \<noteq> None \<or> v = None \<longrightarrow> fst (hd (prs b)) \<noteq> T_IDENTIFIER)
      \<and> (n = None \<and> v = None \<longrightarrow> fst (hd (prs b)) \<noteq> T_PAREN_OPEN))"
| "stmt_ok e = expr_ok e"

definition stmt_starts :: "lex_token_type set" where
  "stmt_starts = expr_starts \<union> {T_VAR, T_CONST, T_FUNCTION, T_BLOCK_BRACE_OPEN, T_IF, T_LOOP}"

lemma prs_head: "stmt_ok s \<Longrightarrow> prs s \<noteq> [] \<and> fst (hd (prs s)) \<in> stmt_starts"
proof -
  assume s: "stmt_ok s"
  have e: "pr 0 e \<noteq> [] \<and> fst (hd (pr 0 e)) \<in> stmt_starts" if "expr_ok e" for e
    using pr_head [OF that, of 0] by (simp add: head_ok_def stmt_starts_def)
  have "fst (hd (pr 0 e @ [x])) = fst (hd (pr 0 e))" if "expr_ok e" for e x using e [OF that] by simp
  with s e show ?thesis by (cases s) (auto simp: stmt_starts_def split: option.splits simp del: pr.simps)
qed

lemma start_type:
  assumes "stmt_ok s" and "toks_at p i (prs s @ ks)"
  shows "lt_type (tok p i) = fst (hd (prs s))" "lt_type (tok p i) \<in> stmt_starts"
  using prs_head [OF assms(1)] assms(2) by (cases "prs s"; auto)+

section \<open>Reading statements\<close>

text \<open>A token that may follow a statement.\<close>

definition follows :: "ast_node \<Rightarrow> lex_token \<Rightarrow> bool" where
  "follows s t \<longleftrightarrow> lt_type t \<noteq> T_SEMICOLON \<and> (ends_open s \<longrightarrow> lt_type t \<noteq> T_ELSE)"

definition reads_stmt :: "ast_node \<Rightarrow> bool" where
  "reads_stmt s \<longleftrightarrow> (\<forall>p i m. ps_token_count p - i \<le> Suc m \<longrightarrow> toks_at p i (prs s)
     \<longrightarrow> pok p (i + length (prs s)) \<longrightarrow> follows s (tok p (i + length (prs s)))
     \<longrightarrow> gets p i (parser_parse_stmt (Suc m)) (\<lambda>x j. j = i + length (prs s) \<and> erase x = erase s))"

lemma gets_stmt:
  assumes "reads_stmt s" "ps_token_count p - i \<le> m" "toks_at p i (prs s)" "pok p (i + length (prs s))"
    "follows s (tok p (i + length (prs s)))" "\<And>x. erase x = erase s \<Longrightarrow> Q x (i + length (prs s))"
  shows "gets p i (parser_parse_stmt m) Q"
proof -
  have "pok p i" using assms(4) by (rule pok_le) simp
  then obtain k where m: "m = Suc k" using assms(2) by (cases m) (auto simp: pok_def)
  have "gets p i (parser_parse_stmt (Suc k)) (\<lambda>x j. j = i + length (prs s) \<and> erase x = erase s)"
    using assms(1-5) m unfolding reads_stmt_def by blast
  then show ?thesis using assms(6) by (auto simp: m elim!: gets_mono simp del: parser_parse_stmt.simps)
qed

text \<open>The part all statements share: the semicolon, if one is due, and those after it.\<close>

lemma gets_at_semicolon: "pok p i \<Longrightarrow> Q (lt_type (tok p i) = T_SEMICOLON) i \<Longrightarrow> gets p i at_semicolon Q"
  unfolding at_semicolon_def by (intro gets_sbind gets_at_type gets_sret)

definition stmt_dispatch :: "(parser, ast_node) st \<Rightarrow> (parser, ast_node) st \<Rightarrow> lex_token_type \<Rightarrow> (parser, ast_node \<times> bool) st" where
  "stmt_dispatch pe ps t =
     (if t = T_VAR \<or> t = T_CONST
      then sbind (parser_parse_var_decl pe) (\<lambda>n. sret (n, True))
      else if t = T_FUNCTION then sbind (parser_parse_fn_decl ps) (\<lambda>n. sret (n, False))
      else if t = T_BLOCK_BRACE_OPEN then sbind (parser_parse_block ps) (\<lambda>n. sret (n, False))
      else if t = T_IF then sbind (parser_parse_if pe ps) (\<lambda>n. sret (n, False))
      else if t = T_LOOP then sbind (parser_parse_loop_stmt pe ps) (\<lambda>n. sret (n, False))
      else sbind pe (\<lambda>n. sret (n, True)))"

lemma gets_stmt_body:
  assumes "pok p i" and "pok p k" "lt_type (tok p k) \<noteq> T_SEMICOLON"
    and "gets p i (stmt_dispatch pe ps (lt_type (tok p i)))
      (\<lambda>(x, semicolon) j. (if semicolon then lt_type (tok p j) = T_SEMICOLON \<and> k = Suc j else k = j) \<and> Q x k)"
  shows "gets p i (parser_parse_stmt_body pe ps) Q"
proof -
  have tail: "gets p j (sbind (if b then sbind (parser_expect T_SEMICOLON) (\<lambda>_. sret ()) else sret ())
      (\<lambda>_. sbind (pwhile at_semicolon skip_semicolon ()) (\<lambda>_. sret x))) Q"
    if h: "if b then lt_type (tok p j) = T_SEMICOLON \<and> k = Suc j else k = j" "Q x k" for x b j
  proof -
    have stop: "gets p k (pwhile at_semicolon skip_semicolon ()) (\<lambda>_ j. gets p j (sret x) Q)"
      using h assms(2,3) by (intro gets_pwhile_stop gets_at_semicolon) (auto intro: gets_sret)
    have "pok p j" using h assms(2) by (auto split: if_splits elim: pok_le)
    then show ?thesis
      using h stop by (cases b) (auto intro!: gets_sbind gets_expect gets_sret)
  qed
  show ?thesis
    unfolding parser_parse_stmt_body_def stmt_dispatch_def [symmetric]
    by (intro gets_sbind gets_at_type [OF assms(1)] gets_mono [OF assms(4)]) (auto intro!: tail)
qed

text \<open>Statements one after the other, up to a brace or the end of the file.\<close>

lemma gets_children:
  fixes Q :: "ast_node list \<Rightarrow> nat \<Rightarrow> bool"
  assumes item: "\<And>s j. s \<in> set ss \<Longrightarrow> i0 \<le> j \<Longrightarrow> toks_at p j (prs s) \<Longrightarrow> pok p (j + length (prs s)) \<Longrightarrow>
      follows s (tok p (j + length (prs s))) \<Longrightarrow> gets p j ps (\<lambda>x k. k = j + length (prs s) \<and> erase x = erase s)"
    and ok: "\<forall>s \<in> set ss. stmt_ok s"
    and test: "\<And>j. pok p j \<Longrightarrow> lt_type (tok p j) \<in> stmt_starts \<Longrightarrow> gets p j test (\<lambda>b k. b \<and> k = j)"
  shows "i0 \<le> i \<Longrightarrow> toks_at p i (concat (map prs ss)) \<Longrightarrow> n = length (concat (map prs ss)) \<Longrightarrow>
     lt_type (tok p (i + n)) \<notin> {T_SEMICOLON, T_ELSE} \<Longrightarrow> pok p (i + n) \<Longrightarrow>
     gets p (i + n) test (\<lambda>b k. \<not> b \<and> k = i + n) \<Longrightarrow>
     (\<And>xs. map erase xs = map erase ss \<Longrightarrow> Q (acc @ xs) (i + n)) \<Longrightarrow>
     gets p i (pwhile test (parse_child ps) acc) Q"
  using item ok
proof (induction ss arbitrary: i n acc)
  case Nil
  from Nil.prems(7) [of "[]"] Nil.prems(3,6) show ?case by (intro gets_pwhile_stop) auto
next
  case (Cons s ss)
  let ?l = "length (prs s)" and ?cs = "concat (map prs ss)"
  have ts: "toks_at p i (prs s)" "toks_at p (i + ?l) ?cs" and n: "i + n = (i + ?l) + length ?cs"
    using Cons.prems(2,3) by auto
  have s: "stmt_ok s" using Cons.prems(9) by simp
  have pk: "pok p i" "pok p (i + ?l)" using Cons.prems(5) by (auto elim!: pok_le simp: n)
  have start: "lt_type (tok p i) \<in> stmt_starts" using start_type(2) [OF s, of p i "[]"] ts(1) by simp
  have fol: "follows s (tok p (i + ?l))"
  proof (cases ss)
    case Nil
    then show ?thesis using Cons.prems(4) n by (auto simp: follows_def)
  next
    case (Cons s' ss')
    have "lt_type (tok p (i + ?l)) \<in> stmt_starts"
      using start_type(2) [of s' p "i + ?l" "concat (map prs ss')"] ts(2) Cons.prems(9) Cons by simp
    then show ?thesis by (auto simp: follows_def stmt_starts_def expr_starts_def)
  qed
  have len: "0 < ?l" using prs_head [OF s] by simp
  have rest: "gets p (i + ?l) (pwhile test (parse_child ps) (acc @ [x])) Q" if "erase x = erase s" for x
  proof (rule Cons.IH)
    show "lt_type (tok p (i + ?l + length ?cs)) \<notin> {T_SEMICOLON, T_ELSE}" using Cons.prems(4) n by simp
    show "pok p (i + ?l + length ?cs)" using Cons.prems(5) by (simp add: n)
    show "gets p (i + ?l + length ?cs) test (\<lambda>b k. \<not> b \<and> k = i + ?l + length ?cs)" using Cons.prems(6) by (simp only: n)
    show "Q ((acc @ [x]) @ xs) (i + ?l + length ?cs)" if "map erase xs = map erase ss" for xs
      using Cons.prems(7) [of "x # xs"] that \<open>erase x = erase s\<close> by (simp add: n)
  qed (use Cons.prems ts in auto)
  have body: "gets p i (parse_child ps acc) (\<lambda>(g, y) k. \<exists>x. erase x = erase s \<and> g \<and> y = acc @ [x] \<and> k = i + ?l)"
    unfolding parse_child_def
    using Cons.prems(1) ts(1) pk(2) fol
    by (intro gets_sbind gets_mono [OF Cons.prems(8) [of s i]] gets_sret) auto
  have "i + ?l \<le> ps_token_count p" using pk(2) by (simp add: pok_def)
  then show ?case
    by (intro gets_pwhile_step [OF test [OF pk(1) start]] gets_mono [OF body]) (use rest len in auto)
qed

lemma reads_stmtI:
  assumes "\<And>p i m. ps_token_count p - i \<le> Suc m \<Longrightarrow> toks_at p i (prs s) \<Longrightarrow> pok p i \<Longrightarrow> pok p (i + length (prs s)) \<Longrightarrow>
     follows s (tok p (i + length (prs s))) \<Longrightarrow>
     gets p i (stmt_dispatch (parser_parse_expr (Suc m)) (parser_parse_stmt m) (lt_type (tok p i)))
       (\<lambda>(x, semicolon) j. (if semicolon then lt_type (tok p j) = T_SEMICOLON \<and> i + length (prs s) = Suc j
                            else i + length (prs s) = j) \<and> erase x = erase s)"
  shows "reads_stmt s"
  unfolding reads_stmt_def parser_parse_stmt.simps
proof (intro allI impI gets_stmt_body)
  fix p i m
  assume h: "ps_token_count p - i \<le> Suc m" "toks_at p i (prs s)" "pok p (i + length (prs s))"
    "follows s (tok p (i + length (prs s)))"
  show "pok p i" "pok p (i + length (prs s))" using h(3) by (auto elim: pok_le)
  show "lt_type (tok p (i + length (prs s))) \<noteq> T_SEMICOLON" using h(4) by (simp add: follows_def)
  show "gets p i (stmt_dispatch (parser_parse_expr (Suc m)) (parser_parse_stmt m) (lt_type (tok p i)))
     (\<lambda>(x, semicolon) j. (if semicolon then lt_type (tok p j) = T_SEMICOLON \<and> i + length (prs s) = Suc j
        else i + length (prs s) = j) \<and> i + length (prs s) = i + length (prs s) \<and> erase x = erase s)"
    using assms [OF h(1,2) \<open>pok p i\<close> h(3,4)] by simp
qed

lemma reads_0: "expr_ok e \<Longrightarrow> reads 0 e"
  using reads_everything [of e] by (simp add: reads_all_def)

lemma reads_expr_stmt:
  assumes "expr_ok e" "prs e = pr 0 e @ [(T_SEMICOLON, '';'')]"
  shows "reads_stmt e"
proof (rule reads_stmtI)
  fix p i m
  let ?n = "length (pr 0 e)"
  assume h: "ps_token_count p - i \<le> Suc m" "toks_at p i (prs e)" "pok p (i + length (prs e))"
  have t: "toks_at p i (pr 0 e)" "lt_type (tok p (i + ?n)) = T_SEMICOLON" using h(2) by (simp_all add: assms(2))
  have "lt_type (tok p i) \<in> expr_starts" using expr_start_type [OF assms(1), of p i 0 "[]"] t(1) by simp
  moreover have pk: "pok p (i + ?n)" using h(3) by (auto simp: assms(2) elim: pok_le)
  moreover have "stops 0 (tok p (i + ?n))" using t(2) by (intro stops_close) simp
  ultimately show "gets p i (stmt_dispatch (parser_parse_expr (Suc m)) (parser_parse_stmt m) (lt_type (tok p i)))
       (\<lambda>(x, semicolon) j. (if semicolon then lt_type (tok p j) = T_SEMICOLON \<and> i + length (prs e) = Suc j
                            else i + length (prs e) = j) \<and> erase x = erase e)"
    using h(1) t
    by (auto simp: stmt_dispatch_def expr_starts_def assms(2) simp del: parser_parse_expr.simps
        intro!: gets_sbind gets_expr [OF reads_0 [OF assms(1)]] gets_sret)
qed

lemma reads_var_decl:
  assumes "stmt_ok (NODE_VAR_DECL l s c v)"
  shows "reads_stmt (NODE_VAR_DECL l s c v)"
proof (rule reads_stmtI)
  fix p i m
  let ?s = "NODE_VAR_DECL l s c v"
  assume h: "ps_token_count p - i \<le> Suc m" "toks_at p i (prs ?s)" "pok p (i + length (prs ?s))"
  have pk: "pok p i" "pok p (Suc i)" using h(3) by (auto elim!: pok_le)
  have t: "lt_type (tok p i) = (if c then T_CONST else T_VAR)" "lt_type (tok p (Suc i)) = T_IDENTIFIER"
    "lt_value (tok p (Suc i)) = s" using h(2) by (cases c; simp)+
  show "gets p i (stmt_dispatch (parser_parse_expr (Suc m)) (parser_parse_stmt m) (lt_type (tok p i)))
       (\<lambda>(x, semicolon) j. (if semicolon then lt_type (tok p j) = T_SEMICOLON \<and> i + length (prs ?s) = Suc j
                            else i + length (prs ?s) = j) \<and> erase x = erase ?s)"
  proof (cases v)
    case None
    then have "pok p (Suc (Suc i))" "lt_type (tok p (Suc (Suc i))) = T_SEMICOLON" "\<not> c"
      using h(2,3) assms by (auto elim!: pok_le)
    then show ?thesis using None pk t
      by (auto simp: stmt_dispatch_def parser_parse_var_decl_def Let_def
          intro!: gets_sbind gets_at_type gets_ret_forward gets_expect gets_filename gets_parser_at gets_sret)
  next
    case (Some e)
    let ?n = "length (pr 0 e)"
    have e: "expr_ok e" using assms Some by simp
    have "pok p (Suc (Suc i))" "lt_type (tok p (Suc (Suc i))) = T_ASSIGNMENT" "toks_at p (Suc (Suc (Suc i))) (pr 0 e)"
      "lt_type (tok p (Suc (Suc (Suc i)) + ?n)) = T_SEMICOLON" "pok p (Suc (Suc (Suc i)) + ?n)"
      using h(2,3) Some by (auto elim!: pok_le)
    moreover have "stops 0 (tok p (Suc (Suc (Suc i)) + ?n))" using calculation(4) by (intro stops_close) simp
    moreover have "ps_token_count p - Suc (Suc (Suc i)) \<le> Suc m" using h(1) by simp
    ultimately show ?thesis using Some pk t
      by (auto simp: stmt_dispatch_def parser_parse_var_decl_def Let_def simp del: parser_parse_expr.simps
          intro!: gets_sbind gets_at_type gets_ret_forward gets_expect gets_filename gets_parser_at gets_sret
            gets_expr [OF reads_0 [OF e]])
  qed
qed

text \<open>The statements between two braces.\<close>

lemma gets_braced:
  assumes "\<And>s. s \<in> set ss \<Longrightarrow> reads_stmt s \<and> stmt_ok s" "ps_token_count p - i \<le> m"
    "toks_at p i (concat (map prs ss))" "lt_type (tok p (i + length (concat (map prs ss)))) = T_BLOCK_BRACE_CLOSE"
    "pok p (i + length (concat (map prs ss)))"
  shows "gets p i (pwhile (not_eof_nor T_BLOCK_BRACE_CLOSE) (parse_child (parser_parse_stmt m)) [])
     (\<lambda>xs j. map erase xs = map erase ss \<and> j = i + length (concat (map prs ss)))"
proof (rule gets_children [where i = i and ss = ss and n = "length (concat (map prs ss))"])
  show "gets p j (parser_parse_stmt m) (\<lambda>x k. k = j + length (prs s) \<and> erase x = erase s)"
    if "s \<in> set ss" "i \<le> j" "toks_at p j (prs s)" "pok p (j + length (prs s))" "follows s (tok p (j + length (prs s)))" for s j
    using that assms(1) [OF that(1)] assms(2) by (intro gets_stmt) auto
  show "\<forall>s \<in> set ss. stmt_ok s" using assms(1) by simp
  show "gets p j (not_eof_nor T_BLOCK_BRACE_CLOSE) (\<lambda>b k. b \<and> k = j)"
    if "pok p j" "lt_type (tok p j) \<in> stmt_starts" for j
    using that by (intro gets_not_eof_nor) (auto simp: stmt_starts_def expr_starts_def)
qed (use assms in \<open>auto intro: gets_not_eof_nor\<close>)

lemma reads_block:
  assumes "\<And>s. s \<in> set ss \<Longrightarrow> reads_stmt s \<and> stmt_ok s"
  shows "reads_stmt (NODE_BLOCK l ss)"
proof (rule reads_stmtI)
  fix p i m
  let ?s = "NODE_BLOCK l ss" and ?n = "length (concat (map prs ss))"
  assume h: "ps_token_count p - i \<le> Suc m" "toks_at p i (prs ?s)" "pok p i" "pok p (i + length (prs ?s))"
  have t: "lt_type (tok p i) = T_BLOCK_BRACE_OPEN" "toks_at p (Suc i) (concat (map prs ss))"
    "lt_type (tok p (Suc i + ?n)) = T_BLOCK_BRACE_CLOSE" "pok p (Suc i + ?n)"
    using h(2,4) by (auto elim!: pok_le)
  have b: "gets p (Suc i) (pwhile (not_eof_nor T_BLOCK_BRACE_CLOSE) (parse_child (parser_parse_stmt m)) [])
     (\<lambda>xs j. map erase xs = map erase ss \<and> j = Suc i + ?n)"
    using assms t h(1) by (intro gets_braced) auto
  show "gets p i (stmt_dispatch (parser_parse_expr (Suc m)) (parser_parse_stmt m) (lt_type (tok p i)))
       (\<lambda>(x, semicolon) j. (if semicolon then lt_type (tok p j) = T_SEMICOLON \<and> i + length (prs ?s) = Suc j
                            else i + length (prs ?s) = j) \<and> erase x = erase ?s)"
    using t h(3)
    by (auto simp: stmt_dispatch_def parser_parse_block_def
        intro!: gets_sbind gets_expect gets_sret gets_mono [OF b])
qed

lemma gets_parameters:
  assumes "toks_at p i (commas (map (\<lambda>s. [(T_IDENTIFIER, s)]) ps))"
    "lt_type (tok p (i + length (commas (map (\<lambda>s. [(T_IDENTIFIER, s)]) ps)))) = T_PAREN_CLOSE"
    "pok p (i + length (commas (map (\<lambda>s. [(T_IDENTIFIER, s)]) ps)))"
  shows "gets p i (pwhile (not_eof_nor T_PAREN_CLOSE) parse_parameter [])
     (\<lambda>xs j. xs = ps \<and> j = i + length (commas (map (\<lambda>s. [(T_IDENTIFIER, s)]) ps)))"
proof (rule gets_comma_list [where pt = "\<lambda>s. [(T_IDENTIFIER, s)]" and es = ps and i = i and R = "(=)"
      and n = "length (commas (map (\<lambda>s. [(T_IDENTIFIER, s)]) ps))"])
  show "reads_item p T_PAREN_CLOSE (\<lambda>s. [(T_IDENTIFIER, s)]) (=) parse_parameter j s"
    if "toks_at p j [(T_IDENTIFIER, s)]" "pok p (j + length [(T_IDENTIFIER, s)])"
      "lt_type (tok p (j + length [(T_IDENTIFIER, s)])) \<in> {T_COMMA, T_PAREN_CLOSE}" for s j
    using that pok_le [of p "Suc j" j] unfolding reads_item_def parse_parameter_def
    by (auto intro!: gets_sbind gets_expect gets_at_type gets_sret)
qed (use assms in \<open>auto simp: list.rel_eq\<close>)

lemma reads_fn_decl:
  assumes "\<And>s. s \<in> set ss \<Longrightarrow> reads_stmt s \<and> stmt_ok s"
  shows "reads_stmt (NODE_FN_DECL l f ps ss)"
proof (rule reads_stmtI)
  fix p i m
  let ?s = "NODE_FN_DECL l f ps ss" and ?n = "length (concat (map prs ss))"
  let ?ps = "commas (map (\<lambda>s. [(T_IDENTIFIER, s)]) ps)"
  let ?j = "Suc (Suc (Suc i))" let ?k = "Suc (Suc (?j + length ?ps))"
  assume h: "ps_token_count p - i \<le> Suc m" "toks_at p i (prs ?s)" "pok p i" "pok p (i + length (prs ?s))"
  have t: "lt_type (tok p i) = T_FUNCTION" "lt_type (tok p (Suc i)) = T_IDENTIFIER" "lt_value (tok p (Suc i)) = f"
    "lt_type (tok p (Suc (Suc i))) = T_PAREN_OPEN" "toks_at p ?j ?ps"
    "lt_type (tok p (?j + length ?ps)) = T_PAREN_CLOSE" "lt_type (tok p (Suc (?j + length ?ps))) = T_BLOCK_BRACE_OPEN"
    "toks_at p ?k (concat (map prs ss))" "lt_type (tok p (?k + ?n)) = T_BLOCK_BRACE_CLOSE"
    using h(2) by (auto simp: add.assoc)
  have pk: "pok p (Suc i)" "pok p (Suc (Suc i))" "pok p (?j + length ?ps)" "pok p (Suc (?j + length ?ps))" "pok p (?k + ?n)"
    using h(4) by (auto elim!: pok_le)
  have b: "gets p ?k (pwhile (not_eof_nor T_BLOCK_BRACE_CLOSE) (parse_child (parser_parse_stmt m)) [])
     (\<lambda>xs j. map erase xs = map erase ss \<and> j = ?k + ?n)"
    using assms t pk h(1) by (intro gets_braced) auto
  show "gets p i (stmt_dispatch (parser_parse_expr (Suc m)) (parser_parse_stmt m) (lt_type (tok p i)))
       (\<lambda>(x, semicolon) j. (if semicolon then lt_type (tok p j) = T_SEMICOLON \<and> i + length (prs ?s) = Suc j
                            else i + length (prs ?s) = j) \<and> erase x = erase ?s)"
    using t pk h(3)
    by (auto simp: stmt_dispatch_def parser_parse_fn_decl_def
        intro!: gets_sbind gets_expect gets_filename gets_sret gets_mono [OF gets_parameters] gets_mono [OF b])
qed

lemma reads_if:
  assumes c: "expr_ok c" and t: "reads_stmt t" "stmt_ok t"
    and e: "\<And>n. e = Some n \<Longrightarrow> reads_stmt n \<and> stmt_ok n \<and> \<not> ends_open t"
  shows "reads_stmt (NODE_IF_STMT l c t e)"
proof (rule reads_stmtI)
  fix p i m
  let ?s = "NODE_IF_STMT l c t e"
  let ?j = "Suc (Suc i)" let ?k = "Suc (?j + length (pr 0 c))" let ?l = "?k + length (prs t)"
  assume h: "ps_token_count p - i \<le> Suc m" "toks_at p i (prs ?s)" "pok p i" "pok p (i + length (prs ?s))"
    "follows ?s (tok p (i + length (prs ?s)))"
  have ts: "lt_type (tok p i) = T_IF" "lt_type (tok p (Suc i)) = T_PAREN_OPEN" "toks_at p ?j (pr 0 c)"
    "lt_type (tok p (?j + length (pr 0 c))) = T_PAREN_CLOSE" "toks_at p ?k (prs t)"
    using h(2) by (auto simp: add.assoc)
  have pk: "pok p (Suc i)" "pok p (?j + length (pr 0 c))" "pok p ?l"
    using h(4) by (auto elim!: pok_le)
  have "ps_token_count p - Suc (Suc i) \<le> Suc m" using h(1) by simp
  have st: "stops 0 (tok p (?j + length (pr 0 c)))" using ts(4) by (intro stops_close) simp
  show "gets p i (stmt_dispatch (parser_parse_expr (Suc m)) (parser_parse_stmt m) (lt_type (tok p i)))
       (\<lambda>(x, semicolon) j. (if semicolon then lt_type (tok p j) = T_SEMICOLON \<and> i + length (prs ?s) = Suc j
                            else i + length (prs ?s) = j) \<and> erase x = erase ?s)"
  proof (cases e)
    case None
    have "i + length (prs ?s) = ?l" using None by simp
    then have "lt_type (tok p ?l) \<noteq> T_ELSE" "follows t (tok p ?l)" using h(5) None by (simp_all add: follows_def add.assoc)
    then show ?thesis
      using None ts pk st h(1,3)
      by (auto simp: stmt_dispatch_def parser_parse_if_def simp del: parser_parse_expr.simps
          intro!: gets_sbind gets_at_type gets_expect gets_sret gets_expr [OF reads_0 [OF c]] gets_stmt [OF t(1)])
  next
    case (Some n)
    have el: "lt_type (tok p ?l) = T_ELSE" "toks_at p (Suc ?l) (prs n)" "i + length (prs ?s) = Suc ?l + length (prs n)"
      using h(2) Some by (simp_all add: add.assoc)
    then have "follows t (tok p ?l)" using e [OF Some] by (simp add: follows_def)
    moreover have "follows n (tok p (Suc ?l + length (prs n)))" "pok p (Suc ?l + length (prs n))"
      using h(4,5) el(3) Some by (simp_all add: follows_def add.assoc)
    note fl = this
    moreover have "gets p ?k (parser_parse_stmt m) (\<lambda>x j. erase x = erase t \<and> j = ?l)"
      using h(1) pk(3) ts(5) \<open>follows t (tok p ?l)\<close> by (intro gets_stmt [OF t(1)]) auto
    moreover have "gets p (Suc ?l) (parser_parse_stmt m) (\<lambda>x j. erase x = erase n \<and> j = Suc ?l + length (prs n))"
      using h(1) fl el(2) by (intro gets_stmt [OF conjunct1 [OF e [OF Some]]]) auto
    ultimately show ?thesis
      using Some ts pk st el \<open>ps_token_count p - Suc (Suc i) \<le> Suc m\<close> h(3)
      by (auto simp: stmt_dispatch_def parser_parse_if_def add.assoc simp del: parser_parse_expr.simps
          intro!: gets_sbind gets_at_type gets_expect gets_sret gets_expr [OF reads_0 [OF c]] elim!: gets_mono)
  qed
qed

lemma gets_init_node: "pok p i \<Longrightarrow> (\<And>l. Q l i) \<Longrightarrow> gets p i init_node Q"
  unfolding init_node_def by (intro gets_sbind gets_parser_at gets_filename gets_sret)

lemma reads_loop:
  assumes ok: "stmt_ok (NODE_LOOP_STMT l n v b)" and b: "reads_stmt b"
  shows "reads_stmt (NODE_LOOP_STMT l n v b)"
proof (rule reads_stmtI)
  fix p i m
  let ?s = "NODE_LOOP_STMT l n v b"
  let ?h = "case n of None \<Rightarrow> (case v of None \<Rightarrow> [] | Some s \<Rightarrow> [(T_IDENTIFIER, s)])
     | Some e \<Rightarrow> (T_PAREN_OPEN, ''('') # pr 0 e
          @ (case v of None \<Rightarrow> [] | Some s \<Rightarrow> [(T_AS, ''as''), (T_IDENTIFIER, s)]) @ [(T_PAREN_CLOSE, '')'')]"
  let ?k = "Suc i + length ?h"
  assume h: "ps_token_count p - i \<le> Suc m" "toks_at p i (prs ?s)" "pok p i" "pok p (i + length (prs ?s))"
    "follows ?s (tok p (i + length (prs ?s)))"
  have ts: "lt_type (tok p i) = T_LOOP" "toks_at p (Suc i) ?h" "toks_at p ?k (prs b)"
    using h(2) by (auto simp: add.assoc)
  have len: "i + length (prs ?s) = ?k + length (prs b)" by simp
  have pk: "pok p (Suc i)" "pok p ?k" "pok p (?k + length (prs b))" using h(4) by (auto simp: len elim!: pok_le)
  have fol: "follows b (tok p (?k + length (prs b)))" using h(5) by (simp only: len) (simp add: follows_def)
  have sb: "stmt_ok b" using ok by simp
  have start: "lt_type (tok p ?k) = fst (hd (prs b))" "lt_type (tok p ?k) \<in> stmt_starts"
    using start_type [OF sb, of p ?k "[]"] ts(3) by simp_all
  have body: "gets p ?k (parser_parse_stmt m) (\<lambda>x j. erase x = erase b \<and> j = ?k + length (prs b))"
    using ts(3) pk fol h(1) by (intro gets_stmt [OF b]) auto
  show "gets p i (stmt_dispatch (parser_parse_expr (Suc m)) (parser_parse_stmt m) (lt_type (tok p i)))
       (\<lambda>(x, semicolon) j. (if semicolon then lt_type (tok p j) = T_SEMICOLON \<and> i + length (prs ?s) = Suc j
                            else i + length (prs ?s) = j) \<and> erase x = erase ?s)"
  proof (cases n)
    case None
    define k where "k = ?k"
    note body' = body [folded k_def]
    have "k = (if v = None then Suc i else Suc (Suc i))" using None by (auto simp: k_def split: option.splits)
    then show ?thesis
      using None ts(1,2) pk [folded k_def] h(3) start [folded k_def] body' ok
      by (cases v)
         (auto simp: stmt_dispatch_def parser_parse_loop_stmt_def
          intro!: gets_sbind gets_init_node gets_at_type gets_expect gets_sret gets_parser_at elim!: gets_mono)
  next
    case (Some e)
    have e: "expr_ok e" using ok Some by simp
    let ?j = "Suc (Suc i)"
    have x: "lt_type (tok p (Suc i)) = T_PAREN_OPEN" "toks_at p ?j (pr 0 e)" "pok p (?j + length (pr 0 e))"
      using ts(2) pk(2) Some by (auto elim!: pok_le)
    have ct: "ps_token_count p - Suc (Suc i) \<le> Suc m" using h(1) by simp
    have st: "stops 0 (tok p (?j + length (pr 0 e)))"
      using ts(2) Some by (intro stops_close) (auto split: option.splits)
    show ?thesis
    proof (cases v)
      case None
      then have y: "lt_type (tok p (?j + length (pr 0 e))) = T_PAREN_CLOSE" "?k = Suc (?j + length (pr 0 e))"
        using ts(2) Some by auto
      show ?thesis
        using None Some ts(1) x st y pk ct h(3) start body [unfolded y(2)] ok
        by (auto simp: stmt_dispatch_def parser_parse_loop_stmt_def add.assoc simp del: parser_parse_expr.simps
            intro!: gets_sbind gets_init_node gets_at_type gets_expect gets_sret gets_parser_at
              gets_expr [OF reads_0 [OF e]] elim!: gets_mono)
    next
      case (Some w)
      note v = this
      let ?a = "?j + length (pr 0 e)"
      have y: "lt_type (tok p ?a) = T_AS" "lt_type (tok p (Suc ?a)) = T_IDENTIFIER" "lt_value (tok p (Suc ?a)) = w"
        "lt_type (tok p (Suc (Suc ?a))) = T_PAREN_CLOSE" "?k = Suc (Suc (Suc ?a))"
        using ts(2) v \<open>n = Some e\<close> by auto
      have z: "pok p (Suc ?a)" "pok p (Suc (Suc ?a))" using pk(2) [unfolded y(5)] by (auto elim!: pok_le)
      show ?thesis
        using v \<open>n = Some e\<close> ts(1) x st y z pk ct h(3) start body [unfolded y(5)] ok
        by (auto simp: stmt_dispatch_def parser_parse_loop_stmt_def add.assoc simp del: parser_parse_expr.simps
            intro!: gets_sbind gets_init_node gets_at_type gets_expect gets_sret gets_parser_at
              gets_expr [OF reads_0 [OF e]] elim!: gets_mono)
    qed
  qed
qed

lemma reads_every_stmt: "stmt_ok s \<Longrightarrow> reads_stmt s"
proof (induction s rule: stmt_ok.induct)
  case (1 l s c v)
  then show ?case by (rule reads_var_decl)
next
  case (2 l f ps body)
  then show ?case by (intro reads_fn_decl) auto
next
  case (3 l ns)
  then show ?case by (intro reads_block) auto
next
  case (4 l c t e)
  then show ?case by (intro reads_if) (auto split: option.splits)
next
  case (5 l n v b)
  then show ?case by (intro reads_loop) auto
qed (auto intro!: reads_expr_stmt)

section \<open>Programs\<close>

definition print_program :: "ast_node list \<Rightarrow> ktok list" where
  "print_program ss = concat (map prs ss)"

lemma toks_at_map: "toks_at p i ks \<longleftrightarrow> (\<forall>j < length ks. lt_type (tok p (i + j)) = fst (ks ! j) \<and> lt_value (tok p (i + j)) = snd (ks ! j))"
proof (induction p i ks rule: toks_at.induct)
  case (2 p i t v ks)
  then show ?case by (auto simp: less_Suc_eq_0_disj nth_Cons split: nat.splits)
qed simp

lemma gets_program:
  assumes "pok p 0" "ps_token_count p = Suc (length (print_program ss))" "toks_at p 0 (print_program ss)"
    "lt_type (tok p (length (print_program ss))) = T_EOF" "\<forall>s \<in> set ss. stmt_ok s" "ps_index p = 0"
  shows "gets p 0 parser_create_ast_node (\<lambda>x j. erase x = NODE_ROOT no_loc (map erase ss))"
proof -
  have fuel: "token_rounds (p\<lparr> ps_index := 0 \<rparr>) = Suc (ps_token_count p)" by (simp add: token_rounds_def)
  have pk: "pok p (length (print_program ss))" using assms(1,2) by (simp add: pok_def)
  have loop: "gets p 0 (pwhile not_eof (parse_child (parser_parse_stmt (Suc (ps_token_count p)))) [])
     (\<lambda>xs j. map erase xs = map erase ss)"
  proof (rule gets_children [where i0 = 0 and i = 0 and ss = ss and n = "length (print_program ss)"])
    show "gets p j (parser_parse_stmt (Suc (ps_token_count p))) (\<lambda>x k. k = j + length (prs s) \<and> erase x = erase s)"
      if "s \<in> set ss" "0 \<le> j" "toks_at p j (prs s)" "pok p (j + length (prs s))" "follows s (tok p (j + length (prs s)))" for s j
      using that assms(5) by (intro gets_stmt reads_every_stmt) auto
    show "gets p j not_eof (\<lambda>b k. b \<and> k = j)" if "pok p j" "lt_type (tok p j) \<in> stmt_starts" for j
      using that unfolding not_eof_def
      by (intro gets_sbind gets_is_eof gets_sret) (auto simp: stmt_starts_def expr_starts_def)
    show "gets p (0 + length (print_program ss)) not_eof (\<lambda>b k. \<not> b \<and> k = 0 + length (print_program ss))"
      using pk assms(4) unfolding not_eof_def by (intro gets_sbind gets_is_eof gets_sret) auto
  qed (use assms pk in \<open>auto simp: print_program_def\<close>)
  show ?thesis
    unfolding parser_create_ast_node_def
    by (intro gets_sbind gets_sget, unfold fuel, intro gets_mono [OF loop] gets_sbind gets_sget gets_sret) simp
qed

section \<open>Properties\<close>

text \<open>
  C11. Round trip of the front end: a program printed as source text, with only the parentheses that
  precedence and left associativity require, is lexed and parsed back to the same program, source
  locations aside. The condition on the statements excludes what the text cannot express: a
  constant without a value, an \<^verbatim>\<open>else\<close> that another \<^verbatim>\<open>if\<close> would take, and a loop
  body that begins with an identifier.
\<close>

theorem parse_source_print:
  assumes ok: "\<forall>s \<in> set ss. stmt_ok s" and pr: "printable_tokens (print_program ss)"
  shows "case parse_source filename (unlex (print_program ss)) of
     Inl e \<Rightarrow> False | Inr node \<Rightarrow> erase node = NODE_ROOT no_loc (map erase ss)"
proof -
  obtain us e where l: "run_lexer filename (unlex (print_program ss)) = Inr (us @ [e])"
    "map (\<lambda>u. (lt_type u, lt_value u)) us = print_program ss" "lt_type e = T_EOF"
    using lex_spec_unlex [OF pr, of "(1, 1)"] no_nul_unlex [OF pr] by (auto simp: run_lexer_spec c_string_id)
  then obtain b l where a: "lex_analyze (lex_init filename (unlex (print_program ss))) = Inr (b, l)" "lex_tokens l = us @ [e]"
    by (auto simp: run_lexer_def lex_get_tokens_def rbind_eq_Inr)
  let ?p = "parser_init_from_lex l"
  have len: "length us = length (print_program ss)" using l(2) by (metis length_map)
  have "tokens_ok (us @ [e])"
    using l(1) by (simp add: run_lexer_spec lex_spec_tokens_ok)
  then have p: "pok ?p 0" "ps_tokens ?p = us @ [e]" "ps_token_count ?p = Suc (length (print_program ss))" "ps_index ?p = 0"
    using a(2) len by (simp_all add: pok_def parser_init_from_lex_def parser_init_def lex_get_tokens_def lex_get_token_count_def)
  have tok: "lt_type (tok ?p j) = fst (print_program ss ! j) \<and> lt_value (tok ?p j) = snd (print_program ss ! j)"
    if "j < length (print_program ss)" for j
    using that len arg_cong [OF l(2), of "\<lambda>ks. ks ! j"] by (simp add: p(2) nth_append prod_eq_iff)
  have "gets ?p 0 parser_create_ast_node (\<lambda>x j. erase x = NODE_ROOT no_loc (map erase ss))"
    by (rule gets_program) (use p tok len l(3) ok in \<open>auto simp: toks_at_map nth_append\<close>)
  moreover have "?p\<lparr> ps_index := 0 \<rparr> = ?p" using p(4) by simp
  ultimately show ?thesis using a(1) by (auto simp: gets_def parse_source_def)
qed

definition sample_program :: "ast_node list" where
  "sample_program =
     [NODE_VAR_DECL no_loc ''x'' False (Some (NODE_BINARY_EXPR no_loc OP_TIMES
        (NODE_BINARY_EXPR no_loc OP_PLUS (NODE_INT_LIT no_loc 1) (NODE_INT_LIT no_loc 2)) (NODE_INT_LIT no_loc 3))),
      NODE_LOOP_STMT no_loc (Some (NODE_IDENTIFIER no_loc ''x'')) (Some ''i'') (NODE_BLOCK no_loc
        [NODE_IF_STMT no_loc (NODE_BINARY_EXPR no_loc OP_CMP_LT (NODE_IDENTIFIER no_loc ''i'') (NODE_INT_LIT no_loc 4))
           (NODE_EXPR_CALL no_loc ''println'' [NODE_IDENTIFIER no_loc ''i'', NODE_STRING no_loc ''small''])
           (Some (NODE_ASSIGNMENT no_loc (NODE_IDENTIFIER no_loc ''x'') (NODE_INT_LIT no_loc 0)))])]"

lemma parse_source_print_witness:
  "case parse_source ''a.bl'' (unlex (print_program sample_program)) of
     Inl e \<Rightarrow> False | Inr node \<Rightarrow> erase node = NODE_ROOT no_loc (map erase sample_program)"
  by (rule parse_source_print) code_simp+

end
