(* ===== verification/Probing.thy ===== *)
theory Probing
  imports Prelude
begin

text \<open>
  The open-addressing hash tables of src/valmap.c and src/map.c: the hash function, the search
  both files repeat, and what the search finds in a table every key of which can be reached.
\<close>

section \<open>The hash and the search\<close>

definition FNV_OFFSET_BASIS :: u64 where
  "FNV_OFFSET_BASIS = 0xcbf29ce484222325"

definition FNV_PRIME :: u64 where
  "FNV_PRIME = 0x100000001b3"

text \<open>\<^verbatim>\<open>char\<close> is signed: a byte above 127 is extended with ones.\<close>

definition hash_step :: "u64 \<Rightarrow> char \<Rightarrow> u64" where
  "hash_step hash c = (hash XOR scast (of_nat (of_char c) :: u8)) * FNV_PRIME"

text \<open>
  The loops go from index to index until a free slot or the key is met. They have no other exit:
  \<open>n\<close> counts the slots still to visit, and a search that has visited all of them goes on for
  ever.
\<close>

fun probe :: "('e \<Rightarrow> string) \<Rightarrow> nat \<Rightarrow> 'e option list \<Rightarrow> nat \<Rightarrow> string \<Rightarrow> nat \<Rightarrow> nat res" where
  "probe kf 0 array capacity key index = Inl Out_of_fuel"
| "probe kf (Suc n) array capacity key index =
     (if index < length array
      then (case array ! index of
              None \<Rightarrow> Inr index
            | Some e \<Rightarrow> if kf e = key then Inr index
                else probe kf n array capacity key (if index + 1 \<ge> capacity then 0 else index + 1))
      else Inl (Undefined ''hash table over-read''))"

section \<open>What the search finds\<close>

text \<open>The search stops at a slot that is free or holds the key.\<close>

definition halts_at :: "('e \<Rightarrow> string) \<Rightarrow> 'e option list \<Rightarrow> string \<Rightarrow> nat \<Rightarrow> bool" where
  "halts_at kf a k j \<longleftrightarrow> (case a ! j of None \<Rightarrow> True | Some e \<Rightarrow> kf e = k)"

text \<open>Slot \<open>j\<close> is the first such slot from \<open>i\<close> on, \<open>d\<close> slots further.\<close>

definition first_halt :: "('e \<Rightarrow> string) \<Rightarrow> 'e option list \<Rightarrow> string \<Rightarrow> nat \<Rightarrow> nat \<Rightarrow> bool" where
  "first_halt kf a k i d \<longleftrightarrow> d < length a \<and> halts_at kf a k ((i + d) mod length a)
     \<and> (\<forall>d' < d. \<not> halts_at kf a k ((i + d') mod length a))"

lemma next_index: "i < length a \<Longrightarrow> (if i + 1 \<ge> length a then 0 else i + 1) = Suc i mod length a"
  by (auto simp: le_Suc_eq)

lemma probe_step:
  "i < length a \<Longrightarrow> probe kf (Suc n) a (length a) k i =
     (if halts_at kf a k i then Inr i else probe kf n a (length a) k (Suc i mod length a))"
proof -
  assume "i < length a"
  then show ?thesis by (simp only: probe.simps next_index) (simp add: halts_at_def split: option.splits)
qed

declare probe.simps(2) [simp del]

lemma probe_finds:
  "i < length a \<Longrightarrow> \<forall>d' < d. \<not> halts_at kf a k ((i + d') mod length a) \<Longrightarrow>
   halts_at kf a k ((i + d) mod length a) \<Longrightarrow> d < n \<Longrightarrow>
   probe kf n a (length a) k i = Inr ((i + d) mod length a)"
proof (induction d arbitrary: i n)
  case 0
  then show ?case by (cases n) (simp_all add: probe_step)
next
  case (Suc d)
  then obtain m where n: "n = Suc m" "d < m" by (cases n) auto
  have "\<not> halts_at kf a k i" using Suc.prems(1,2) by force
  moreover have "probe kf m a (length a) k (Suc i mod length a) = Inr ((Suc i mod length a + d) mod length a)"
  proof (rule Suc.IH)
    show "Suc i mod length a < length a" using Suc.prems(1) by (cases a) simp_all
    show "\<forall>d'<d. \<not> halts_at kf a k ((Suc i mod length a + d') mod length a)"
      using Suc.prems(2) by (auto simp: mod_add_left_eq dest: spec [of _ "Suc _"])
  qed (use Suc.prems n in \<open>simp_all add: mod_add_left_eq\<close>)
  ultimately show ?case
    using Suc.prems(1) n by (simp add: probe_step mod_add_left_eq)
qed

lemma probe_first_halt:
  assumes "first_halt kf a k i d" "i < length a" "length a \<le> n"
  shows "probe kf n a (length a) k i = Inr ((i + d) mod length a)"
  using assms unfolding first_halt_def by (intro probe_finds) auto

lemma slot_reached:
  assumes "i < (n::nat)" "j < n" shows "\<exists>d < n. (i + d) mod n = j"
proof (cases "i \<le> j")
  case True
  then show ?thesis using assms by (intro exI [of _ "j - i"]) auto
next
  case False
  have "i + (j + n - i) = j + n" using assms False by simp
  then show ?thesis using assms False by (intro exI [of _ "j + n - i"]) auto
qed

lemma first_halt_exists:
  assumes "i < length a" "j < length a" "halts_at kf a k j"
  shows "\<exists>d. first_halt kf a k i d"
proof -
  let ?P = "\<lambda>d. d < length a \<and> halts_at kf a k ((i + d) mod length a)"
  obtain d where "?P d" using slot_reached [OF assms(1,2)] assms(3) by auto
  then obtain d where d: "?P d" "\<forall>d' < d. \<not> ?P d'" using exists_least_iff [of ?P] by blast
  then have "first_halt kf a k i d"
    unfolding first_halt_def by (metis order.strict_trans)
  then show ?thesis ..
qed

text \<open>With a free slot in the table the search ends.\<close>

lemma probe_ends:
  assumes "i < length a" "None \<in> set a" "length a \<le> n"
  shows "\<exists>d. first_halt kf a k i d \<and> probe kf n a (length a) k i = Inr ((i + d) mod length a)"
proof -
  obtain j where "j < length a" "a ! j = None" using assms(2) by (auto simp: in_set_conv_nth)
  then obtain d where "first_halt kf a k i d"
    using first_halt_exists [of i a j kf k] assms(1) by (auto simp: halts_at_def)
  with probe_first_halt [OF this assms(1,3)] show ?thesis by blast
qed

text \<open>Without one, the search for a key that is not in the table never ends.\<close>

lemma probe_for_ever:
  "None \<notin> set a \<Longrightarrow> \<forall>e. Some e \<in> set a \<longrightarrow> kf e \<noteq> k \<Longrightarrow> i < length a \<Longrightarrow>
   probe kf n a (length a) k i = Inl Out_of_fuel"
proof (induction n arbitrary: i)
  case (Suc n)
  then have "a ! i \<in> set a" by simp
  with Suc.prems have "\<not> halts_at kf a k i" by (cases "a ! i") (auto simp: halts_at_def)
  moreover have "Suc i mod length a < length a" using Suc.prems(3) by (cases a) simp_all
  ultimately show ?case using Suc by (simp add: probe_step)
qed simp

section \<open>Tables every key of which can be reached\<close>

definition reachable :: "('e \<Rightarrow> string) \<Rightarrow> (string \<Rightarrow> nat) \<Rightarrow> 'e option list \<Rightarrow> bool" where
  "reachable kf h a \<longleftrightarrow> (\<forall>k. h k < length a) \<and>
     (\<forall>j < length a. \<forall>e. a ! j = Some e \<longrightarrow>
        (\<exists>d. first_halt kf a (kf e) (h (kf e)) d \<and> (h (kf e) + d) mod length a = j))"

text \<open>What a table holds.\<close>

definition table_map :: "('e \<Rightarrow> string) \<Rightarrow> 'e option list \<Rightarrow> string \<Rightarrow> 'e option" where
  "table_map kf a k = foldr (\<lambda>x r. case x of Some e \<Rightarrow> if kf e = k then Some e else r | None \<Rightarrow> r) a None"

definition occupied :: "'e option list \<Rightarrow> nat" where
  "occupied a = length (filter (\<lambda>x. x \<noteq> None) a)"

lemma table_map_simps [simp]:
  "table_map kf [] k = None" "table_map kf (None # a) k = table_map kf a k"
  "table_map kf (Some e # a) k = (if kf e = k then Some e else table_map kf a k)"
  by (simp_all add: table_map_def)

lemma table_map_None: "table_map kf a k = None \<longleftrightarrow> (\<forall>e. Some e \<in> set a \<longrightarrow> kf e \<noteq> k)"
  by (induction a) (auto split: option.splits simp: table_map_def)

lemma table_map_Some: "table_map kf a k = Some e \<Longrightarrow> Some e \<in> set a \<and> kf e = k"
  by (induction a) (auto split: option.splits if_splits simp: table_map_def)

lemma table_map_slot:
  assumes "table_map kf a k = Some e"
  obtains j where "j < length a" "a ! j = Some e" "kf e = k"
  using table_map_Some [OF assms] by (auto simp: in_set_conv_nth)

lemma first_halt_unique: "first_halt kf a k i d \<Longrightarrow> first_halt kf a k i d' \<Longrightarrow> d = d'"
  unfolding first_halt_def by (metis linorder_neqE_nat)

lemma reachableD:
  assumes "reachable kf h a" "j < length a" "a ! j = Some e"
  obtains d where "first_halt kf a (kf e) (h (kf e)) d" "(h (kf e) + d) mod length a = j"
  using assms unfolding reachable_def by blast

lemma reachable_unique:
  assumes "reachable kf h a" "j < length a" "j' < length a" "a ! j = Some e" "a ! j' = Some e'" "kf e = kf e'"
  shows "j = j'"
proof -
  obtain d where d: "first_halt kf a (kf e) (h (kf e)) d" "(h (kf e) + d) mod length a = j"
    using assms by (elim reachableD)
  obtain d' where d': "first_halt kf a (kf e) (h (kf e)) d'" "(h (kf e) + d') mod length a = j'"
    using assms(1,3,5) by (rule reachableD) (simp add: assms(6))
  show ?thesis using first_halt_unique [OF d(1) d'(1)] d(2) d'(2) by simp
qed

lemma table_map_nth:
  assumes "reachable kf h a" "j < length a" "a ! j = Some e"
  shows "table_map kf a (kf e) = Some e"
proof -
  have "Some e \<in> set a" using assms(2,3) by (metis nth_mem)
  then have "table_map kf a (kf e) \<noteq> None" by (auto simp: table_map_None)
  then obtain e' where e': "table_map kf a (kf e) = Some e'" by auto
  then obtain j' where j': "j' < length a" "a ! j' = Some e'" "kf e' = kf e"
    by (elim table_map_slot)
  have "j' = j" by (rule reachable_unique [OF assms(1) j'(1) assms(2) j'(2) assms(3) j'(3)])
  with j'(2) assms(3) e' show ?thesis by simp
qed

text \<open>The search from the hash of a key: it ends at the slot of the key, or at a free one.\<close>

lemma reachable_probe:
  assumes r: "reachable kf h a" and n: "length a \<le> n" and f: "None \<in> set a \<or> table_map kf a k \<noteq> None"
  obtains j where "probe kf n a (length a) k (h k) = Inr j" "j < length a" "a ! j = table_map kf a k"
proof -
  have h: "h k < length a" using r by (simp add: reachable_def)
  show ?thesis
  proof (cases "table_map kf a k")
    case None
    then have "None \<in> set a" using f by simp
    with probe_ends [OF h _ n, of kf k] obtain d where
      d: "first_halt kf a k (h k) d" "probe kf n a (length a) k (h k) = Inr ((h k + d) mod length a)" by auto
    have l: "(h k + d) mod length a < length a" using h by (cases a) simp_all
    have "a ! ((h k + d) mod length a) = None"
      using d(1) None nth_mem [OF l] by (auto simp: first_halt_def halts_at_def table_map_None split: option.splits)
    with that d(2) l None show ?thesis by simp
  next
    case (Some e)
    then obtain j where j: "j < length a" "a ! j = Some e" "kf e = k"
      by (elim table_map_slot)
    with r obtain d where "first_halt kf a k (h k) d" "(h k + d) mod length a = j"
      unfolding reachable_def by blast
    with that probe_first_halt [OF _ h n] j Some show ?thesis by metis
  qed
qed

lemma first_halt_update:
  assumes f: "first_halt kf a k i d" and j: "j < length a"
    and o: "\<And>d'. d' < d \<Longrightarrow> (i + d') mod length a = j \<Longrightarrow> kf e \<noteq> k"
    and h: "(i + d) mod length a = j \<Longrightarrow> kf e = k"
  shows "first_halt kf (a[j := Some e]) k i d"
  unfolding first_halt_def
proof (intro conjI allI impI)
  show "d < length (a[j := Some e])" using f by (simp add: first_halt_def)
  show "halts_at kf (a[j := Some e]) k ((i + d) mod length (a[j := Some e]))"
  proof (cases "(i + d) mod length a = j")
    case True
    then show ?thesis using h j by (simp add: halts_at_def)
  next
    case False
    then show ?thesis using f by (simp add: first_halt_def halts_at_def nth_list_update)
  qed
  fix d' assume "d' < d"
  then show "\<not> halts_at kf (a[j := Some e]) k ((i + d') mod length (a[j := Some e]))"
    using f o [of d'] j by (cases "(i + d') mod length a = j") (auto simp: first_halt_def halts_at_def)
qed

text \<open>A key is put into the slot where its search ends.\<close>

lemma reachable_put:
  assumes r: "reachable kf h a" and n: "length a \<le> n"
    and p: "probe kf n a (length a) (kf e) (h (kf e)) = Inr j" and f: "None \<in> set a \<or> table_map kf a (kf e) \<noteq> None"
  shows "reachable kf h (a[j := Some e])" (is ?R)
    and "table_map kf (a[j := Some e]) k = (if k = kf e then Some e else table_map kf a k)"
proof -
  let ?b = "a[j := Some e]"
  have j: "j < length a" "a ! j = table_map kf a (kf e)"
    using reachable_probe [OF r n f] p by (metis sum.inject(2))+
  have h: "h (kf e) < length a" using r by (simp add: reachable_def)
  have hj: "halts_at kf a (kf e) j"
    using j(2) table_map_Some [of kf a "kf e"] by (auto simp: halts_at_def split: option.splits)
  obtain d where d: "first_halt kf a (kf e) (h (kf e)) d" using first_halt_exists [OF h j(1) hj] ..
  with probe_first_halt [OF d h n] p have dj: "(h (kf e) + d) mod length a = j" by simp
  show R: ?R
    unfolding reachable_def
  proof (intro conjI allI impI)
    show "h k < length ?b" for k using r by (simp add: reachable_def)
    fix i x assume i: "i < length ?b" and x: "?b ! i = Some x"
    show "\<exists>d. first_halt kf ?b (kf x) (h (kf x)) d \<and> (h (kf x) + d) mod length ?b = i"
    proof (cases "i = j")
      case True
      with x j have "x = e" by simp
      moreover have "first_halt kf ?b (kf e) (h (kf e)) d"
        using d dj j(1) hj by (intro first_halt_update) (auto simp: first_halt_def)
      ultimately show ?thesis using dj True by auto
    next
      case False
      with i x have x': "a ! i = Some x" "i < length a" by simp_all
      then obtain dx where dx: "first_halt kf a (kf x) (h (kf x)) dx" "(h (kf x) + dx) mod length a = i"
        using r unfolding reachable_def by blast
      have "kf x \<noteq> kf e"
      proof
        assume "kf x = kf e"
        then have "a ! j = Some x" using table_map_nth [OF r x'(2,1)] j(2) by simp
        with reachable_unique [OF r x'(2) j(1) x'(1)] False show False by simp
      qed
      have "first_halt kf ?b (kf x) (h (kf x)) dx"
      proof (rule first_halt_update [OF dx(1) j(1)])
        show "kf e \<noteq> kf x" using \<open>kf x \<noteq> kf e\<close> by simp
        show "(h (kf x) + dx) mod length a = j \<Longrightarrow> kf e = kf x" using dx(2) False by simp
      qed
      then show ?thesis using dx(2) by auto
    qed
  qed
  have jb: "?b ! j = Some e" using j(1) by simp
  show "table_map kf ?b k = (if k = kf e then Some e else table_map kf a k)"
  proof (cases "k = kf e")
    case True
    then show ?thesis using table_map_nth [OF R _ jb] j(1) by simp
  next
    case False
    show ?thesis
    proof (cases "table_map kf a k")
      case None
      then have "Some x \<in> set ?b \<Longrightarrow> kf x \<noteq> k" for x
        using False set_update_subset_insert [of a j "Some e"] by (auto simp: table_map_None)
      then have "table_map kf ?b k = None" by (simp add: table_map_None)
      with None False show ?thesis by simp
    next
      case (Some x)
      then obtain i where i: "i < length a" "a ! i = Some x" "kf x = k"
        by (elim table_map_slot)
      then have "i \<noteq> j" using j(2) False table_map_Some [of kf a "kf e"] by auto
      then have "table_map kf ?b (kf x) = Some x" using i by (intro table_map_nth [OF R, of i]) simp_all
      then show ?thesis using Some i(3) False by simp
    qed
  qed
qed

end
