(* ===== verification/Valmap.thy ===== *)
theory Valmap
  imports Probing
begin

text \<open>
  The hash table of a scope, from names to values (src/valmap.c), and the map it implements.
  The operations are the ones that do not look into a value; those that free values follow the
  value heap, in theory Value\_Heap.
\<close>

section \<open>The table\<close>

record 'v valmap_entry =
  ve_key :: string
  ve_value :: 'v
  ve_is_const :: bool

text \<open>
  A slot whose key is NULL is \<open>None\<close>. \<open>vm_array_id\<close> tells the arrays of one table apart: a
  pointer to an entry is valid while the table still has the array it was taken from.
\<close>

record 'v valmap =
  vm_array :: "'v valmap_entry option list"
  vm_capacity :: nat
  vm_elements :: nat
  vm_array_id :: nat

datatype valmap_set_status = VAL_SET_EXISTS | VAL_SET_NOT_FOUND | VAL_SET_OK | VAL_SET_IS_CONST

datatype overwrite_mode = OW_NO_OVERWRITE | OW_NO_CREATE | OW_DEFAULT

definition VALMAP_DEFAULT_SIZE :: nat where
  "VALMAP_DEFAULT_SIZE = 20"

definition valmap_init :: "nat \<Rightarrow> 'v valmap" where
  "valmap_init n = \<lparr> vm_array = replicate n None, vm_capacity = n, vm_elements = 0, vm_array_id = 0 \<rparr>"

definition valmap_init_default :: "'v valmap" where
  "valmap_init_default = valmap_init VALMAP_DEFAULT_SIZE"

text \<open>A polymorphic constant cannot be evaluated as such; it is inlined in the equations for evaluation.\<close>

lemma valmap_init_default_unfold [code_unfold]: "valmap_init_default = valmap_init VALMAP_DEFAULT_SIZE"
  by (rule valmap_init_default_def)

definition hash_key :: "nat \<Rightarrow> string \<Rightarrow> nat" where
  "hash_key capacity key = unat (foldl hash_step FNV_OFFSET_BASIS key AND (of_nat capacity - 1))"

text \<open>The result is a pointer into the array: the index of the entry, or NULL.\<close>

definition valmap_get :: "'v valmap \<Rightarrow> string \<Rightarrow> nat option res" where
  "valmap_get vm key =
     rbind (probe ve_key (Suc (vm_capacity vm)) (vm_array vm) (vm_capacity vm) key (hash_key (vm_capacity vm) key))
       (\<lambda>index. Inr (if vm_array vm ! index = None then None else Some index))"

definition valmap_has :: "'v valmap \<Rightarrow> string \<Rightarrow> bool res" where
  "valmap_has vm key = rbind (valmap_get vm key) (\<lambda>p. Inr (p \<noteq> None))"

text \<open>
  \<^verbatim>\<open>valmap_set_entry\<close>: the count it increments may be a NULL pointer; \<open>has_result\<close> says
  whether \<^verbatim>\<open>result\<close> is not NULL, and \<open>sr_status\<close> is what it then points to. The value to be
  freed before it is overwritten is returned, for the caller to free.
\<close>

record 'v set_result =
  sr_array :: "'v valmap_entry option list"
  sr_count :: "nat option"
  sr_status :: valmap_set_status
  sr_freed :: "'v option"

definition valmap_set_entry ::
  "'v valmap_entry option list \<Rightarrow> nat \<Rightarrow> string \<Rightarrow> 'v \<Rightarrow> nat option \<Rightarrow> bool \<Rightarrow> bool \<Rightarrow> overwrite_mode \<Rightarrow> bool
     \<Rightarrow> 'v set_result res" where
  "valmap_set_entry array capacity key value element_count is_const attempt_free overwrite has_result =
     rbind (probe ve_key (Suc capacity) array capacity key (hash_key capacity key)) (\<lambda>index.
     let same = \<lambda>status. \<lparr> sr_array = array, sr_count = element_count, sr_status = status, sr_freed = None \<rparr> in
     case array ! index of
       Some e \<Rightarrow>
         if overwrite = OW_NO_OVERWRITE \<and> has_result then Inr (same VAL_SET_EXISTS)
         else if ve_is_const e \<and> has_result then Inr (same VAL_SET_IS_CONST)
         else Inr ((same VAL_SET_OK)\<lparr> sr_array := array[index := Some (e\<lparr> ve_value := value \<rparr>)],
                                     sr_freed := if attempt_free then Some (ve_value e) else None \<rparr>)
     | None \<Rightarrow>
         if overwrite = OW_NO_CREATE \<and> has_result then Inr (same VAL_SET_NOT_FOUND)
         else Inr ((same VAL_SET_OK)\<lparr> sr_array := array[index := Some \<lparr> ve_key = key, ve_value = value, ve_is_const = is_const \<rparr>],
                                     sr_count := map_option Suc element_count \<rparr>))"

text \<open>
  The entries of the old array go into the new one in order. The call passes \<^verbatim>\<open>true\<close> for the
  overwrite mode, that is \<^verbatim>\<open>OW_NO_CREATE\<close>, which has no effect as \<^verbatim>\<open>result\<close> is NULL.
\<close>

fun realloc_entries ::
  "nat \<Rightarrow> 'v valmap_entry option list \<Rightarrow> 'v valmap_entry option list \<Rightarrow> 'v valmap_entry option list res" where
  "realloc_entries capacity array [] = Inr array"
| "realloc_entries capacity array (None # old) = realloc_entries capacity array old"
| "realloc_entries capacity array (Some e # old) =
     rbind (valmap_set_entry array capacity (ve_key e) (ve_value e) None (ve_is_const e) False OW_NO_CREATE False)
       (\<lambda>r. realloc_entries capacity (sr_array r) old)"

definition valmap_realloc :: "'v valmap \<Rightarrow> nat \<Rightarrow> 'v valmap res" where
  "valmap_realloc vm new_capacity =
     rbind (realloc_entries new_capacity (replicate new_capacity None) (vm_array vm)) (\<lambda>array.
     Inr (vm\<lparr> vm_array := array, vm_capacity := new_capacity, vm_array_id := Suc (vm_array_id vm) \<rparr>))"

text \<open>\<^verbatim>\<open>elements * 1.25 >= capacity\<close>\<close>

definition valmap_check_realloc :: "'v valmap \<Rightarrow> 'v valmap res" where
  "valmap_check_realloc vm =
     (if 5 * vm_elements vm \<ge> 4 * vm_capacity vm then valmap_realloc vm (vm_capacity vm * 2) else Inr vm)"

text \<open>The setters: the table, the status, and the value to be freed.\<close>

definition set_in ::
  "'v valmap \<Rightarrow> string \<Rightarrow> 'v \<Rightarrow> bool \<Rightarrow> bool \<Rightarrow> overwrite_mode \<Rightarrow> bool
     \<Rightarrow> ('v valmap \<times> valmap_set_status \<times> 'v option) res" where
  "set_in vm key value is_const attempt_free overwrite has_result =
     rbind (valmap_check_realloc vm) (\<lambda>vm.
     rbind (valmap_set_entry (vm_array vm) (vm_capacity vm) key value (Some (vm_elements vm)) is_const attempt_free
              overwrite has_result) (\<lambda>r.
     Inr (vm\<lparr> vm_array := sr_array r, vm_elements := the (sr_count r) \<rparr>, sr_status r, sr_freed r)))"

definition valmap_set ::
  "'v valmap \<Rightarrow> string \<Rightarrow> 'v \<Rightarrow> bool \<Rightarrow> bool \<Rightarrow> ('v valmap \<times> 'v option) res" where
  "valmap_set vm key value is_const attempt_free =
     rbind (set_in vm key value is_const attempt_free OW_DEFAULT False) (\<lambda>(vm, status, freed). Inr (vm, freed))"

definition valmap_set_no_overwrite ::
  "'v valmap \<Rightarrow> string \<Rightarrow> 'v \<Rightarrow> bool \<Rightarrow> bool \<Rightarrow> ('v valmap \<times> valmap_set_status \<times> 'v option) res" where
  "valmap_set_no_overwrite vm key value is_const attempt_free =
     set_in vm key value is_const attempt_free OW_NO_OVERWRITE True"

definition valmap_set_no_create ::
  "'v valmap \<Rightarrow> string \<Rightarrow> 'v \<Rightarrow> bool \<Rightarrow> bool \<Rightarrow> ('v valmap \<times> valmap_set_status \<times> 'v option) res" where
  "valmap_set_no_create vm key value is_const attempt_free =
     set_in vm key value is_const attempt_free OW_NO_CREATE True"

definition valmap_set_default ::
  "'v valmap \<Rightarrow> string \<Rightarrow> 'v \<Rightarrow> bool \<Rightarrow> bool \<Rightarrow> ('v valmap \<times> valmap_set_status \<times> 'v option) res" where
  "valmap_set_default vm key value is_const attempt_free =
     rbind (set_in vm key value is_const attempt_free OW_DEFAULT False) (\<lambda>(vm, status, freed). Inr (vm, VAL_SET_OK, freed))"

definition valmap_set_no_free :: "'v valmap \<Rightarrow> string \<Rightarrow> 'v \<Rightarrow> bool \<Rightarrow> 'v valmap res" where
  "valmap_set_no_free vm key value is_const =
     rbind (valmap_set vm key value is_const False) (\<lambda>(vm, freed). Inr vm)"

definition valmap_get_capacity :: "'v valmap \<Rightarrow> nat" where
  "valmap_get_capacity vm = vm_capacity vm"

definition valmap_get_count :: "'v valmap \<Rightarrow> nat" where
  "valmap_get_count vm = vm_elements vm"

section \<open>The invariant and the map\<close>

definition valmap_ok :: "'v valmap \<Rightarrow> bool" where
  "valmap_ok vm \<longleftrightarrow> vm_capacity vm = length (vm_array vm) \<and> VALMAP_DEFAULT_SIZE \<le> vm_capacity vm \<and>
     vm_elements vm = occupied (vm_array vm) \<and> 5 * vm_elements vm < 4 * vm_capacity vm + 5 \<and>
     reachable ve_key (hash_key (vm_capacity vm)) (vm_array vm)"

definition valmap_abs :: "'v valmap \<Rightarrow> string \<Rightarrow> ('v \<times> bool) option" where
  "valmap_abs vm k = map_option (\<lambda>e. (ve_value e, ve_is_const e)) (table_map ve_key (vm_array vm) k)"

lemma hash_key_less: "0 < c \<Longrightarrow> hash_key c k < c"
proof -
  assume c: "0 < c"
  let ?m = "of_nat c - 1 :: u64"
  have "?m = of_nat (c - 1)" using c by simp
  then have "unat ?m \<le> c - 1" by (simp add: unat_of_nat)
  moreover have "unat (foldl hash_step FNV_OFFSET_BASIS k AND ?m) \<le> unat ?m"
    by (simp add: word_and_le1 flip: word_le_nat_alt)
  ultimately show ?thesis using c by (simp add: hash_key_def)
qed

lemma occupied_None: "occupied a < length a \<Longrightarrow> None \<in> set a"
  by (metis (mono_tags, lifting) filter_True less_irrefl occupied_def)

lemma occupied_replicate [simp]: "occupied (replicate n None) = 0"
  by (induction n) (simp_all add: occupied_def)

lemma occupied_put:
  "j < length a \<Longrightarrow> occupied (a[j := Some e]) = (if a ! j = None then Suc (occupied a) else occupied a)"
proof (induction a arbitrary: j)
  case (Cons x a)
  then show ?case by (cases j) (auto simp: occupied_def)
qed simp

lemma reachable_empty: "0 < c \<Longrightarrow> reachable kf (hash_key c) (replicate c None)"
  by (simp add: reachable_def hash_key_less)

lemma table_map_empty [simp]: "table_map kf (replicate n None) k = None"
  by (induction n) simp_all

section \<open>Setting an entry\<close>

definition entry_of :: "string \<Rightarrow> 'v \<Rightarrow> bool \<Rightarrow> 'v valmap_entry option \<Rightarrow> 'v valmap_entry" where
  "entry_of key value is_const old =
     (case old of Some e \<Rightarrow> e\<lparr> ve_value := value \<rparr> | None \<Rightarrow> \<lparr> ve_key = key, ve_value = value, ve_is_const = is_const \<rparr>)"

definition set_status :: "overwrite_mode \<Rightarrow> bool \<Rightarrow> 'v valmap_entry option \<Rightarrow> valmap_set_status" where
  "set_status overwrite has_result old =
     (case old of
        Some e \<Rightarrow> if overwrite = OW_NO_OVERWRITE \<and> has_result then VAL_SET_EXISTS
                  else if ve_is_const e \<and> has_result then VAL_SET_IS_CONST else VAL_SET_OK
      | None \<Rightarrow> if overwrite = OW_NO_CREATE \<and> has_result then VAL_SET_NOT_FOUND else VAL_SET_OK)"

lemma set_entry_cases:
  assumes r: "reachable ve_key (hash_key (length a)) a" and f: "None \<in> set a"
  obtains j where "j < length a" "a ! j = table_map ve_key a k"
    and "reachable ve_key (hash_key (length a)) (a[j := Some (entry_of k v c (table_map ve_key a k))])"
    and "\<And>k'. table_map ve_key (a[j := Some (entry_of k v c (table_map ve_key a k))]) k' =
           (if k' = k then Some (entry_of k v c (table_map ve_key a k)) else table_map ve_key a k')"
    and "\<And>n fr ow hr. valmap_set_entry a (length a) k v n c fr ow hr = Inr
           (if set_status ow hr (table_map ve_key a k) = VAL_SET_OK
            then \<lparr> sr_array = a[j := Some (entry_of k v c (table_map ve_key a k))],
                   sr_count = if table_map ve_key a k = None then map_option Suc n else n,
                   sr_status = VAL_SET_OK,
                   sr_freed = if fr then map_option ve_value (table_map ve_key a k) else None \<rparr>
            else \<lparr> sr_array = a, sr_count = n, sr_status = set_status ow hr (table_map ve_key a k), sr_freed = None \<rparr>)"
proof -
  let ?m = "table_map ve_key a k" and ?h = "hash_key (length a)"
  obtain j where j: "probe ve_key (Suc (length a)) a (length a) k (?h k) = Inr j" "j < length a" "a ! j = ?m"
    using reachable_probe [OF r, of "Suc (length a)" k] f by auto
  let ?e = "entry_of k v c ?m"
  have key: "ve_key ?e = k"
    using table_map_Some [of ve_key a k] by (auto simp: entry_of_def split: option.splits)
  have put: "reachable ve_key ?h (a[j := Some ?e])"
    "table_map ve_key (a[j := Some ?e]) k' = (if k' = k then Some ?e else table_map ve_key a k')" for k'
    using reachable_put [OF r, of "Suc (length a)" ?e j] j(1) f key by simp_all
  show ?thesis
  proof (rule that [OF j(2,3) put])
    show "valmap_set_entry a (length a) k v n c fr ow hr = Inr
           (if set_status ow hr ?m = VAL_SET_OK
            then \<lparr> sr_array = a[j := Some ?e], sr_count = if ?m = None then map_option Suc n else n,
                   sr_status = VAL_SET_OK, sr_freed = if fr then map_option ve_value ?m else None \<rparr>
            else \<lparr> sr_array = a, sr_count = n, sr_status = set_status ow hr ?m, sr_freed = None \<rparr>)" for n fr ow hr
      using j by (auto simp: valmap_set_entry_def set_status_def entry_of_def Let_def split: option.splits)
  qed
qed

section \<open>Growing\<close>

fun entries :: "'e option list \<Rightarrow> 'e list" where
  "entries [] = []"
| "entries (None # a) = entries a"
| "entries (Some e # a) = e # entries a"

lemma in_entries [simp]: "e \<in> set (entries a) \<longleftrightarrow> Some e \<in> set a"
  by (induction a rule: entries.induct) auto

lemma realloc_entries_ok:
  "reachable ve_key (hash_key (length a)) a \<Longrightarrow> occupied a + occupied old < length a \<Longrightarrow>
   \<forall>e. Some e \<in> set old \<longrightarrow> table_map ve_key a (ve_key e) = None \<Longrightarrow>
   distinct (map ve_key (entries old)) \<Longrightarrow>
   \<exists>b. realloc_entries (length a) a old = Inr b \<and> length b = length a \<and> reachable ve_key (hash_key (length a)) b
     \<and> occupied b = occupied a + occupied old
     \<and> (\<forall>k. table_map ve_key b k = (case table_map ve_key old k of None \<Rightarrow> table_map ve_key a k | Some e \<Rightarrow> Some e))"
proof (induction old arbitrary: a)
  case Nil
  then show ?case by (simp add: occupied_def)
next
  case (Cons x old)
  show ?case
  proof (cases x)
    case None
    then show ?thesis using Cons by (simp add: occupied_def)
  next
    case (Some e)
    have n: "table_map ve_key a (ve_key e) = None" using Cons.prems(3) Some by simp
    have e: "entry_of (ve_key e) (ve_value e) (ve_is_const e) None = e" by (simp add: entry_of_def)
    have "occupied a < length a" using Cons.prems(2) Some by (simp add: occupied_def)
    then have "None \<in> set a" by (rule occupied_None)
    from set_entry_cases [OF Cons.prems(1) this, of "ve_key e" "ve_value e" "ve_is_const e", unfolded n e]
    show ?thesis
    proof cases
      case (1 j)
      note j = 1(1-3) and m = 1(4)
      have s: "valmap_set_entry a (length a) (ve_key e) (ve_value e) None (ve_is_const e) False OW_NO_CREATE False =
        Inr \<lparr> sr_array = a[j := Some e], sr_count = None, sr_status = VAL_SET_OK, sr_freed = None \<rparr>"
        by (simp add: 1(5) set_status_def)
    let ?a = "a[j := Some e]"
    have o: "occupied ?a + occupied old = occupied a + occupied (x # old)"
      using j Some by (simp add: occupied_put) (simp add: occupied_def)
    have d: "ve_key e \<notin> ve_key ` set (entries old)" "distinct (map ve_key (entries old))"
      using Cons.prems(4) Some by simp_all
    have ne: "ve_key y \<noteq> ve_key e" if "Some y \<in> set old" for y
      using d(1) that in_entries [of y old] by (metis imageI)
    have "\<exists>b. realloc_entries (length ?a) ?a old = Inr b \<and> length b = length ?a \<and> reachable ve_key (hash_key (length ?a)) b
     \<and> occupied b = occupied ?a + occupied old
     \<and> (\<forall>k. table_map ve_key b k = (case table_map ve_key old k of None \<Rightarrow> table_map ve_key ?a k | Some e \<Rightarrow> Some e))"
    proof (rule Cons.IH)
      show "occupied ?a + occupied old < length ?a" using o Cons.prems(2) by simp
      show "\<forall>y. Some y \<in> set old \<longrightarrow> table_map ve_key ?a (ve_key y) = None"
        using ne Cons.prems(3) by (simp add: m)
    qed (use j d in simp_all)
    moreover have "table_map ve_key old (ve_key e) = None" using ne by (auto simp: table_map_None)
    ultimately show ?thesis using s o Some by (auto simp: m option.case_eq_if)
    qed
  qed
qed

lemma reachable_distinct:
  assumes "reachable kf h a"
  shows "distinct (map kf (entries a))"
proof -
  have "distinct (map kf (entries (drop n a)))" if "n \<le> length a" for n
    using that
  proof (induction "length a - n" arbitrary: n)
    case (Suc d)
    then have n: "n < length a" by simp
    have d: "drop n a = a ! n # drop (Suc n) a" using n by (simp add: Cons_nth_drop_Suc)
    have IH: "distinct (map kf (entries (drop (Suc n) a)))" using Suc by simp
    show ?case
    proof (cases "a ! n")
      case None
      with d IH show ?thesis by simp
    next
      case (Some e)
      have "kf y \<noteq> kf e" if y: "Some y \<in> set (drop (Suc n) a)" for y
      proof -
        from y obtain i where i: "i < length (drop (Suc n) a)" "drop (Suc n) a ! i = Some y"
          by (auto simp: in_set_conv_nth)
        then have "a ! (Suc n + i) = Some y" "Suc n + i < length a" by simp_all
        with reachable_unique [OF assms, of n "Suc n + i" e y] n Some show ?thesis by auto
      qed
      with d IH Some show ?thesis by (fastforce simp:)
    qed
  qed simp
  from this [of 0] show ?thesis by simp
qed

lemma valmap_check_realloc_ok:
  assumes "valmap_ok vm"
  obtains vm' where "valmap_check_realloc vm = Inr vm'" "valmap_ok vm'" "5 * vm_elements vm' < 4 * vm_capacity vm'"
    "table_map ve_key (vm_array vm') = table_map ve_key (vm_array vm)"
proof (cases "5 * vm_elements vm \<ge> 4 * vm_capacity vm")
  case False
  with assms that show ?thesis by (simp add: valmap_check_realloc_def)
next
  case True
  let ?c = "vm_capacity vm * 2"
  have ok: "vm_capacity vm = length (vm_array vm)" "20 \<le> vm_capacity vm" "vm_elements vm = occupied (vm_array vm)"
    "5 * vm_elements vm < 4 * vm_capacity vm + 5" "reachable ve_key (hash_key (vm_capacity vm)) (vm_array vm)"
    using assms unfolding valmap_ok_def VALMAP_DEFAULT_SIZE_def by blast+
  have c: "0 < ?c" using ok(2) by simp
  have lt: "occupied (vm_array vm) < ?c" using ok by simp
  obtain b where b: "realloc_entries ?c (replicate ?c None) (vm_array vm) = Inr b" "length b = ?c"
    "reachable ve_key (hash_key ?c) b" "occupied b = occupied (vm_array vm)"
    "\<And>k. table_map ve_key b k = table_map ve_key (vm_array vm) k"
    using realloc_entries_ok [of "replicate ?c None" "vm_array vm", unfolded length_replicate,
        OF reachable_empty [OF c] _ _ reachable_distinct [OF ok(5)]] lt
    by (force simp: option.case_eq_if)
  show ?thesis
  proof (rule that)
    let ?vm = "vm\<lparr> vm_array := b, vm_capacity := ?c, vm_array_id := Suc (vm_array_id vm) \<rparr>"
    show "valmap_check_realloc vm = Inr ?vm"
      using True b(1) by (simp add: valmap_check_realloc_def valmap_realloc_def)
    show "valmap_ok ?vm" using b ok by (simp add: valmap_ok_def VALMAP_DEFAULT_SIZE_def)
    show "5 * vm_elements ?vm < 4 * vm_capacity ?vm" using ok by simp
    show "table_map ve_key (vm_array ?vm) = table_map ve_key (vm_array vm)" using b(5) by auto
  qed
qed

section \<open>The map that the operations implement\<close>

definition spec_status :: "overwrite_mode \<Rightarrow> bool \<Rightarrow> ('v \<times> bool) option \<Rightarrow> valmap_set_status" where
  "spec_status overwrite has_result old =
     (case old of
        Some (v, const) \<Rightarrow> if overwrite = OW_NO_OVERWRITE \<and> has_result then VAL_SET_EXISTS
                  else if const \<and> has_result then VAL_SET_IS_CONST else VAL_SET_OK
      | None \<Rightarrow> if overwrite = OW_NO_CREATE \<and> has_result then VAL_SET_NOT_FOUND else VAL_SET_OK)"

text \<open>An entry that is overwritten stays a constant or a variable, whatever the new declaration says.\<close>

definition spec_put :: "(string \<Rightarrow> ('v \<times> bool) option) \<Rightarrow> string \<Rightarrow> 'v \<Rightarrow> bool \<Rightarrow> string \<Rightarrow> ('v \<times> bool) option" where
  "spec_put m k v c = m(k \<mapsto> (v, case m k of Some (w, c') \<Rightarrow> c' | None \<Rightarrow> c))"

definition spec_set ::
  "overwrite_mode \<Rightarrow> bool \<Rightarrow> (string \<Rightarrow> ('v \<times> bool) option) \<Rightarrow> string \<Rightarrow> 'v \<Rightarrow> bool \<Rightarrow> string \<Rightarrow> ('v \<times> bool) option" where
  "spec_set overwrite has_result m k v c =
     (if spec_status overwrite has_result (m k) = VAL_SET_OK then spec_put m k v c else m)"

definition spec_freed :: "overwrite_mode \<Rightarrow> bool \<Rightarrow> bool \<Rightarrow> ('v \<times> bool) option \<Rightarrow> 'v option" where
  "spec_freed overwrite has_result attempt_free old =
     (if attempt_free \<and> spec_status overwrite has_result old = VAL_SET_OK then map_option fst old else None)"

text \<open>The value a pointer to an entry points to.\<close>

definition valmap_lookup :: "'v valmap \<Rightarrow> string \<Rightarrow> 'v option res" where
  "valmap_lookup vm key =
     rbind (valmap_get vm key) (\<lambda>p. Inr (map_option (\<lambda>i. ve_value (the (vm_array vm ! i))) p))"

lemma set_status_abs: "set_status ow hr (table_map ve_key (vm_array vm) k) = spec_status ow hr (valmap_abs vm k)"
  by (simp add: set_status_def spec_status_def valmap_abs_def split: option.splits)

lemma valmap_ok_free: "valmap_ok vm \<Longrightarrow> None \<in> set (vm_array vm)"
  by (intro occupied_None) (simp add: valmap_ok_def VALMAP_DEFAULT_SIZE_def)

lemma valmap_ok_init: "valmap_ok valmap_init_default" "valmap_abs valmap_init_default k = None"
  by (simp_all add: valmap_init_default_def valmap_init_def valmap_ok_def VALMAP_DEFAULT_SIZE_def
      reachable_empty valmap_abs_def)

lemma valmap_okD:
  assumes "valmap_ok vm"
  shows "reachable ve_key (hash_key (length (vm_array vm))) (vm_array vm)" "vm_capacity vm = length (vm_array vm)"
    "20 \<le> length (vm_array vm)" "vm_elements vm = occupied (vm_array vm)"
  using assms unfolding valmap_ok_def VALMAP_DEFAULT_SIZE_def by (elim conjE, simp)+

lemma valmap_get_ok:
  assumes "valmap_ok vm"
  obtains j where "j < length (vm_array vm)" "vm_array vm ! j = table_map ve_key (vm_array vm) k"
    "valmap_get vm k = Inr (if valmap_abs vm k = None then None else Some j)"
proof -
  note ok = valmap_okD [OF assms]
  from reachable_probe [OF ok(1), of "Suc (length (vm_array vm))" k] valmap_ok_free [OF assms]
  obtain j where "probe ve_key (Suc (length (vm_array vm))) (vm_array vm) (length (vm_array vm)) k (hash_key (length (vm_array vm)) k) = Inr j"
    "j < length (vm_array vm)" "vm_array vm ! j = table_map ve_key (vm_array vm) k" by auto
  with that ok(2) show ?thesis by (simp add: valmap_get_def valmap_abs_def)
qed

lemma valmap_lookup_ok: "valmap_ok vm \<Longrightarrow> valmap_lookup vm k = Inr (map_option fst (valmap_abs vm k))"
proof -
  assume "valmap_ok vm"
  then obtain j where "vm_array vm ! j = table_map ve_key (vm_array vm) k"
    "valmap_get vm k = Inr (if valmap_abs vm k = None then None else Some j)" by (elim valmap_get_ok)
  then show ?thesis by (auto simp: valmap_lookup_def valmap_abs_def)
qed

lemma set_in_ok:
  assumes "valmap_ok vm"
  obtains vm' where "valmap_ok vm'" "valmap_abs vm' = spec_set ow hr (valmap_abs vm) k v c"
    "set_in vm k v c fr ow hr = Inr (vm', spec_status ow hr (valmap_abs vm k), spec_freed ow hr fr (valmap_abs vm k))"
proof -
  obtain vm1 where r: "valmap_check_realloc vm = Inr vm1" "valmap_ok vm1" "5 * vm_elements vm1 < 4 * vm_capacity vm1"
    and t: "table_map ve_key (vm_array vm1) = table_map ve_key (vm_array vm)"
    using valmap_check_realloc_ok [OF assms] .
  let ?a = "vm_array vm1"
  have abs: "valmap_abs vm1 = valmap_abs vm" using t by (simp add: valmap_abs_def fun_eq_iff)
  note ok = valmap_okD [OF r(2)]
  from set_entry_cases [OF ok(1) valmap_ok_free [OF r(2)], of k v c] show ?thesis
  proof cases
    case (1 j)
    let ?m = "table_map ve_key ?a k"
    let ?e = "entry_of k v c ?m"
    note entry = 1(5) [of "Some (vm_elements vm1)" fr ow hr, unfolded set_status_abs abs]
    show ?thesis
    proof (cases "spec_status ow hr (valmap_abs vm k) = VAL_SET_OK")
      case True
      let ?vm = "vm1\<lparr> vm_array := ?a[j := Some ?e], vm_elements := if ?m = None then Suc (vm_elements vm1) else vm_elements vm1 \<rparr>"
      have "valmap_ok ?vm"
        using r(3) ok 1(1-3) by (auto simp: valmap_ok_def VALMAP_DEFAULT_SIZE_def occupied_put)
      moreover have "valmap_abs ?vm = spec_set ow hr (valmap_abs vm) k v c"
      proof
        fix k'
        have m: "table_map ve_key (?a[j := Some ?e]) k' = (if k' = k then Some ?e else table_map ve_key (vm_array vm) k')"
          using 1(4) [of k'] by (simp add: t)
        have e: "ve_value ?e = v" "ve_is_const ?e = (case table_map ve_key (vm_array vm) k of Some x \<Rightarrow> ve_is_const x | None \<Rightarrow> c)"
          by (simp_all add: entry_of_def t split: option.splits)
        show "valmap_abs ?vm k' = spec_set ow hr (valmap_abs vm) k v c k'"
          using True m e by (simp add: valmap_abs_def spec_set_def spec_put_def option.case_eq_if option.map_sel)
      qed
      moreover have "set_in vm k v c fr ow hr = Inr (?vm, VAL_SET_OK, spec_freed ow hr fr (valmap_abs vm k))"
        using r(1) entry True ok(2) t
        by (auto simp: set_in_def spec_freed_def valmap_abs_def option.map_comp comp_def)
      ultimately show ?thesis using that True by metis
    next
      case False
      have "set_in vm k v c fr ow hr = Inr (vm1, spec_status ow hr (valmap_abs vm k), None)"
        using r(1) entry False ok(2) by (simp add: set_in_def)
      then show ?thesis using that [of vm1] r(2) abs False by (simp add: spec_set_def spec_freed_def)
    qed
  qed
qed

section \<open>The contract of a symbol table\<close>

datatype 'v table_op = Declare string 'v bool | Assign string 'v | Replace string 'v bool

fun spec_op :: "'v table_op \<Rightarrow> (string \<Rightarrow> ('v \<times> bool) option) \<Rightarrow> (string \<Rightarrow> ('v \<times> bool) option) \<times> valmap_set_status" where
  "spec_op (Declare k v c) m = (spec_set OW_NO_OVERWRITE True m k v c, spec_status OW_NO_OVERWRITE True (m k))"
| "spec_op (Assign k v) m = (spec_set OW_NO_CREATE True m k v False, spec_status OW_NO_CREATE True (m k))"
| "spec_op (Replace k v c) m = (spec_put m k v c, VAL_SET_OK)"

fun spec_run ::
  "'v table_op list \<Rightarrow> (string \<Rightarrow> ('v \<times> bool) option) \<Rightarrow> (string \<Rightarrow> ('v \<times> bool) option) \<times> valmap_set_status list" where
  "spec_run [] m = (m, [])"
| "spec_run (x # xs) m =
     (let (m1, status) = spec_op x m; (m2, rest) = spec_run xs m1 in (m2, status # rest))"

text \<open>
  What scopes rely on. \<open>declare_in\<close> adds a name that is not in the table, \<open>assign_in\<close> gives a
  new value to a variable that is, and \<open>replace_in\<close> does either; a result holds the table, the
  status and the value to be freed.
\<close>

locale symbol_table =
  fixes ok :: "'t \<Rightarrow> bool" and abs :: "'t \<Rightarrow> string \<Rightarrow> ('v \<times> bool) option"
    and fresh :: 't and get :: "'t \<Rightarrow> string \<Rightarrow> 'v option res"
    and declare_in :: "'t \<Rightarrow> string \<Rightarrow> 'v \<Rightarrow> bool \<Rightarrow> ('t \<times> valmap_set_status \<times> 'v option) res"
    and assign_in :: "'t \<Rightarrow> string \<Rightarrow> 'v \<Rightarrow> ('t \<times> valmap_set_status \<times> 'v option) res"
    and replace_in :: "'t \<Rightarrow> string \<Rightarrow> 'v \<Rightarrow> bool \<Rightarrow> ('t \<times> valmap_set_status \<times> 'v option) res"
  assumes fresh: "ok fresh" "abs fresh k = None"
    and get: "ok t \<Longrightarrow> get t k = Inr (map_option fst (abs t k))"
    and declare_law: "ok t \<Longrightarrow> \<exists>t'. ok t' \<and> abs t' = spec_set OW_NO_OVERWRITE True (abs t) k v c
      \<and> declare_in t k v c = Inr (t', spec_status OW_NO_OVERWRITE True (abs t k), None)"
    and assign_law: "ok t \<Longrightarrow> \<exists>t'. ok t' \<and> abs t' = spec_set OW_NO_CREATE True (abs t) k v False
      \<and> assign_in t k v = Inr (t', spec_status OW_NO_CREATE True (abs t k), None)"
    and replace_law: "ok t \<Longrightarrow> \<exists>t'. ok t' \<and> abs t' = spec_put (abs t) k v c
      \<and> replace_in t k v c = Inr (t', VAL_SET_OK, None)"
begin

lemma declare_new:
  assumes "ok t" "abs t k = None"
  obtains t' where "declare_in t k v c = Inr (t', VAL_SET_OK, None)" "ok t'" "abs t' = (abs t)(k \<mapsto> (v, c))"
  using declare_law [OF assms(1), of k v c] assms(2) by (auto simp: spec_set_def spec_status_def spec_put_def)

lemma declare_known:
  assumes "ok t" "abs t k \<noteq> None"
  obtains t' where "declare_in t k v c = Inr (t', VAL_SET_EXISTS, None)" "ok t'" "abs t' = abs t"
  using declare_law [OF assms(1), of k v c] assms(2) by (auto simp: spec_set_def spec_status_def)

lemma assign_variable:
  assumes "ok t" "abs t k = Some (w, False)"
  obtains t' where "assign_in t k v = Inr (t', VAL_SET_OK, None)" "ok t'" "abs t' = (abs t)(k \<mapsto> (v, False))"
  using assign_law [OF assms(1), of k v] assms(2) by (auto simp: spec_set_def spec_status_def spec_put_def)

lemma assign_constant:
  assumes "ok t" "abs t k = Some (w, True)"
  obtains t' where "assign_in t k v = Inr (t', VAL_SET_IS_CONST, None)" "ok t'" "abs t' = abs t"
  using assign_law [OF assms(1), of k v] assms(2) by (auto simp: spec_set_def spec_status_def)

lemma assign_unknown:
  assumes "ok t" "abs t k = None"
  obtains t' where "assign_in t k v = Inr (t', VAL_SET_NOT_FOUND, None)" "ok t'" "abs t' = abs t"
  using assign_law [OF assms(1), of k v] assms(2) by (auto simp: spec_set_def spec_status_def)

lemma get_after_declare:
  assumes "ok t" "abs t k = None"
  shows "\<exists>t'. declare_in t k v c = Inr (t', VAL_SET_OK, None) \<and>
     get t' k' = (if k' = k then Inr (Some v) else get t k')"
  using declare_new [OF assms, of v c] assms(1) by (metis (no_types) fst_conv fun_upd_apply get option.simps(9))

text \<open>Any sequence of operations.\<close>

primrec run_on :: "'v table_op list \<Rightarrow> 't \<Rightarrow> ('t \<times> valmap_set_status list) res" where
  "run_on [] t = Inr (t, [])"
| "run_on (x # xs) t =
     rbind (case x of Declare k v c \<Rightarrow> declare_in t k v c | Assign k v \<Rightarrow> assign_in t k v | Replace k v c \<Rightarrow> replace_in t k v c)
       (\<lambda>(t', status, freed). rbind (run_on xs t') (\<lambda>(u, rest). Inr (u, status # rest)))"

lemma run_on_refines:
  "ok t \<Longrightarrow> \<exists>t'. run_on xs t = Inr (t', snd (spec_run xs (abs t))) \<and> ok t' \<and> abs t' = fst (spec_run xs (abs t))"
proof (induction xs arbitrary: t)
  case (Cons x xs)
  obtain t1 fr where t1: "ok t1" "abs t1 = fst (spec_op x (abs t))"
    "(case x of Declare k v c \<Rightarrow> declare_in t k v c | Assign k v \<Rightarrow> assign_in t k v | Replace k v c \<Rightarrow> replace_in t k v c)
       = Inr (t1, snd (spec_op x (abs t)), fr)"
  proof (cases x)
    case (Declare k v c)
    with declare_law [OF Cons.prems, of k v c] that show ?thesis by auto
  next
    case (Assign k v)
    with assign_law [OF Cons.prems, of k v] that show ?thesis by auto
  next
    case (Replace k v c)
    with replace_law [OF Cons.prems, of k v c] that show ?thesis by auto
  qed
  with Cons.IH [OF t1(1)] show ?case by (auto simp: split_def Let_def)
qed simp

end

interpretation vm: symbol_table valmap_ok valmap_abs valmap_init_default valmap_lookup
  "\<lambda>t k v c. valmap_set_no_overwrite t k v c True" "\<lambda>t k v. valmap_set_no_create t k v False False"
  "\<lambda>t k v c. valmap_set_default t k v c False"
proof
  fix t :: "'v valmap" and k v c
  assume t: "valmap_ok t"
  show "\<exists>t'. valmap_ok t' \<and> valmap_abs t' = spec_set OW_NO_OVERWRITE True (valmap_abs t) k v c
      \<and> valmap_set_no_overwrite t k v c True = Inr (t', spec_status OW_NO_OVERWRITE True (valmap_abs t k), None)"
    unfolding valmap_set_no_overwrite_def
    by (rule set_in_ok [OF t, of OW_NO_OVERWRITE True k v c True]) (auto simp: spec_freed_def spec_status_def split: option.splits)
  show "\<exists>t'. valmap_ok t' \<and> valmap_abs t' = spec_set OW_NO_CREATE True (valmap_abs t) k v False
      \<and> valmap_set_no_create t k v False False = Inr (t', spec_status OW_NO_CREATE True (valmap_abs t k), None)"
    unfolding valmap_set_no_create_def
    by (rule set_in_ok [OF t, of OW_NO_CREATE True k v False False]) (auto simp: spec_freed_def)
  show "\<exists>t'. valmap_ok t' \<and> valmap_abs t' = spec_put (valmap_abs t) k v c
      \<and> valmap_set_default t k v c False = Inr (t', VAL_SET_OK, None)"
    unfolding valmap_set_default_def
    by (rule set_in_ok [OF t, of OW_DEFAULT False k v c False])
       (auto simp: spec_freed_def spec_set_def spec_status_def split: option.splits)
qed (simp_all add: valmap_ok_init valmap_lookup_ok)

section \<open>Properties\<close>

text \<open>The operations of the table, one after the other.\<close>

fun valmap_run :: "'v table_op list \<Rightarrow> 'v valmap \<Rightarrow> ('v valmap \<times> valmap_set_status list) res" where
  "valmap_run [] t = Inr (t, [])"
| "valmap_run (x # xs) t =
     rbind (case x of Declare k v c \<Rightarrow> valmap_set_no_overwrite t k v c True
                    | Assign k v \<Rightarrow> valmap_set_no_create t k v False False
                    | Replace k v c \<Rightarrow> valmap_set_default t k v c False)
       (\<lambda>(t', status, freed). rbind (valmap_run xs t') (\<lambda>(u, rest). Inr (u, status # rest)))"

lemma valmap_run_eq: "valmap_run xs t = vm.run_on xs t"
  by (induction xs arbitrary: t) (simp_all cong: table_op.case_cong)

text \<open>
  C38. Whatever sequence of declarations, assignments and replacements is made on a new table, however
  often it grows, every operation returns with the status it has on a finite map from names to
  a value and a constness, and looking a name up afterwards gives what that map holds for it: no
  entry is lost or duplicated by probing or by moving to a larger array, and no search runs on
  for ever.
\<close>

theorem valmap_refines_map:
  "case valmap_run ops valmap_init_default of
     Inl e \<Rightarrow> False
   | Inr (vm, statuses) \<Rightarrow>
       statuses = snd (spec_run ops (\<lambda>_. None)) \<and>
       valmap_lookup vm name = Inr (map_option fst (fst (spec_run ops (\<lambda>_. None)) name)) \<and>
       valmap_get_count vm < valmap_get_capacity vm"
proof -
  have "valmap_abs valmap_init_default = (\<lambda>_. None :: ('a \<times> bool) option)" by (simp add: fun_eq_iff valmap_ok_init)
  with vm.run_on_refines [OF valmap_ok_init(1), of ops] obtain t where
    t: "valmap_run ops valmap_init_default = Inr (t, snd (spec_run ops (\<lambda>_. None)))" "valmap_ok t"
    "valmap_abs t = fst (spec_run ops (\<lambda>_. None))" by (auto simp: valmap_run_eq)
  have "valmap_get_count t < valmap_get_capacity t"
    using t(2) by (simp add: valmap_ok_def VALMAP_DEFAULT_SIZE_def valmap_get_count_def valmap_get_capacity_def)
  with t vm.get [OF t(2)] show ?thesis by simp
qed

text \<open>
  C40. In a table with no free slot, looking up a name it does not hold never returns, however many
  slots are visited.
\<close>

theorem full_table_search_diverges:
  assumes "vm_capacity vm = length (vm_array vm)" and "0 < vm_capacity vm" and "None \<notin> set (vm_array vm)"
    and "table_map ve_key (vm_array vm) name = None"
  shows "probe ve_key n (vm_array vm) (vm_capacity vm) name (hash_key (vm_capacity vm) name) = Inl Out_of_fuel"
  using assms hash_key_less [of "vm_capacity vm" name] probe_for_ever [of "vm_array vm" ve_key name]
  by (simp add: table_map_None)

lemma full_table_search_diverges_witness:
  "probe ve_key 1000 [Some \<lparr> ve_key = ''x'', ve_value = True, ve_is_const = False \<rparr>] 1 ''y'' (hash_key 1 ''y'') = Inl Out_of_fuel"
  using full_table_search_diverges
    [of "\<lparr> vm_array = [Some \<lparr> ve_key = ''x'', ve_value = True, ve_is_const = False \<rparr>], vm_capacity = 1, vm_elements = 1, vm_array_id = 0 \<rparr>"]
  by simp

text \<open>
  With the default capacity of 20, which is no power of two, masking the hash with the capacity
  less one sends every name to one of eight slots.
\<close>

theorem default_table_uses_eight_slots:
  "hash_key VALMAP_DEFAULT_SIZE name \<in> {0, 1, 2, 3, 16, 17, 18, 19}"
proof -
  let ?h = "foldl hash_step FNV_OFFSET_BASIS name"
  let ?x = "unat (?h AND 19)"
  have "?h AND 19 \<le> 19" by (rule word_and_le1)
  then have "?x \<le> 19" by (simp add: word_le_nat_alt)
  moreover have "?x AND 12 = 0"
  proof -
    have "?x AND 12 = unat ((?h AND 19) AND 12)" by (simp add: unsigned_and_eq)
    also have "(?h AND 19) AND 12 = 0" by (simp add: and.assoc)
    finally show ?thesis by simp
  qed
  moreover have "n AND 12 = 0 \<Longrightarrow> n \<le> 19 \<Longrightarrow> n \<in> {0, 1, 2, 3, 16, 17, 18, 19}" for n :: nat
  proof -
    have "\<forall>n \<in> set [0..<20]. n AND 12 = (0::nat) \<longrightarrow> n \<in> {0, 1, 2, 3, 16, 17, 18, 19}" by code_simp
    moreover assume "n AND 12 = 0" "n \<le> 19"
    ultimately show ?thesis by auto
  qed
  ultimately show ?thesis by (simp add: hash_key_def VALMAP_DEFAULT_SIZE_def)
qed

end
