(* ===== verification/Map_Table.thy ===== *)
theory Map_Table
  imports Valmap
begin

text \<open>
  The second hash table (src/map.c), from names to pointers, with flags that say whether an entry
  may be created or overwritten. It is a correct map up to its 3277th entry; the step that grows
  it allocates too small an array.
\<close>

section \<open>The table\<close>

record 'v map_entry =
  me_key :: string
  me_value :: 'v

record 'v map_t =
  mp_capacity :: nat
  mp_size :: nat
  mp_elements :: "'v map_entry option list"

definition MAP_INIT_SIZE :: nat where
  "MAP_INIT_SIZE = 4096"

definition MAP_OVERWRITE :: u32 where
  "MAP_OVERWRITE = 0b00001"

definition MAP_CREATE :: u32 where
  "MAP_CREATE = 0b00010"

definition MAP_FREE_ON_OVERWRITE :: u32 where
  "MAP_FREE_ON_OVERWRITE = 0b00100"

definition MAP_RESULT_NOT_OVERWRITTEN :: u32 where
  "MAP_RESULT_NOT_OVERWRITTEN = 0b00001"

definition MAP_RESULT_NOT_CREATED :: u32 where
  "MAP_RESULT_NOT_CREATED = 0b00010"

definition MAP_RESULT_FREED_ON_OVERWRITE :: u32 where
  "MAP_RESULT_FREED_ON_OVERWRITE = 0b00100"

text \<open>\<^verbatim>\<open>sizeof (map_entry_t)\<close>: two pointers.\<close>

definition map_entry_size :: nat where
  "map_entry_size = 16"

definition map_hash_key :: "nat \<Rightarrow> string \<Rightarrow> nat" where
  "map_hash_key capacity key = unat (foldl hash_step FNV_OFFSET_BASIS key AND (of_nat capacity - 1))"

definition map_create :: "'v map_t" where
  "map_create = \<lparr> mp_capacity = MAP_INIT_SIZE, mp_size = 0, mp_elements = replicate MAP_INIT_SIZE None \<rparr>"

text \<open>
  \<^verbatim>\<open>valmap_set_entry\<close> of src/map.c: the array, the count, the value stored through
  \<^verbatim>\<open>old_element\<close>, the value it frees, and the flags it adds to the result.
\<close>

record 'v map_result =
  mr_array :: "'v map_entry option list"
  mr_count :: nat
  mr_old :: "'v option"
  mr_freed :: "'v option"
  mr_flags :: u32

definition map_set_entry ::
  "'v map_entry option list \<Rightarrow> nat \<Rightarrow> string \<Rightarrow> 'v \<Rightarrow> nat \<Rightarrow> u32 \<Rightarrow> 'v map_result res" where
  "map_set_entry array capacity key value element_count flags =
     rbind (probe me_key (Suc capacity) array capacity key (map_hash_key capacity key)) (\<lambda>index.
     let same = \<lparr> mr_array = array, mr_count = element_count, mr_old = None, mr_freed = None, mr_flags = 0 \<rparr> in
     case array ! index of
       Some e \<Rightarrow>
         if flags AND MAP_OVERWRITE = MAP_OVERWRITE
         then Inr (if flags AND MAP_FREE_ON_OVERWRITE = MAP_FREE_ON_OVERWRITE
                   then same\<lparr> mr_array := array[index := Some (e\<lparr> me_value := value \<rparr>)], mr_old := Some (me_value e),
                              mr_freed := Some (me_value e), mr_flags := MAP_RESULT_FREED_ON_OVERWRITE \<rparr>
                   else same\<lparr> mr_array := array[index := Some (e\<lparr> me_value := value \<rparr>)], mr_old := Some (me_value e) \<rparr>)
         else Inr (same\<lparr> mr_flags := MAP_RESULT_NOT_OVERWRITTEN \<rparr>)
     | None \<Rightarrow>
         if flags AND MAP_CREATE = MAP_CREATE
         then Inr (same\<lparr> mr_array := array[index := Some \<lparr> me_key = key, me_value = value \<rparr>], mr_count := element_count + 1 \<rparr>)
         else Inr (same\<lparr> mr_flags := MAP_RESULT_NOT_CREATED \<rparr>))"

text \<open>
  \<^verbatim>\<open>map_realloc\<close> allocates \<open>new_capacity\<close> bytes, not entries, and puts the old entries back
  through \<^verbatim>\<open>map_set\<close>, which counts them again; \<open>ms\<close> is that function.
\<close>

fun map_put_back ::
  "('v map_t \<Rightarrow> string \<Rightarrow> 'v \<Rightarrow> u32 \<Rightarrow> ('v map_t \<times> u32) res) \<Rightarrow> 'v map_t \<Rightarrow> 'v map_entry option list \<Rightarrow> 'v map_t res" where
  "map_put_back ms m [] = Inr m"
| "map_put_back ms m (None # old) = map_put_back ms m old"
| "map_put_back ms m (Some e # old) =
     rbind (ms m (me_key e) (me_value e) (MAP_CREATE OR MAP_OVERWRITE)) (\<lambda>(m', flags). map_put_back ms m' old)"

definition map_realloc ::
  "('v map_t \<Rightarrow> string \<Rightarrow> 'v \<Rightarrow> u32 \<Rightarrow> ('v map_t \<times> u32) res) \<Rightarrow> 'v map_t \<Rightarrow> nat \<Rightarrow> 'v map_t res" where
  "map_realloc ms m new_capacity =
     map_put_back ms
       (m\<lparr> mp_elements := replicate (new_capacity div map_entry_size) None, mp_capacity := new_capacity \<rparr>)
       (mp_elements m)"

definition map_check_realloc ::
  "('v map_t \<Rightarrow> string \<Rightarrow> 'v \<Rightarrow> u32 \<Rightarrow> ('v map_t \<times> u32) res) \<Rightarrow> 'v map_t \<Rightarrow> 'v map_t res" where
  "map_check_realloc ms m =
     (if 5 * mp_size m \<ge> 4 * mp_capacity m then map_realloc ms m (mp_capacity m * 2) else Inr m)"

text \<open>\<^verbatim>\<open>map_set\<close> and \<^verbatim>\<open>map_realloc\<close> call each other; the fuel bounds the nesting.\<close>

fun map_set :: "nat \<Rightarrow> 'v map_t \<Rightarrow> string \<Rightarrow> 'v \<Rightarrow> u32 \<Rightarrow> ('v map_t \<times> u32) res" where
  "map_set 0 m key value flags = Inl Out_of_fuel"
| "map_set (Suc n) m key value flags =
     rbind (map_check_realloc (map_set n) m) (\<lambda>m.
     rbind (map_set_entry (mp_elements m) (mp_capacity m) key value (mp_size m) flags) (\<lambda>r.
     Inr (m\<lparr> mp_elements := mr_array r, mp_size := mr_count r \<rparr>, mr_flags r)))"

definition map_set_ret :: "nat \<Rightarrow> 'v map_t \<Rightarrow> string \<Rightarrow> 'v \<Rightarrow> u32 \<Rightarrow> ('v map_t \<times> 'v option \<times> u32) res" where
  "map_set_ret n m key value flags =
     rbind (map_check_realloc (map_set n) m) (\<lambda>m.
     rbind (map_set_entry (mp_elements m) (mp_capacity m) key value (mp_size m) flags) (\<lambda>r.
     Inr (m\<lparr> mp_elements := mr_array r, mp_size := mr_count r \<rparr>, mr_old r, mr_flags r)))"

definition map_get :: "'v map_t \<Rightarrow> string \<Rightarrow> 'v option res" where
  "map_get m key =
     rbind (probe me_key (Suc (mp_capacity m)) (mp_elements m) (mp_capacity m) key (map_hash_key (mp_capacity m) key))
       (\<lambda>index. Inr (map_option me_value (mp_elements m ! index)))"

text \<open>\<^verbatim>\<open>map_print\<close>; \<open>show_pointer\<close> stands for the \<^verbatim>\<open>%p\<close> conversion, which C leaves to the implementation.\<close>

fun map_print_entries :: "('v \<Rightarrow> string) \<Rightarrow> nat \<Rightarrow> 'v map_entry option list \<Rightarrow> string" where
  "map_print_entries show_pointer i [] = []"
| "map_print_entries show_pointer i (None # es) = map_print_entries show_pointer (Suc i) es"
| "map_print_entries show_pointer i (Some e # es) =
     ''    '' @ [CHR 0x22] @ me_key e @ [CHR 0x22] @ '' ('' @ digits 10 i @ '') => '' @ show_pointer (me_value e) @ [newline]
       @ map_print_entries show_pointer (Suc i) es"

definition map_print :: "('v \<Rightarrow> string) \<Rightarrow> 'v map_t \<Rightarrow> string res" where
  "map_print show_pointer m =
     (if length (mp_elements m) < mp_capacity m then Inl (Undefined ''hash table over-read'')
      else Inr (''Map ('' @ digits 10 (mp_size m) @ '') {'' @ (if mp_size m > 0 then [newline] else [])
        @ map_print_entries show_pointer 0 (mp_elements m) @ ''}'' @ [newline]))"

section \<open>Below the growth threshold\<close>

definition map_ok :: "'v map_t \<Rightarrow> bool" where
  "map_ok m \<longleftrightarrow> mp_capacity m = MAP_INIT_SIZE \<and> length (mp_elements m) = MAP_INIT_SIZE \<and>
     mp_size m = occupied (mp_elements m) \<and> mp_size m \<le> 3277 \<and>
     reachable me_key (map_hash_key MAP_INIT_SIZE) (mp_elements m)"

definition map_abs :: "'v map_t \<Rightarrow> string \<Rightarrow> 'v option" where
  "map_abs m k = map_option me_value (table_map me_key (mp_elements m) k)"

lemma map_hash_key_eq: "map_hash_key = hash_key"
  by (simp add: fun_eq_iff map_hash_key_def hash_key_def)

lemma map_create_ok: "map_ok map_create" "map_abs map_create k = None"
proof -
  have "reachable me_key (map_hash_key MAP_INIT_SIZE) (replicate MAP_INIT_SIZE None)"
    unfolding map_hash_key_eq by (rule reachable_empty) (simp add: MAP_INIT_SIZE_def)
  then show "map_ok map_create"
    unfolding map_ok_def map_create_def by simp
  show "map_abs map_create k = None" by (simp add: map_create_def map_abs_def)
qed

lemma map_probe:
  assumes "map_ok m"
  obtains j where "j < length (mp_elements m)" "mp_elements m ! j = table_map me_key (mp_elements m) k"
    "probe me_key (Suc (mp_capacity m)) (mp_elements m) (mp_capacity m) k (map_hash_key (mp_capacity m) k) = Inr j"
proof -
  have m: "mp_capacity m = length (mp_elements m)" "reachable me_key (map_hash_key (length (mp_elements m))) (mp_elements m)"
    "occupied (mp_elements m) < length (mp_elements m)"
    using assms by (auto simp: map_ok_def MAP_INIT_SIZE_def)
  have f: "None \<in> set (mp_elements m) \<or> table_map me_key (mp_elements m) k \<noteq> None"
    using occupied_None [OF m(3)] by simp
  show ?thesis
    by (rule reachable_probe [OF m(2) _ f, of "Suc (length (mp_elements m))"]) (use m(1) that in simp_all)
qed

lemma map_get_ok: "map_ok m \<Longrightarrow> map_get m k = Inr (map_abs m k)"
  by (elim map_probe [of m k]) (simp add: map_get_def map_abs_def)

text \<open>What the flags ask for.\<close>

definition spec_flags :: "u32 \<Rightarrow> 'v option \<Rightarrow> u32" where
  "spec_flags flags old =
     (case old of
        Some v \<Rightarrow> if flags AND MAP_OVERWRITE = MAP_OVERWRITE
                  then (if flags AND MAP_FREE_ON_OVERWRITE = MAP_FREE_ON_OVERWRITE then MAP_RESULT_FREED_ON_OVERWRITE else 0)
                  else MAP_RESULT_NOT_OVERWRITTEN
      | None \<Rightarrow> if flags AND MAP_CREATE = MAP_CREATE then 0 else MAP_RESULT_NOT_CREATED)"

definition spec_map_set :: "u32 \<Rightarrow> (string \<Rightarrow> 'v option) \<Rightarrow> string \<Rightarrow> 'v \<Rightarrow> string \<Rightarrow> 'v option" where
  "spec_map_set flags m k v =
     (if (if m k = None then flags AND MAP_CREATE = MAP_CREATE else flags AND MAP_OVERWRITE = MAP_OVERWRITE)
      then m(k \<mapsto> v) else m)"

lemma map_set_small:
  assumes "map_ok m" "mp_size m < 3277"
  obtains m' where "map_ok m'" "map_abs m' = spec_map_set flags (map_abs m) k v"
    "map_set (Suc n) m k v flags = Inr (m', spec_flags flags (map_abs m k))"
proof -
  let ?a = "mp_elements m" and ?h = "map_hash_key MAP_INIT_SIZE"
  let ?t = "table_map me_key ?a k"
  have m: "mp_capacity m = MAP_INIT_SIZE" "length ?a = MAP_INIT_SIZE" "reachable me_key ?h ?a"
    "mp_size m = occupied ?a" "occupied ?a < length ?a"
    using assms by (auto simp: map_ok_def MAP_INIT_SIZE_def)
  obtain j where j: "j < length ?a" "?a ! j = ?t"
    "probe me_key (Suc MAP_INIT_SIZE) ?a MAP_INIT_SIZE k (?h k) = Inr j"
    using map_probe [OF assms(1), of k] by (metis m(1))
  have check: "map_check_realloc (map_set n) m = Inr m"
    using assms by (simp add: map_check_realloc_def map_ok_def MAP_INIT_SIZE_def)
  define e where "e = (case ?t of Some e \<Rightarrow> e\<lparr> me_value := v \<rparr> | None \<Rightarrow> \<lparr> me_key = k, me_value = v \<rparr>)"
  have e: "me_key e = k" "me_value e = v"
    using table_map_Some [of me_key ?a k] by (auto simp: e_def split: option.splits)
  have put: "reachable me_key ?h (?a[j := Some e])"
    "\<And>k'. table_map me_key (?a[j := Some e]) k' = (if k' = k then Some e else table_map me_key ?a k')"
    using reachable_put [OF m(3), of "Suc MAP_INIT_SIZE" e j] j(3) occupied_None [OF m(5)] m(2) e(1) by simp_all
  have abs: "map_abs m k = map_option me_value ?t" by (simp add: map_abs_def)
  let ?put = "if ?t = None then flags AND MAP_CREATE = MAP_CREATE else flags AND MAP_OVERWRITE = MAP_OVERWRITE"
  let ?m = "m\<lparr> mp_elements := ?a[j := Some e], mp_size := if ?t = None then Suc (mp_size m) else mp_size m \<rparr>"
  show ?thesis
  proof (cases ?put)
    case True
    have "map_ok ?m" using assms m j put(1) by (auto simp: map_ok_def occupied_put)
    moreover have "map_abs ?m = spec_map_set flags (map_abs m) k v"
      using True put(2) e abs by (auto simp: fun_eq_iff map_abs_def spec_map_set_def)
    moreover have "map_set (Suc n) m k v flags = Inr (?m, spec_flags flags (map_abs m k))"
      using check j m(1) True abs
      by (cases ?t) (auto simp: map_set_entry_def Let_def spec_flags_def e_def)
    ultimately show ?thesis using that by blast
  next
    case False
    then have "map_set (Suc n) m k v flags = Inr (m, spec_flags flags (map_abs m k))"
      using check j m(1) abs
      by (cases ?t) (auto simp: map_set_entry_def Let_def spec_flags_def)
    moreover have "map_abs m = spec_map_set flags (map_abs m) k v"
      using False abs by (auto simp: spec_map_set_def)
    ultimately show ?thesis using that assms(1) by blast
  qed
qed

section \<open>Growing\<close>

text \<open>In an array with fewer slots than the capacity a search stays inside it or runs past its end.\<close>

lemma probe_short:
  "length a - i < n \<Longrightarrow> length a < capacity \<Longrightarrow>
   (\<exists>j < length a. halts_at kf a k j \<and> probe kf n a capacity k i = Inr j)
   \<or> probe kf n a capacity k i = Inl (Undefined ''hash table over-read'')"
proof (induction n arbitrary: i)
  case (Suc n)
  show ?case
  proof (cases "i < length a")
    case True
    then have "\<not> capacity \<le> i + 1" "length a - (i + 1) < n" using Suc.prems by simp_all
    with Suc.IH [of "i + 1"] Suc.prems True show ?thesis
      by (auto simp: probe.simps(2) halts_at_def split: option.splits)
  next
    case False
    then show ?thesis by (simp add: probe.simps(2))
  qed
qed simp

text \<open>Putting back more entries than the new array has slots runs past its end.\<close>

lemma put_back_overflows:
  assumes "\<forall>k. map_hash_key c k < c"
  shows "length (mp_elements m) = L \<Longrightarrow> L < c \<Longrightarrow> mp_capacity m = c \<Longrightarrow>
     5 * (mp_size m + L - occupied (mp_elements m)) < 4 * c \<Longrightarrow>
     L < occupied (mp_elements m) + length (entries old) \<Longrightarrow> distinct (map me_key (entries old)) \<Longrightarrow>
     \<forall>e. Some e \<in> set old \<longrightarrow> table_map me_key (mp_elements m) (me_key e) = None \<Longrightarrow>
     map_put_back (map_set (Suc n)) m old = Inl (Undefined ''hash table over-read'')"
proof (induction old arbitrary: m)
  case Nil
  have "occupied (mp_elements m) \<le> L" using Nil.prems(1) by (auto simp: occupied_def)
  then show ?case using Nil.prems(5) by simp
next
  case (Cons x old)
  show ?case
  proof (cases x)
    case None
    then show ?thesis using Cons by simp
  next
    case (Some e)
    let ?a = "mp_elements m" and ?i = "map_hash_key c (me_key e)"
    have none: "table_map me_key ?a (me_key e) = None" using Cons.prems(7) Some by simp
    have occ: "occupied ?a \<le> L" using Cons.prems(1) by (auto simp: occupied_def)
    have "\<not> 5 * mp_size m \<ge> 4 * mp_capacity m" using occ Cons.prems(3,4) by simp
    then have check: "map_check_realloc (map_set n) m = Inr m" by (simp add: map_check_realloc_def)
    have "length ?a - ?i < Suc c" "length ?a < c" using Cons.prems(1,2) by simp_all
    from probe_short [OF this, of me_key "me_key e"] Cons.prems(1)
    consider (found) j where "j < L" "halts_at me_key ?a (me_key e) j" "probe me_key (Suc c) ?a c (me_key e) ?i = Inr j"
      | (past) "probe me_key (Suc c) ?a c (me_key e) ?i = Inl (Undefined ''hash table over-read'')"
      by blast
    then show ?thesis
    proof cases
      case past
      then show ?thesis using Some check Cons.prems(3) by (simp add: map_set_entry_def)
    next
      case found
      have free: "?a ! j = None"
      proof (rule ccontr)
        assume "?a ! j \<noteq> None"
        then obtain y where y: "?a ! j = Some y" by auto
        moreover from y found(2) have "me_key y = me_key e" by (simp add: halts_at_def)
        moreover from y found(1) Cons.prems(1) have "Some y \<in> set ?a" by (metis nth_mem)
        ultimately show False using none by (simp add: table_map_None)
      qed
      let ?m = "m\<lparr> mp_elements := ?a[j := Some e], mp_size := Suc (mp_size m) \<rparr>"
      have "map_set (Suc n) m (me_key e) (me_value e) (MAP_CREATE OR MAP_OVERWRITE) = Inr (?m, 0)"
        using check found(3) free Cons.prems(3)
        by (cases e) (simp add: map_set_entry_def MAP_CREATE_def MAP_OVERWRITE_def Let_def)
      moreover have "map_put_back (map_set (Suc n)) ?m old = Inl (Undefined ''hash table over-read'')"
      proof (rule Cons.IH)
        have o: "occupied (?a[j := Some e]) = Suc (occupied ?a)"
          using found(1) free Cons.prems(1) by (simp add: occupied_put)
        show "5 * (mp_size ?m + L - occupied (mp_elements ?m)) < 4 * c"
          using o Cons.prems(4) by simp
        show "L < occupied (mp_elements ?m) + length (entries old)"
          using o Cons.prems(5) Some by simp
        show "\<forall>y. Some y \<in> set old \<longrightarrow> table_map me_key (mp_elements ?m) (me_key y) = None"
        proof (intro allI impI)
          fix y assume y: "Some y \<in> set old"
          then have "me_key y \<in> me_key ` set (entries old)" by simp
          then have ne: "me_key y \<noteq> me_key e" using Cons.prems(6) Some by auto
          have "table_map me_key ?a (me_key y) = None" using Cons.prems(7) y by simp
          then show "table_map me_key (mp_elements ?m) (me_key y) = None"
            using ne set_update_subset_insert [of ?a j "Some e"] by (auto simp: table_map_None)
        qed
      qed (use Cons.prems Some in simp_all)
      ultimately show ?thesis using Some by (simp del: map_set.simps)
    qed
  qed
qed

lemma occupied_entries: "occupied a = length (entries a)"
  by (induction a rule: entries.induct) (auto simp: occupied_def)

lemma map_set_grown:
  assumes "map_ok m" "mp_size m = 3277"
  shows "map_set (Suc (Suc n)) m k v flags = Inl (Undefined ''hash table over-read'')"
proof -
  let ?m = "m\<lparr> mp_elements := replicate 512 None, mp_capacity := 8192 \<rparr>"
  have m: "mp_capacity m = 4096" "length (mp_elements m) = 4096" "occupied (mp_elements m) = 3277"
    "reachable me_key (map_hash_key MAP_INIT_SIZE) (mp_elements m)"
    using assms by (auto simp: map_ok_def MAP_INIT_SIZE_def)
  have "map_put_back (map_set (Suc n)) ?m (mp_elements m) = Inl (Undefined ''hash table over-read'')"
  proof (rule put_back_overflows [of 8192 ?m 512])
    show "\<forall>k. map_hash_key 8192 k < 8192" by (simp add: map_hash_key_eq hash_key_less)
    show "distinct (map me_key (entries (mp_elements m)))" using m(4) by (rule reachable_distinct)
    show "512 < occupied (mp_elements ?m) + length (entries (mp_elements m))"
      using m(3) by (simp add: occupied_entries [of "mp_elements m"])
    show "5 * (mp_size ?m + 512 - occupied (mp_elements ?m)) < 4 * 8192"
      using assms(2) by (simp)
  qed (use assms in simp_all)
  then have "map_check_realloc (map_set (Suc n)) m = Inl (Undefined ''hash table over-read'')"
    using m(1) assms(2) by (simp add: map_check_realloc_def map_realloc_def map_entry_size_def)
  then show ?thesis by simp
qed

section \<open>Properties\<close>

text \<open>
  C39. Up to its 3277th entry the table is a map that obeys the flags of each call, results included:
  an entry is created or overwritten only when the flags allow it, and every other name keeps its
  value. The next call, whatever it asks for, grows the table and writes past the end of the new
  array, which has room for a sixteenth of the entries.
\<close>

theorem map_set_until_growth:
  assumes "map_ok m" and "2 \<le> n"
  shows "if mp_size m < 3277
    then (case map_set n m k v flags of Inl e \<Rightarrow> False
          | Inr (m', result) \<Rightarrow> map_ok m' \<and> result = spec_flags flags (map_abs m k)
              \<and> map_get m' k' = Inr (spec_map_set flags (map_abs m) k v k'))
    else map_set n m k v flags = Inl (Undefined ''hash table over-read'')"
proof (cases "mp_size m < 3277")
  case True
  obtain n' where "n = Suc n'" using assms(2) by (cases n) auto
  with map_set_small [OF assms(1) True, of flags k v n'] obtain m' where
    "map_ok m'" "map_abs m' = spec_map_set flags (map_abs m) k v" "map_set n m k v flags = Inr (m', spec_flags flags (map_abs m k))"
    by blast
  with True map_get_ok [of m' k'] show ?thesis by simp
next
  case False
  then have "mp_size m = 3277" using assms(1) by (simp add: map_ok_def)
  moreover obtain n' where "n = Suc (Suc n')" using assms(2) by (cases n; cases "n - 1") auto
  ultimately show ?thesis using map_set_grown [OF assms(1)] by simp
qed

lemma map_set_until_growth_witness:
  "case map_set 2 map_create ''a'' True MAP_CREATE of Inl e \<Rightarrow> False
   | Inr (m', result) \<Rightarrow> map_ok m' \<and> result = 0 \<and> map_get m' ''a'' = Inr (Some True)"
proof -
  have "map_abs map_create = (\<lambda>_. None :: bool option)" by (simp add: fun_eq_iff map_create_ok)
  with map_set_until_growth [OF map_create_ok(1), where n = 2 and k = "''a''" and v = True and flags = MAP_CREATE and k' = "''a''"]
  show ?thesis
    by (simp add: spec_flags_def spec_map_set_def map_create_def split: sum.splits prod.splits)
qed

end
