(* ===== verification/Vm_Stack.thy ===== *)
theory Vm_Stack
  imports Prelude
begin

text \<open>
  The virtual machine's byte stack (src/stack.c, src/stack.h), the interface its clients use
  (\<open>lifo\<close>) and the proof that the growing array provides it.
\<close>

section \<open>Model\<close>

record blaze_stack =
  stk_bytes :: buffer
  stk_size :: nat
  stk_index :: nat

definition blaze_stack_create :: "nat \<Rightarrow> blaze_stack" where
  "blaze_stack_create initial_size =
     \<lparr> stk_bytes = replicate initial_size (Some 0), stk_size = initial_size, stk_index = 0 \<rparr>"

definition stack_check_realloc :: "blaze_stack \<Rightarrow> blaze_stack" where
  "stack_check_realloc s =
     (if stk_index s \<ge> stk_size s
      then s\<lparr> stk_size := stk_size s + 50,
              stk_bytes := buf_realloc (stk_bytes s) (stk_size s + 50) \<rparr>
      else s)"

text \<open>The returned pointer is the byte's offset in the array.\<close>

definition blaze_stack_push_byte :: "u8 \<Rightarrow> (blaze_stack, nat) st" where
  "blaze_stack_push_byte b = (\<lambda>s0.
     let s = stack_check_realloc s0 in
     case buf_set (stk_bytes s) (stk_index s) b of
       Inl e \<Rightarrow> Inl e
     | Inr bs \<Rightarrow> Inr (stk_index s, s\<lparr> stk_bytes := bs, stk_index := stk_index s + 1 \<rparr>))"

definition blaze_stack_pop_byte :: "(blaze_stack, u8) st" where
  "blaze_stack_pop_byte = (\<lambda>s.
     if stk_index s = 0 then Inl (Fatal_error ''Stack is empty'')
     else case buf_get (stk_bytes s) (stk_index s - 1) of
            Inl e \<Rightarrow> Inl e
          | Inr b \<Rightarrow> Inr (b, s\<lparr> stk_index := stk_index s - 1 \<rparr>))"

definition blaze_stack_free :: "blaze_stack \<Rightarrow> blaze_stack" where
  "blaze_stack_free s = s\<lparr> stk_bytes := [], stk_size := 0, stk_index := 0 \<rparr>"

section \<open>The interface\<close>

text \<open>
  What a client of a stack relies on: \<open>abs\<close> is the stack's content, top first; a push
  never fails, a pop gives back the top, and popping an empty stack ends with \<open>empty_fault\<close>.
\<close>

locale lifo =
  fixes inv :: "'s \<Rightarrow> bool"
    and abs :: "'s \<Rightarrow> 'b list"
    and push :: "'b \<Rightarrow> ('s, 'p) st"
    and pop :: "('s, 'b) st"
    and empty_fault :: fault
  assumes push_law: "inv s \<Longrightarrow> \<exists>p t. push x s = Inr (p, t) \<and> inv t \<and> abs t = x # abs s"
    and pop_law: "inv s \<Longrightarrow> abs s = x # xs \<Longrightarrow> \<exists>t. pop s = Inr (x, t) \<and> inv t \<and> abs t = xs"
    and pop_empty_law: "inv s \<Longrightarrow> abs s = [] \<Longrightarrow> pop s = Inl empty_fault"

fun push_all :: "('b \<Rightarrow> ('s, 'p) st) \<Rightarrow> 'b list \<Rightarrow> ('s, unit) st" where
  "push_all push [] = sret ()"
| "push_all push (x # xs) = sbind (push x) (\<lambda>_. push_all push xs)"

fun pop_n :: "('s, 'b) st \<Rightarrow> nat \<Rightarrow> ('s, 'b list) st" where
  "pop_n pop 0 = sret []"
| "pop_n pop (Suc n) = sbind pop (\<lambda>x. sbind (pop_n pop n) (\<lambda>xs. sret (x # xs)))"

context lifo begin

lemma push_all_law:
  "inv s \<Longrightarrow> \<exists>t. push_all push xs s = Inr ((), t) \<and> inv t \<and> abs t = rev xs @ abs s"
proof (induction xs arbitrary: s)
  case Nil
  then show ?case by simp
next
  case (Cons x xs)
  obtain p u where "push x s = Inr (p, u)" "inv u" "abs u = x # abs s"
    using push_law [OF Cons.prems] by blast
  then show ?case
    using Cons.IH [of u] by (auto simp: sbind_Inr)
qed

lemma pop_n_law:
  "inv s \<Longrightarrow> abs s = xs @ ys \<Longrightarrow> \<exists>t. pop_n pop (length xs) s = Inr (xs, t) \<and> inv t \<and> abs t = ys"
proof (induction xs arbitrary: s)
  case Nil
  then show ?case by simp
next
  case (Cons x xs)
  then obtain u where "pop s = Inr (x, u)" "inv u" "abs u = xs @ ys"
    using pop_law [of s x "xs @ ys"] by auto
  then show ?case
    using Cons.IH [of u] by (auto simp: sbind_Inr)
qed

lemma push_pop_reverse:
  assumes "inv s"
  shows "\<exists>t. sbind (push_all push xs) (\<lambda>_. pop_n pop (length xs)) s = Inr (rev xs, t)
             \<and> inv t \<and> abs t = abs s"
proof -
  obtain u where u: "push_all push xs s = Inr ((), u)" "inv u" "abs u = rev xs @ abs s"
    using push_all_law [OF assms] by blast
  with pop_n_law [of u "rev xs" "abs s"] show ?thesis
    by (auto simp: sbind_Inr)
qed

lemma pop_too_many:
  "inv s \<Longrightarrow> length (abs s) < n \<Longrightarrow> pop_n pop n s = Inl empty_fault"
proof (induction n arbitrary: s)
  case 0
  then show ?case by simp
next
  case (Suc n)
  show ?case
  proof (cases "abs s")
    case Nil
    with Suc.prems show ?thesis by (simp add: pop_empty_law sbind_Inl)
  next
    case (Cons x xs)
    then obtain u where "pop s = Inr (x, u)" "inv u" "abs u = xs"
      using pop_law Suc.prems by blast
    with Suc Cons show ?thesis by (simp add: sbind_Inr sbind_Inl)
  qed
qed

end

section \<open>The array provides the interface\<close>

text \<open>
  The array is as long as \<open>stk_size\<close> says and every byte below the index has been written.
\<close>

definition stack_ok :: "blaze_stack \<Rightarrow> bool" where
  "stack_ok s \<longleftrightarrow> length (stk_bytes s) = stk_size s \<and> stk_index s \<le> stk_size s
     \<and> (\<forall>i < stk_index s. stk_bytes s ! i \<noteq> None)"

definition stack_contents :: "blaze_stack \<Rightarrow> u8 list" where
  "stack_contents s = rev (map the (take (stk_index s) (stk_bytes s)))"

lemma stack_create_ok [simp]: "stack_ok (blaze_stack_create n)"
  by (simp add: stack_ok_def blaze_stack_create_def)

lemma stack_create_contents [simp]: "stack_contents (blaze_stack_create n) = []"
  by (simp add: stack_contents_def blaze_stack_create_def)

lemma stack_check_realloc_ok:
  assumes "stack_ok s"
  defines "t \<equiv> stack_check_realloc s"
  shows "stack_ok t" "stk_index t = stk_index s" "stk_index t < stk_size t"
    "stack_contents t = stack_contents s"
proof -
  show "stack_ok t" "stk_index t = stk_index s" "stk_index t < stk_size t"
    using assms by (auto simp: stack_ok_def stack_check_realloc_def nth_buf_realloc)
  show "stack_contents t = stack_contents s"
    using assms by (auto simp: stack_ok_def stack_contents_def stack_check_realloc_def buf_realloc_def)
qed

lemma push_byte_law:
  assumes "stack_ok s"
  shows "\<exists>p t. blaze_stack_push_byte b s = Inr (p, t) \<and> stack_ok t
               \<and> stack_contents t = b # stack_contents s"
proof -
  define r where "r = stack_check_realloc s"
  note r = stack_check_realloc_ok [OF assms, folded r_def]
  have lt: "stk_index r < length (stk_bytes r)"
    using r by (simp add: stack_ok_def)
  define t where "t = r\<lparr> stk_bytes := (stk_bytes r)[stk_index r := Some b],
                         stk_index := stk_index r + 1 \<rparr>"
  have "blaze_stack_push_byte b s = Inr (stk_index r, t)"
    using lt by (simp add: blaze_stack_push_byte_def buf_set_def t_def flip: r_def)
  moreover have "stack_ok t"
    using r(1,3) lt by (auto simp: stack_ok_def t_def nth_list_update less_Suc_eq)
  moreover have "stack_contents t = b # stack_contents s"
    using lt r(4) by (simp add: stack_contents_def t_def take_Suc_conv_app_nth)
  ultimately show ?thesis by blast
qed

lemma pop_byte_law:
  assumes "stack_ok s" and "stack_contents s = b # bs"
  shows "\<exists>t. blaze_stack_pop_byte s = Inr (b, t) \<and> stack_ok t \<and> stack_contents t = bs"
proof -
  obtain i where i: "stk_index s = Suc i"
    using assms(2) by (cases "stk_index s") (auto simp: stack_contents_def)
  have lt: "i < length (stk_bytes s)"
    using assms(1) i by (simp add: stack_ok_def)
  then have tk: "take (Suc i) (stk_bytes s) = take i (stk_bytes s) @ [stk_bytes s ! i]"
    by (simp add: take_Suc_conv_app_nth)
  obtain c where c: "stk_bytes s ! i = Some c"
    using assms(1) i by (auto simp: stack_ok_def)
  have "b = c" "bs = rev (map the (take i (stk_bytes s)))"
    using assms(2) i tk c by (simp_all add: stack_contents_def)
  then show ?thesis
    using assms(1) i lt c
    by (simp add: blaze_stack_pop_byte_def buf_get_def stack_ok_def stack_contents_def)
qed

lemma pop_byte_empty:
  assumes "stack_ok s" and "stack_contents s = []"
  shows "blaze_stack_pop_byte s = Inl (Fatal_error ''Stack is empty'')"
  using assms by (auto simp: stack_contents_def blaze_stack_pop_byte_def stack_ok_def)

interpretation vm_stack: lifo stack_ok stack_contents blaze_stack_push_byte blaze_stack_pop_byte
  "Fatal_error ''Stack is empty''"
  by unfold_locales (use push_byte_law pop_byte_law pop_byte_empty in blast)+

section \<open>Properties\<close>

text \<open>
  C32. On a well-formed stack, pushing any bytes and then popping as many gives them back in
  reverse order and leaves the content as it was; neither the array's growth by 50 bytes nor
  its uninitialised tail can be observed.
\<close>

theorem stack_push_pop_reverse:
  assumes "stack_ok s"
  shows "\<exists>t. sbind (push_all blaze_stack_push_byte bs) (\<lambda>_. pop_n blaze_stack_pop_byte (length bs)) s
               = Inr (rev bs, t) \<and> stack_ok t \<and> stack_contents t = stack_contents s"
  by (rule vm_stack.push_pop_reverse [OF assms])

theorem stack_push_pop_reverse_witness:
  "\<exists>t. sbind (push_all blaze_stack_push_byte [1, 2, 3]) (\<lambda>_. pop_n blaze_stack_pop_byte (length [1::u8, 2, 3]))
         (blaze_stack_create 2) = Inr (rev [1, 2, 3], t)
       \<and> stack_ok t \<and> stack_contents t = stack_contents (blaze_stack_create 2)"
  by (rule stack_push_pop_reverse) simp

end
