(* ===== verification/Vm_Bytecode.thy ===== *)
theory Vm_Bytecode
  imports Prelude
begin

text \<open>
  The growable code buffer of the virtual machine (src/bytecode.c, src/bytecode.h): appending
  and reading little-endian integers of 1, 2, 4 and 8 bytes, and loading a file, its shebang
  line stripped.
\<close>

section \<open>Model\<close>

text \<open>
  \<open>bc_base\<close> is the address \<^verbatim>\<open>malloc\<close> returned: the instruction pointer of the machine
  holds absolute addresses. \<open>bc_bytes\<close> is as long as the block is.
\<close>

record bytecode =
  bc_base :: u64
  bc_bytes :: buffer
  bc_size :: nat
  bc_cap :: nat

definition bytecode_init :: "u64 \<Rightarrow> bytecode" where
  "bytecode_init base = \<lparr> bc_base = base, bc_bytes = replicate 10 (Some 0), bc_size = 0, bc_cap = 10 \<rparr>"

definition bytecode_init_from_stream :: "u64 \<Rightarrow> u8 list \<Rightarrow> bytecode" where
  "bytecode_init_from_stream base stream =
     \<lparr> bc_base = base, bc_bytes = map Some stream, bc_size = length stream, bc_cap = length stream \<rparr>"

text \<open>
  The loop that strips a \<^verbatim>\<open>#!\<close> line: it drops bytes up to and including the first line
  break, or all of them.
\<close>

fun skip_shebang_line :: "u8 list \<Rightarrow> u8 list" where
  "skip_shebang_line [] = []"
| "skip_shebang_line (b # bs) = (if b = 0x0A \<or> b = 0x0D then bs else skip_shebang_line bs)"

definition bytecode_init_from_filebuf :: "u64 \<Rightarrow> u8 list \<Rightarrow> bytecode" where
  "bytecode_init_from_filebuf base content =
     (let stream = (if length content > 2 \<and> content ! 0 = 0x23 \<and> content ! 1 = 0x21
                    then skip_shebang_line content else content)
      in bytecode_init_from_stream base stream)"

definition bytecode_check_realloc :: "bytecode \<Rightarrow> bytecode" where
  "bytecode_check_realloc bc =
     (if bc_size bc \<ge> bc_cap bc
      then bc\<lparr> bc_cap := bc_cap bc + 20, bc_bytes := buf_realloc (bc_bytes bc) (bc_cap bc + 20) \<rparr>
      else bc)"

definition bytecode_push_byte :: "bytecode \<Rightarrow> u8 \<Rightarrow> bytecode res" where
  "bytecode_push_byte bc0 byte =
     (let bc = bytecode_check_realloc bc0 in
      rbind (buf_set (bc_bytes bc) (bc_size bc) byte) (\<lambda>bs.
        Inr (bc\<lparr> bc_bytes := bs, bc_size := bc_size bc + 1 \<rparr>)))"

definition bytecode_push_word :: "bytecode \<Rightarrow> u16 \<Rightarrow> bytecode res" where
  "bytecode_push_word bc0 word =
     (let bc = bytecode_check_realloc bc0 in
      rbind (buf_write (bc_bytes bc) (bc_size bc) (le_bytes 2 word)) (\<lambda>bs.
        Inr (bc\<lparr> bc_bytes := bs, bc_size := bc_size bc + 2 \<rparr>)))"

definition bytecode_push_dword :: "bytecode \<Rightarrow> u32 \<Rightarrow> bytecode res" where
  "bytecode_push_dword bc0 dword =
     (let bc = bytecode_check_realloc bc0 in
      rbind (buf_write (bc_bytes bc) (bc_size bc) (le_bytes 4 dword)) (\<lambda>bs.
        Inr (bc\<lparr> bc_bytes := bs, bc_size := bc_size bc + 4 \<rparr>)))"

definition bytecode_push_qword :: "bytecode \<Rightarrow> u64 \<Rightarrow> bytecode res" where
  "bytecode_push_qword bc0 qword =
     (let bc = bytecode_check_realloc bc0 in
      rbind (buf_write (bc_bytes bc) (bc_size bc) (le_bytes 8 qword)) (\<lambda>bs.
        Inr (bc\<lparr> bc_bytes := bs, bc_size := bc_size bc + 8 \<rparr>)))"

text \<open>
  Addresses are \<^verbatim>\<open>size_t\<close>: the bound in the assertions is computed modulo \<open>2 ^ 64\<close>.
\<close>

definition out_of_range :: string where
  "out_of_range = ''Address out of range''"

definition bytecode_get_byte :: "bytecode \<Rightarrow> u64 \<Rightarrow> u8 res" where
  "bytecode_get_byte bc addr =
     (if unat addr < bc_size bc then buf_get (bc_bytes bc) (unat addr)
      else Inl (Assertion_failed out_of_range))"

definition bytecode_get_word :: "bytecode \<Rightarrow> u64 \<Rightarrow> u16 res" where
  "bytecode_get_word bc addr =
     (if unat (addr + 1) < bc_size bc
      then rbind (buf_read (bc_bytes bc) (unat addr) 2) (\<lambda>bs. Inr (le_word bs))
      else Inl (Assertion_failed out_of_range))"

definition bytecode_get_dword :: "bytecode \<Rightarrow> u64 \<Rightarrow> u32 res" where
  "bytecode_get_dword bc addr =
     (if unat (addr + 3) < bc_size bc
      then rbind (buf_read (bc_bytes bc) (unat addr) 4) (\<lambda>bs. Inr (le_word bs))
      else Inl (Assertion_failed out_of_range))"

definition bytecode_get_qword :: "bytecode \<Rightarrow> u64 \<Rightarrow> u64 res" where
  "bytecode_get_qword bc addr =
     (if unat (addr + 7) < bc_size bc
      then rbind (buf_read (bc_bytes bc) (unat addr) 8) (\<lambda>bs. Inr (le_word bs))
      else Inl (Assertion_failed out_of_range))"

definition bytecode_free :: "bytecode \<Rightarrow> bytecode" where
  "bytecode_free bc = bc\<lparr> bc_bytes := [], bc_size := 0 \<rparr>"

section \<open>Well-formed buffers\<close>

definition bytecode_ok :: "bytecode \<Rightarrow> bool" where
  "bytecode_ok bc \<longleftrightarrow> length (bc_bytes bc) = bc_cap bc \<and> bc_size bc \<le> bc_cap bc
     \<and> (\<forall>i < bc_size bc. bc_bytes bc ! i \<noteq> None)"

definition code_of :: "bytecode \<Rightarrow> u8 list" where
  "code_of bc = map the (take (bc_size bc) (bc_bytes bc))"

text \<open>What a push of \<open>n\<close> bytes needs: after the only growth step, they fit.\<close>

definition room_for :: "nat \<Rightarrow> bytecode \<Rightarrow> bool" where
  "room_for n bc \<longleftrightarrow> bc_size bc + n \<le> bc_cap (bytecode_check_realloc bc)"

lemma bytecode_init_ok [simp]: "bytecode_ok (bytecode_init base)"
  by (simp add: bytecode_ok_def bytecode_init_def)

lemma bytecode_from_stream_ok [simp]:
  "bytecode_ok (bytecode_init_from_stream base bs)" "code_of (bytecode_init_from_stream base bs) = bs"
  "bc_size (bytecode_init_from_stream base bs) = length bs" "bc_base (bytecode_init_from_stream base bs) = base"
  by (simp_all add: bytecode_ok_def bytecode_init_from_stream_def code_of_def)

lemma bytecode_check_realloc_ok:
  assumes "bytecode_ok bc"
  shows "bytecode_ok (bytecode_check_realloc bc)"
    "bc_size (bytecode_check_realloc bc) = bc_size bc"
    "code_of (bytecode_check_realloc bc) = code_of bc"
  using assms
  by (auto simp: bytecode_ok_def bytecode_check_realloc_def nth_buf_realloc code_of_def)
     (simp add: buf_realloc_def)

lemma code_of_read:
  assumes "bytecode_ok bc" and "i + n \<le> bc_size bc"
  shows "buf_read (bc_bytes bc) i n = Inr (take n (drop i (code_of bc)))"
proof (rule buf_read_eq)
  show "i + n \<le> length (bc_bytes bc)"
    using assms by (simp add: bytecode_ok_def)
  show "take n (drop i (bc_bytes bc)) = map Some (take n (drop i (code_of bc)))"
    using assms by (intro nth_equalityI) (auto simp: code_of_def bytecode_ok_def)
qed

lemma code_of_get:
  assumes "bytecode_ok bc" and "i < bc_size bc"
  shows "buf_get (bc_bytes bc) i = Inr (code_of bc ! i)"
proof -
  have "bc_bytes bc ! i \<noteq> None" "i < length (bc_bytes bc)"
    using assms by (simp_all add: bytecode_ok_def)
  then show ?thesis
    using assms by (auto simp: buf_get_Inr code_of_def)
qed

lemma length_code_of: "bytecode_ok bc \<Longrightarrow> length (code_of bc) = bc_size bc"
  by (simp add: bytecode_ok_def code_of_def)

text \<open>One lemma behind the three multi-byte pushes.\<close>

lemma push_bytes:
  assumes "bytecode_ok bc" and "room_for (length xs) bc"
  defines "r \<equiv> bytecode_check_realloc bc"
  shows "\<exists>bs. buf_write (bc_bytes r) (bc_size r) xs = Inr bs
          \<and> bytecode_ok (r\<lparr> bc_bytes := bs, bc_size := bc_size r + length xs \<rparr>)
          \<and> code_of (r\<lparr> bc_bytes := bs, bc_size := bc_size r + length xs \<rparr>) = code_of bc @ xs"
proof -
  note r = bytecode_check_realloc_ok [OF assms(1), folded r_def]
  have fits: "bc_size r + length xs \<le> length (bc_bytes r)"
    using r assms(2) by (simp add: bytecode_ok_def room_for_def r_def)
  define bs where "bs = take (bc_size r) (bc_bytes r) @ map Some xs
                        @ drop (bc_size r + length xs) (bc_bytes r)"
  let ?t = "r\<lparr> bc_bytes := bs, bc_size := bc_size r + length xs \<rparr>"
  have len: "length bs = bc_cap r"
    using fits r(1) by (simp add: bs_def bytecode_ok_def)
  have "buf_write (bc_bytes r) (bc_size r) xs = Inr bs"
    using buf_write_eq [OF fits] by (simp add: bs_def)
  moreover have "bytecode_ok ?t"
    using fits r(1) len by (auto simp: bytecode_ok_def) (auto simp: bs_def nth_append)
  moreover have "code_of ?t = code_of bc @ xs"
    using fits r(3) by (simp add: code_of_def bs_def comp_def)
  ultimately show ?thesis by blast
qed

lemma push_qword_law:
  assumes "bytecode_ok bc" and "room_for 8 bc"
  shows "\<exists>bc'. bytecode_push_qword bc q = Inr bc' \<and> bytecode_ok bc'
               \<and> code_of bc' = code_of bc @ le_bytes 8 q"
  using push_bytes [OF assms(1), of "le_bytes 8 q"] assms(2)
  by (auto simp: bytecode_push_qword_def Let_def)

lemma push_dword_law:
  assumes "bytecode_ok bc" and "room_for 4 bc"
  shows "\<exists>bc'. bytecode_push_dword bc q = Inr bc' \<and> bytecode_ok bc'
               \<and> code_of bc' = code_of bc @ le_bytes 4 q"
  using push_bytes [OF assms(1), of "le_bytes 4 q"] assms(2)
  by (auto simp: bytecode_push_dword_def Let_def)

lemma push_word_law:
  assumes "bytecode_ok bc" and "room_for 2 bc"
  shows "\<exists>bc'. bytecode_push_word bc q = Inr bc' \<and> bytecode_ok bc'
               \<and> code_of bc' = code_of bc @ le_bytes 2 q"
  using push_bytes [OF assms(1), of "le_bytes 2 q"] assms(2)
  by (auto simp: bytecode_push_word_def Let_def)

lemma room_for_byte: "bytecode_ok bc \<Longrightarrow> room_for 1 bc"
  by (simp add: room_for_def bytecode_check_realloc_def bytecode_ok_def)

lemma push_byte_ok:
  assumes "bytecode_ok bc"
  shows "\<exists>bc'. bytecode_push_byte bc b = Inr bc' \<and> bytecode_ok bc' \<and> code_of bc' = code_of bc @ [b]"
  using push_bytes [OF assms, of "[b]"] room_for_byte [OF assms]
  by (auto simp: bytecode_push_byte_def Let_def rbind_eq_Inr)

lemma get_qword_at:
  assumes "bytecode_ok bc" and "unat a + 8 \<le> bc_size bc" and "bc_size bc < 2 ^ 64"
  shows "bytecode_get_qword bc a = Inr (le_word (take 8 (drop (unat a) (code_of bc))))"
proof -
  have "unat (a + 7) = unat a + 7"
    using assms by (simp add: unat_word_ariths)
  then show ?thesis
    using assms code_of_read [of bc "unat a" 8] by (simp add: bytecode_get_qword_def)
qed

section \<open>Properties\<close>

text \<open>
  C33. What \<^verbatim>\<open>bytecode_push_qword\<close> appends, \<^verbatim>\<open>bytecode_get_qword\<close> reads back at the
  address where it was put, whenever the eight bytes fit the block after the push's growth
  step; the code before it is unchanged.
\<close>

theorem push_get_qword:
  assumes "bytecode_ok bc" and "room_for 8 bc" and "bc_size bc + 8 < 2 ^ 64"
  shows "\<exists>bc'. bytecode_push_qword bc q = Inr bc' \<and> bytecode_ok bc'
               \<and> take (bc_size bc) (code_of bc') = code_of bc
               \<and> bytecode_get_qword bc' (of_nat (bc_size bc)) = Inr q"
proof -
  obtain bc' where bc': "bytecode_push_qword bc q = Inr bc'" "bytecode_ok bc'"
    "code_of bc' = code_of bc @ le_bytes 8 q"
    using push_qword_law [OF assms(1,2)] by blast
  have len: "length (code_of bc) = bc_size bc" "bc_size bc' = bc_size bc + 8"
    using length_code_of [OF assms(1)] length_code_of [OF bc'(2)] bc'(3) by auto
  have a: "unat (of_nat (bc_size bc) :: u64) = bc_size bc"
    using assms(3) by (simp add: unat_of_nat take_bit_nat_eq_self)
  have "le_word (le_bytes 8 q) = q"
    by (rule le_word_le_bytes) simp
  then have "bytecode_get_qword bc' (of_nat (bc_size bc)) = Inr q"
    using get_qword_at [OF bc'(2), of "of_nat (bc_size bc)"] assms(3) a bc'(3) len by simp
  then show ?thesis
    using bc' len by auto
qed

theorem push_get_qword_witness:
  "\<exists>bc'. bytecode_push_qword (bytecode_init 4096) 0x1122334455667788 = Inr bc' \<and> bytecode_ok bc'
         \<and> take (bc_size (bytecode_init 4096)) (code_of bc') = code_of (bytecode_init 4096)
         \<and> bytecode_get_qword bc' (of_nat (bc_size (bytecode_init 4096))) = Inr 0x1122334455667788"
  by (rule push_get_qword)
     (simp_all add: room_for_def bytecode_init_def bytecode_check_realloc_def bytecode_ok_def)

text \<open>
  The growth step of \<^verbatim>\<open>bytecode_push_qword\<close> looks only at whether the block is already
  full: with one to seven free bytes it does not grow, and the copy runs past the end of the
  block.
\<close>

theorem push_qword_overflow:
  assumes "bytecode_ok bc" and "bc_size bc < bc_cap bc" and "bc_cap bc < bc_size bc + 8"
  shows "bytecode_push_qword bc q = Inl (Undefined ''buffer overflow'')"
proof -
  have "bytecode_check_realloc bc = bc"
    using assms(2) by (simp add: bytecode_check_realloc_def)
  moreover have "buf_write (bc_bytes bc) (bc_size bc) (le_bytes 8 q) = Inl (Undefined ''buffer overflow'')"
    using assms by (intro buf_write_overflow) (auto simp: bytecode_ok_def simp flip: length_greater_0_conv)
  ultimately show ?thesis
    by (simp add: bytecode_push_qword_def)
qed

definition three_pushed :: bytecode where
  "three_pushed = \<lparr> bc_base = 4096,
     bc_bytes = map Some [2, 0, 2] @ replicate 7 (Some 0), bc_size = 3, bc_cap = 10 \<rparr>"

theorem push_qword_overflow_witness:
  "rbind (bytecode_push_byte (bytecode_init 4096) 2) (\<lambda>b1.
   rbind (bytecode_push_byte b1 0) (\<lambda>b2. bytecode_push_byte b2 2)) = Inr three_pushed
   \<and> bytecode_push_qword three_pushed 5 = Inl (Undefined ''buffer overflow'')"
proof
  show "rbind (bytecode_push_byte (bytecode_init 4096) 2) (\<lambda>b1.
        rbind (bytecode_push_byte b1 0) (\<lambda>b2. bytecode_push_byte b2 2)) = Inr three_pushed"
    by (simp add: bytecode_push_byte_def bytecode_init_def bytecode_check_realloc_def
        buf_set_def three_pushed_def numeral_eq_Suc)
  show "bytecode_push_qword three_pushed 5 = Inl (Undefined ''buffer overflow'')"
    by (rule push_qword_overflow)
       (auto simp: three_pushed_def bytecode_ok_def nth_append nth_Cons split: nat.splits)
qed

text \<open>
  The range assertion of \<^verbatim>\<open>bytecode_get_qword\<close> adds 7 to the address modulo
  \<open>2 ^ 64\<close>: for the seven highest addresses it passes, and the copy reads outside the block.
\<close>

theorem get_qword_assertion_wraps:
  assumes "bytecode_ok bc" and "7 \<le> bc_size bc" and "bc_cap bc < 2 ^ 63" and "addr \<ge> - 7"
  shows "bytecode_get_qword bc addr = Inl (Undefined ''buffer over-read'')"
proof -
  have lo: "2 ^ 64 - 7 \<le> unat addr"
    using assms(4) by (simp add: word_le_nat_alt)
  have hi: "unat addr < 2 ^ 64"
    by (rule unat_u64_less)
  have "unat (addr + 7) = unat addr + 7 - 2 ^ 64"
    using lo hi by (simp add: unat_word_ariths mod_if)
  then have "unat (addr + 7) < bc_size bc"
    using assms(2) hi by simp
  moreover have "buf_read (bc_bytes bc) (unat addr) 8 = Inl (Undefined ''buffer over-read'')"
    using assms(1,3) lo by (intro buf_read_beyond) (simp_all add: bytecode_ok_def)
  ultimately show ?thesis
    by (simp add: bytecode_get_qword_def)
qed

theorem get_qword_assertion_wraps_witness:
  "bytecode_get_qword (bytecode_init_from_stream 4096 [1, 2, 3, 4, 5, 6, 7]) (- 1)
     = Inl (Undefined ''buffer over-read'')"
  by (rule get_qword_assertion_wraps)
     (simp_all add: bytecode_init_from_stream_def bytecode_ok_def nth_Cons')

end
