(* ===== verification/Vm_Machine.thy ===== *)
theory Vm_Machine
  imports Vm_Stack Vm_Bytecode
begin

text \<open>
  The virtual machine: its registers (src/register.c), the instruction tables and handlers
  (src/opcode.c) and the fetch-execute loop (\<^verbatim>\<open>bytecode_exec\<close> in src/bytecode.c).
\<close>

section \<open>Registers\<close>

datatype register_type = R0 | R1 | R2 | R3 | R4 | R5 | R6 | R7 | R8 | R9 | IP | IS

definition register_table :: "register_type list" where
  "register_table = [R0, R1, R2, R3, R4, R5, R6, R7, R8, R9, IP, IS]"

definition REG_COUNT :: nat where
  "REG_COUNT = 12"

definition is_valid_register_id :: "nat \<Rightarrow> bool" where
  "is_valid_register_id rid \<longleftrightarrow> rid < REG_COUNT"

fun register_name :: "register_type \<Rightarrow> string" where
  "register_name R0 = ''r0''" | "register_name R1 = ''r1''" | "register_name R2 = ''r2''"
| "register_name R3 = ''r3''" | "register_name R4 = ''r4''" | "register_name R5 = ''r5''"
| "register_name R6 = ''r6''" | "register_name R7 = ''r7''" | "register_name R8 = ''r8''"
| "register_name R9 = ''r9''" | "register_name IP = ''ip''" | "register_name IS = ''is''"

definition register_id_to_str :: "nat \<Rightarrow> string res" where
  "register_id_to_str rid =
     (if is_valid_register_id rid then Inr (register_name (register_table ! rid))
      else Inl (Assertion_failed ''Invalid register ID''))"

section \<open>Opcodes and their tables\<close>

datatype opcode_t =
    OP_NO_OP | OP_HLT | OP_MOV_IR | OP_ADD_RR | OP_SYSCALL | OP_REGDUMP
  | OP_PUSH_R_B | OP_POP_R_B | OP_STACK_DMP

definition opcode_table :: "opcode_t list" where
  "opcode_table = [OP_NO_OP, OP_HLT, OP_MOV_IR, OP_ADD_RR, OP_SYSCALL, OP_REGDUMP,
                   OP_PUSH_R_B, OP_POP_R_B, OP_STACK_DMP]"

definition OPCODE_COUNT :: nat where
  "OPCODE_COUNT = 9"

datatype addressing_mode_t = AM_NONE | AM_IMMEDIATE | AM_REGISTER

record operand_info =
  oi_size :: nat
  oi_addrmode :: addressing_mode_t

fun opcode_operand_sizes_lut :: "opcode_t \<Rightarrow> nat \<times> nat" where
  "opcode_operand_sizes_lut OP_NO_OP = (0, 0)"
| "opcode_operand_sizes_lut OP_HLT = (0, 0)"
| "opcode_operand_sizes_lut OP_MOV_IR = (1, 8)"
| "opcode_operand_sizes_lut OP_ADD_RR = (1, 1)"
| "opcode_operand_sizes_lut OP_SYSCALL = (0, 0)"
| "opcode_operand_sizes_lut OP_REGDUMP = (0, 0)"
| "opcode_operand_sizes_lut OP_STACK_DMP = (0, 0)"
| "opcode_operand_sizes_lut OP_PUSH_R_B = (1, 0)"
| "opcode_operand_sizes_lut OP_POP_R_B = (1, 0)"

fun opcode_operand_addrmode_lut :: "opcode_t \<Rightarrow> addressing_mode_t \<times> addressing_mode_t" where
  "opcode_operand_addrmode_lut OP_HLT = (AM_NONE, AM_NONE)"
| "opcode_operand_addrmode_lut OP_NO_OP = (AM_NONE, AM_NONE)"
| "opcode_operand_addrmode_lut OP_MOV_IR = (AM_REGISTER, AM_IMMEDIATE)"
| "opcode_operand_addrmode_lut OP_ADD_RR = (AM_REGISTER, AM_REGISTER)"
| "opcode_operand_addrmode_lut OP_SYSCALL = (AM_NONE, AM_NONE)"
| "opcode_operand_addrmode_lut OP_REGDUMP = (AM_NONE, AM_NONE)"
| "opcode_operand_addrmode_lut OP_STACK_DMP = (AM_NONE, AM_NONE)"
| "opcode_operand_addrmode_lut OP_PUSH_R_B = (AM_REGISTER, AM_NONE)"
| "opcode_operand_addrmode_lut OP_POP_R_B = (AM_REGISTER, AM_NONE)"

fun opcode_to_str_lut :: "opcode_t \<Rightarrow> string" where
  "opcode_to_str_lut OP_NO_OP = ''noop''"
| "opcode_to_str_lut OP_HLT = ''hlt''"
| "opcode_to_str_lut OP_MOV_IR = ''mov''"
| "opcode_to_str_lut OP_ADD_RR = ''add''"
| "opcode_to_str_lut OP_SYSCALL = ''syscall''"
| "opcode_to_str_lut OP_REGDUMP = ''regdump''"
| "opcode_to_str_lut OP_STACK_DMP = ''stackdmp''"
| "opcode_to_str_lut OP_PUSH_R_B = ''pushb''"
| "opcode_to_str_lut OP_POP_R_B = ''popb''"

definition opcode_get_size :: "nat \<Rightarrow> nat" where
  "opcode_get_size opcode =
     (if OPCODE_COUNT \<le> opcode then 1
      else let (a, b) = opcode_operand_sizes_lut (opcode_table ! opcode);
               size = a + b + 1
           in if size < 1 then 1 else size)"

definition opcode_get_operand_info :: "nat \<Rightarrow> (operand_info \<times> operand_info) res" where
  "opcode_get_operand_info opcode =
     (if opcode < OPCODE_COUNT
      then let sizes = opcode_operand_sizes_lut (opcode_table ! opcode);
               modes = opcode_operand_addrmode_lut (opcode_table ! opcode)
           in Inr (\<lparr> oi_size = fst sizes, oi_addrmode = fst modes \<rparr>,
                   \<lparr> oi_size = snd sizes, oi_addrmode = snd modes \<rparr>)
      else Inl (Assertion_failed ''Invalid opcode''))"

definition opcode_to_str :: "nat \<Rightarrow> string res" where
  "opcode_to_str opcode =
     (if opcode < OPCODE_COUNT then Inr (opcode_to_str_lut (opcode_table ! opcode))
      else Inl (Assertion_failed ''Invalid opcode''))"

section \<open>The machine's state\<close>

text \<open>
  The globals of src/opcode.c, src/bytecode.c and src/register.c, and what was written to the
  standard output, one entry per \<^verbatim>\<open>puts\<close> or \<^verbatim>\<open>printf\<close>.
\<close>

datatype vm_output =
    Out_puts string
  | Out_register string u64
  | Out_stack_slot bool nat u8
  | Out_unsigned u64
  | Out_pointer u64
  | Out_c_string u64
  | Out_char u8

record vm =
  registers :: "register_type \<Rightarrow> u64"
  stack :: blaze_stack
  bytecode_error :: "string option"
  bytecode_exit_code :: u8
  vm_out :: "vm_output list"

definition STACK_SIZE :: nat where
  "STACK_SIZE = 4096"

definition execution_init :: "vm \<Rightarrow> vm" where
  "execution_init v = v\<lparr> stack := blaze_stack_create STACK_SIZE \<rparr>"

definition execution_end :: "vm \<Rightarrow> vm" where
  "execution_end v = v\<lparr> stack := blaze_stack_free (stack v) \<rparr>"

definition on_stack :: "(blaze_stack, 'a) st \<Rightarrow> (vm, 'a) st" where
  "on_stack m = (\<lambda>v. case m (stack v) of Inl e \<Rightarrow> Inl e | Inr (x, s) \<Rightarrow> Inr (x, v\<lparr> stack := s \<rparr>))"

definition reg_set :: "register_type \<Rightarrow> u64 \<Rightarrow> (vm, unit) st" where
  "reg_set r x = smod (\<lambda>v. v\<lparr> registers := (registers v)(r := x) \<rparr>)"

definition emit :: "vm_output \<Rightarrow> (vm, unit) st" where
  "emit x = smod (\<lambda>v. v\<lparr> vm_out := vm_out v @ [x] \<rparr>)"

text \<open>
  \<^verbatim>\<open>bytecode_error = xmalloc(n); sprintf(bytecode_error, ...)\<close>: the text and its NUL
  must fit the \<open>n\<close> bytes.
\<close>

definition set_error :: "nat \<Rightarrow> string \<Rightarrow> (vm, unit) st" where
  "set_error n msg =
     (if length msg < n then smod (\<lambda>v. v\<lparr> bytecode_error := Some msg \<rparr>)
      else sthrow (Undefined ''buffer overflow''))"

text \<open>Dereferencing the instruction pointer; an address below the block is out of bounds too.\<close>

definition code_byte :: "bytecode \<Rightarrow> u64 \<Rightarrow> (vm, u8) st" where
  "code_byte bc p = slift (buf_get (bc_bytes bc) (unat (p - bc_base bc)))"

section \<open>Handlers\<close>

definition validate_register :: "u8 \<Rightarrow> (vm, bool) st" where
  "validate_register rid =
     (if \<not> is_valid_register_id (unat rid)
      then sbind (set_error 25 (''Invalid register: 0x'' @ fmt_02x (unat rid))) (\<lambda>_. sret False)
      else sret True)"

definition reg_of :: "u8 \<Rightarrow> register_type" where
  "reg_of rid = register_table ! unat rid"

definition handler_push_r_b :: "bytecode \<Rightarrow> u64 \<Rightarrow> (vm, u64 option) st" where
  "handler_push_r_b bc ip =
     sbind (code_byte bc (ip + 1)) (\<lambda>reg_id.
     sbind (validate_register reg_id) (\<lambda>ok.
     if \<not> ok then sret None else
     sbind (sget (\<lambda>v. registers v (reg_of reg_id))) (\<lambda>x.
     sbind (on_stack (blaze_stack_push_byte (ucast (x AND 0xFF)))) (\<lambda>_.
     sret (Some (ip + 2))))))"

definition handler_pop_r_b :: "bytecode \<Rightarrow> u64 \<Rightarrow> (vm, u64 option) st" where
  "handler_pop_r_b bc ip =
     sbind (code_byte bc (ip + 1)) (\<lambda>reg_id.
     sbind (validate_register reg_id) (\<lambda>ok.
     if \<not> ok then sret None else
     sbind (on_stack blaze_stack_pop_byte) (\<lambda>b.
     sbind (reg_set (reg_of reg_id) (ucast b)) (\<lambda>_.
     sret (Some (ip + 2))))))"

definition handler_mov_ir :: "bytecode \<Rightarrow> u64 \<Rightarrow> (vm, u64 option) st" where
  "handler_mov_ir bc ip =
     sbind (code_byte bc (ip + 1)) (\<lambda>reg_id.
     sbind (validate_register reg_id) (\<lambda>ok.
     if \<not> ok then sret None else
     sbind (sget (\<lambda>v. registers v IS)) (\<lambda>is.
     sbind (slift (bytecode_get_qword bc (ip + 2 - is))) (\<lambda>q.
     sbind (reg_set (reg_of reg_id) q) (\<lambda>_.
     sret (Some (ip + 10)))))))"

definition handler_add_rr :: "bytecode \<Rightarrow> u64 \<Rightarrow> (vm, u64 option) st" where
  "handler_add_rr bc ip =
     sbind (code_byte bc (ip + 1)) (\<lambda>reg1_id.
     sbind (code_byte bc (ip + 2)) (\<lambda>reg2_id.
     sbind (validate_register reg1_id) (\<lambda>ok1.
     if \<not> ok1 then sret None else
     sbind (validate_register reg2_id) (\<lambda>ok2.
     if \<not> ok2 then sret None else
     sbind (sget (\<lambda>v. registers v (reg_of reg1_id) + registers v (reg_of reg2_id))) (\<lambda>x.
     sbind (reg_set (reg_of reg1_id) x) (\<lambda>_.
     sret (Some (ip + 3))))))))"

fun regdump_lines :: "register_type list \<Rightarrow> (vm, unit) st" where
  "regdump_lines [] = sret ()"
| "regdump_lines (r # rs) =
     sbind (sget (\<lambda>v. registers v r)) (\<lambda>x.
     sbind (emit (Out_register (register_name r) x)) (\<lambda>_. regdump_lines rs))"

definition handler_regdump :: "(vm, u64 option) st" where
  "handler_regdump =
     sbind (emit (Out_puts (newline # ''*** regdump:'' @ [newline]))) (\<lambda>_.
     sbind (regdump_lines register_table) (\<lambda>_. sret None))"

fun stackdmp_lines :: "nat list \<Rightarrow> (vm, unit) st" where
  "stackdmp_lines [] = sret ()"
| "stackdmp_lines (i # is) =
     sbind (sget stack) (\<lambda>s.
     sbind (slift (buf_get (stk_bytes s) i)) (\<lambda>b.
     sbind (emit (Out_stack_slot (stk_index s = i) i b)) (\<lambda>_. stackdmp_lines is)))"

definition handler_stackdmp :: "(vm, u64 option) st" where
  "handler_stackdmp =
     sbind (emit (Out_puts (newline # ''*** stack dump:'' @ [newline]))) (\<lambda>_.
     sbind (sget stack) (\<lambda>s.
     let start = (if stk_index s < 10 then 0 else stk_index s - 10) in
     sbind (stackdmp_lines [start ..< start + min (stk_size s) 10]) (\<lambda>_. sret None)))"

definition sys_print :: "u64 \<Rightarrow> u64 \<Rightarrow> (vm, unit) st" where
  "sys_print r1 r2 =
     (if r1 = 0 then emit (Out_unsigned r2)
      else if r1 = 1 then emit (Out_pointer r2)
      else if r1 = 2 then emit (Out_c_string r2)
      else if r1 = 3 then emit (Out_char (ucast r2))
      else set_error 35 (''Invalid value type: 0x'' @ fmt_02x (unat r1)))"

definition handler_syscall :: "(vm, u64 option) st" where
  "handler_syscall =
     sbind (sget registers) (\<lambda>rs.
     let r0 = rs R0 in
     if r0 = 0 then sbind (smod (\<lambda>v. v\<lparr> bytecode_exit_code := ucast (rs R1) \<rparr>)) (\<lambda>_. sret None)
     else if r0 = 1 then sbind handler_regdump (\<lambda>_. sret None)
     else if r0 = 2 then sbind handler_stackdmp (\<lambda>_. sret None)
     else if r0 = 3 then sbind (sys_print (rs R1) (rs R2)) (\<lambda>_. sret None)
     else sbind (set_error 30 (''Invalid syscall: 0x'' @ fmt_02x (unat r0))) (\<lambda>_. sret None))"

text \<open>\<open>None\<close> is the NULL handler of the table.\<close>

fun handlers_lut :: "opcode_t \<Rightarrow> (bytecode \<Rightarrow> u64 \<Rightarrow> (vm, u64 option) st) option" where
  "handlers_lut OP_NO_OP = None"
| "handlers_lut OP_HLT = None"
| "handlers_lut OP_MOV_IR = Some handler_mov_ir"
| "handlers_lut OP_ADD_RR = Some handler_add_rr"
| "handlers_lut OP_SYSCALL = Some (\<lambda>_ _. handler_syscall)"
| "handlers_lut OP_REGDUMP = Some (\<lambda>_ _. handler_regdump)"
| "handlers_lut OP_STACK_DMP = Some (\<lambda>_ _. handler_stackdmp)"
| "handlers_lut OP_PUSH_R_B = Some handler_push_r_b"
| "handlers_lut OP_POP_R_B = Some handler_pop_r_b"

definition instruction_exec :: "nat \<Rightarrow> bytecode \<Rightarrow> (vm, u64 option) st" where
  "instruction_exec opcode bc =
     (if opcode \<ge> OPCODE_COUNT
      then sbind (set_error 22 (''Invalid opcode: 0x'' @ fmt_02x opcode)) (\<lambda>_. sret None)
      else case handlers_lut (opcode_table ! opcode) of
             None \<Rightarrow> sret None
           | Some h \<Rightarrow> sbind (sget (\<lambda>v. registers v IP)) (\<lambda>ip. h bc ip))"

section \<open>The fetch-execute loop\<close>

text \<open>
  One iteration, after the iteration count was checked: \<open>Some b\<close> is \<^verbatim>\<open>return b\<close>,
  \<open>None\<close> goes on.
\<close>

definition exec_iteration :: "bytecode \<Rightarrow> (vm, bool option) st" where
  "exec_iteration bc =
     sbind (sget (\<lambda>v. registers v IP)) (\<lambda>ip.
     if unat ip \<ge> unat (bc_base bc) + bc_size bc
     then sbind (smod (\<lambda>v. v\<lparr> bytecode_error :=
                   Some ''%ip points to a memory address that is out of range'' \<rparr>)) (\<lambda>_.
          sret (Some False))
     else
     sbind (code_byte bc ip) (\<lambda>opcode.
     if unat opcode = 1
     then sbind (emit (Out_puts ''System halted'')) (\<lambda>_. sret (Some True))
     else
     sbind (instruction_exec (unat opcode) bc) (\<lambda>result.
     sbind (sget bytecode_error) (\<lambda>err.
     if err \<noteq> None then sret (Some False)
     else sbind (case result of
                   None \<Rightarrow> sbind (sget (\<lambda>v. registers v IP)) (\<lambda>p. reg_set IP (p + 1))
                 | Some p \<Rightarrow> reg_set IP p) (\<lambda>_. sret None)))))"

function exec_loop :: "bytecode \<Rightarrow> nat \<Rightarrow> (vm, bool) st" where
  "exec_loop bc i =
     sbind (sget (\<lambda>v. registers v IP)) (\<lambda>ip.
     if ip = 0 then sret True
     else if i + 1 \<ge> 1000 then sthrow (Fatal_error ''Loop exhausted'')
     else sbind (exec_iteration bc) (\<lambda>r.
          case r of Some b \<Rightarrow> sret b | None \<Rightarrow> exec_loop bc (i + 1)))"
  by pat_completeness auto
termination
  by (relation "measure (\<lambda>(bc, i). 1000 - i)") auto

declare exec_loop.simps [simp del]

definition bytecode_exec :: "bytecode \<Rightarrow> (vm, bool) st" where
  "bytecode_exec bc =
     sbind (reg_set IP (bc_base bc)) (\<lambda>_.
     sbind (reg_set IS (bc_base bc)) (\<lambda>_.
     exec_loop bc 0))"

end
