(* ===== verification/Vm_Correct.thy ===== *)
theory Vm_Correct
  imports Vm_Machine
begin

text \<open>
  What the virtual machine computes: the length table agrees with how far the handlers move
  the instruction pointer, the loop is bounded, a straight-line program computes what its
  instructions mean, and the error paths.
\<close>

section \<open>Where the machine is\<close>

text \<open>
  The machine runs code \<open>bc\<close> at offset \<open>k\<close>: the instruction pointer and the
  instruction start hold the addresses \<^verbatim>\<open>bytecode_exec\<close> puts there, no error is pending and
  the block lies in the address space, at a non-NULL address.
\<close>

definition code_placed :: "bytecode \<Rightarrow> bool" where
  "code_placed bc \<longleftrightarrow> bytecode_ok bc \<and> bc_base bc \<noteq> 0 \<and> unat (bc_base bc) + bc_size bc < 2 ^ 64"

definition runs_at :: "bytecode \<Rightarrow> nat \<Rightarrow> vm \<Rightarrow> bool" where
  "runs_at bc k v \<longleftrightarrow> code_placed bc \<and> registers v IP = bc_base bc + of_nat k
     \<and> registers v IS = bc_base bc \<and> bytecode_error v = None \<and> stack_ok (stack v)"

lemma code_byte_at:
  assumes "code_placed bc" and "k < bc_size bc"
  shows "code_byte bc (bc_base bc + of_nat k) v = Inr (code_of bc ! k, v)"
proof -
  have "k < 2 ^ 64" using assms by (simp add: code_placed_def)
  then have "unat (of_nat k :: u64) = k" by (rule unat_of_nat_u64)
  then show ?thesis
    using assms by (simp add: code_byte_def code_of_get code_placed_def)
qed

lemma ip_in_range:
  assumes "code_placed bc" and "k \<le> bc_size bc"
  shows "unat (bc_base bc + of_nat k) = unat (bc_base bc) + k"
proof -
  have k: "k < 2 ^ 64" using assms by (simp add: code_placed_def)
  then have "unat (of_nat k :: u64) = k" by (rule unat_of_nat_u64)
  then show ?thesis
    using assms by (simp add: unat_word_ariths code_placed_def)
qed

lemma ip_not_null:
  assumes "code_placed bc" and "k \<le> bc_size bc"
  shows "bc_base bc + of_nat k \<noteq> 0"
proof
  assume "bc_base bc + of_nat k = 0"
  with ip_in_range [OF assms] have "unat (bc_base bc) = 0" by simp
  with assms(1) show False by (simp add: code_placed_def unat_eq_zero)
qed

section \<open>Straight-line programs\<close>

text \<open>
  The instructions on data registers (\<open>R0\<close> to \<open>R9\<close>) and the stack, as a program
  generator writes them, and what they mean.
\<close>

datatype instr =
    I_noop
  | I_mov register_type u64
  | I_add register_type register_type
  | I_push register_type
  | I_pop register_type

fun reg_id :: "register_type \<Rightarrow> u8" where
  "reg_id R0 = 0" | "reg_id R1 = 1" | "reg_id R2 = 2" | "reg_id R3 = 3" | "reg_id R4 = 4"
| "reg_id R5 = 5" | "reg_id R6 = 6" | "reg_id R7 = 7" | "reg_id R8 = 8" | "reg_id R9 = 9"
| "reg_id IP = 10" | "reg_id IS = 11"

definition data_register :: "register_type \<Rightarrow> bool" where
  "data_register r \<longleftrightarrow> r \<noteq> IP \<and> r \<noteq> IS"

fun instr_ok :: "instr \<Rightarrow> bool" where
  "instr_ok I_noop = True"
| "instr_ok (I_mov r x) = data_register r"
| "instr_ok (I_add r s) = (data_register r \<and> data_register s)"
| "instr_ok (I_push r) = data_register r"
| "instr_ok (I_pop r) = data_register r"

fun encode :: "instr \<Rightarrow> u8 list" where
  "encode I_noop = [0]"
| "encode (I_mov r x) = [2, reg_id r] @ le_bytes 8 x"
| "encode (I_add r s) = [3, reg_id r, reg_id s]"
| "encode (I_push r) = [6, reg_id r]"
| "encode (I_pop r) = [7, reg_id r]"

definition assemble :: "instr list \<Rightarrow> u8 list" where
  "assemble is = concat (map encode is) @ [1]"

type_synonym abs_state = "(register_type \<Rightarrow> u64) \<times> u8 list"

fun abs_step :: "instr \<Rightarrow> abs_state \<Rightarrow> abs_state option" where
  "abs_step I_noop (rs, stk) = Some (rs, stk)"
| "abs_step (I_mov r x) (rs, stk) = Some (rs(r := x), stk)"
| "abs_step (I_add r s) (rs, stk) = Some (rs(r := rs r + rs s), stk)"
| "abs_step (I_push r) (rs, stk) = Some (rs, ucast (rs r) # stk)"
| "abs_step (I_pop r) (rs, []) = None"
| "abs_step (I_pop r) (rs, b # stk) = Some (rs(r := ucast b), stk)"

fun abs_run :: "instr list \<Rightarrow> abs_state \<Rightarrow> abs_state option" where
  "abs_run [] a = Some a"
| "abs_run (i # is) a = (case abs_step i a of None \<Rightarrow> None | Some b \<Rightarrow> abs_run is b)"

text \<open>The machine's state as the abstract one sees it: data registers and stack content.\<close>

definition simulates :: "vm \<Rightarrow> abs_state \<Rightarrow> bool" where
  "simulates v a \<longleftrightarrow> (\<forall>r. data_register r \<longrightarrow> registers v r = fst a r) \<and> stack_contents (stack v) = snd a"

lemma simulatesD: "simulates v a \<Longrightarrow> data_register r \<Longrightarrow> registers v r = fst a r"
  by (simp add: simulates_def)

lemma reg_of_id [simp]: "reg_of (reg_id r) = r"
  by (cases r) (simp_all add: reg_of_def register_table_def)

lemma reg_id_valid [simp]: "validate_register (reg_id r) = sret True"
  by (cases r) (simp_all add: validate_register_def is_valid_register_id_def REG_COUNT_def)

lemma data_register_neq [simp]: "data_register r \<Longrightarrow> r \<noteq> IP" "data_register r \<Longrightarrow> r \<noteq> IS"
  "data_register r \<Longrightarrow> IP \<noteq> r" "data_register r \<Longrightarrow> IS \<noteq> r"
  by (auto simp: data_register_def)

lemma ucast_low_byte [simp]: "ucast (x AND 0xFF :: u64) = (ucast x :: u8)"
proof -
  have "x AND 0xFF = take_bit 8 x" by (simp add: take_bit_eq_mask mask_eq_exp_minus_1)
  then show ?thesis by (auto intro!: bit_word_eqI simp: bit_simps)
qed

text \<open>After fetching a byte that is not \<^verbatim>\<open>hlt\<close>, an iteration is the instruction's execution.\<close>

definition finish_iteration :: "u64 option \<Rightarrow> (vm, bool option) st" where
  "finish_iteration result =
     sbind (sget bytecode_error) (\<lambda>err.
     if err \<noteq> None then sret (Some False)
     else sbind (case result of
                   None \<Rightarrow> sbind (sget (\<lambda>v. registers v IP)) (\<lambda>p. reg_set IP (p + 1))
                 | Some p \<Rightarrow> reg_set IP p) (\<lambda>_. sret None))"

lemma exec_iteration_fetch:
  assumes "runs_at bc k v" and "k < bc_size bc" and "unat (code_of bc ! k) \<noteq> 1"
  shows "exec_iteration bc v = sbind (instruction_exec (unat (code_of bc ! k)) bc) finish_iteration v"
proof -
  have p: "code_placed bc" "registers v IP = bc_base bc + of_nat k"
    using assms(1) by (simp_all add: runs_at_def)
  have "unat (registers v IP) = unat (bc_base bc) + k"
    using p assms(2) by (simp add: ip_in_range)
  moreover have "code_byte bc (registers v IP) v = Inr (code_of bc ! k, v)"
    using p assms(2) by (simp add: code_byte_at)
  ultimately show ?thesis
    using assms(2,3)
    by (simp add: exec_iteration_def sbind_Inr finish_iteration_def [abs_def])
qed

lemma exec_iteration_hlt:
  assumes "runs_at bc k v" and "k < bc_size bc" and "code_of bc ! k = 1"
  shows "exec_iteration bc v = Inr (Some True, v\<lparr> vm_out := vm_out v @ [Out_puts ''System halted''] \<rparr>)"
proof -
  have p: "code_placed bc" "registers v IP = bc_base bc + of_nat k"
    using assms(1) by (simp_all add: runs_at_def)
  have "unat (registers v IP) = unat (bc_base bc) + k"
    using p assms(2) by (simp add: ip_in_range)
  moreover have "code_byte bc (registers v IP) v = Inr (code_of bc ! k, v)"
    using p assms(2) by (simp add: code_byte_at)
  ultimately show ?thesis
    using assms(2,3) by (simp add: exec_iteration_def sbind_Inr emit_def)
qed

lemma instruction_exec_known:
  assumes "runs_at bc k v" and "opc < OPCODE_COUNT" and "handlers_lut (opcode_table ! opc) = Some h"
  shows "instruction_exec opc bc v = h bc (bc_base bc + of_nat k) v"
  using assms by (simp add: instruction_exec_def runs_at_def sbind_Inr)

lemma finish_some:
  "bytecode_error v = None \<Longrightarrow>
   finish_iteration (Some p) v = Inr (None, v\<lparr> registers := (registers v)(IP := p) \<rparr>)"
  by (simp add: finish_iteration_def sbind_Inr reg_set_def)

lemma finish_none:
  "bytecode_error v = None \<Longrightarrow>
   finish_iteration None v = Inr (None, v\<lparr> registers := (registers v)(IP := registers v IP + 1) \<rparr>)"
  by (simp add: finish_iteration_def sbind_Inr reg_set_def)

lemma addr_plus:
  "bc_base bc + of_nat k + 1 = bc_base bc + of_nat (k + 1)"
  "bc_base bc + of_nat k + numeral m = bc_base bc + of_nat (k + numeral m)"
  by simp_all

text \<open>The bytes of the instruction at the instruction pointer.\<close>

lemma code_byte_offset:
  assumes "code_placed bc" and "code_of bc = pre @ xs @ post" and "j < length xs"
  shows "code_byte bc (bc_base bc + of_nat (length pre + j)) v = Inr (xs ! j, v)"
proof -
  have "length (code_of bc) = bc_size bc"
    using assms(1) by (simp add: code_placed_def length_code_of)
  then have "length pre + j < bc_size bc"
    using assms(2,3) by simp
  then show ?thesis
    using assms code_byte_at [OF assms(1), of "length pre + j"] by (simp add: nth_append)
qed


lemma simulates_IP [simp]:
  "simulates (v\<lparr> registers := (registers v)(IP := p) \<rparr>) a = simulates v a"
  by (simp add: simulates_def)

text \<open>One instruction of a straight-line program: what the machine does is what it means.\<close>

definition fetched :: "bytecode \<Rightarrow> nat \<Rightarrow> u8 list \<Rightarrow> vm \<Rightarrow> bool" where
  "fetched bc k xs v \<longleftrightarrow> runs_at bc k v \<and>
     (\<exists>pre post. code_of bc = pre @ xs @ post \<and> length pre = k)"

lemma fetched_byte:
  assumes "fetched bc k xs v" and "j < length xs"
  shows "code_byte bc (bc_base bc + of_nat (k + j)) w = Inr (xs ! j, w)"
  using assms code_byte_offset by (auto simp: fetched_def runs_at_def)

lemma fetched_size:
  assumes "fetched bc k xs v"
  shows "k + length xs \<le> bc_size bc"
proof -
  obtain pre post where "code_of bc = pre @ xs @ post" "length pre = k"
    using assms by (auto simp: fetched_def)
  moreover have "length (code_of bc) = bc_size bc"
    using assms by (auto simp: fetched_def runs_at_def code_placed_def length_code_of)
  ultimately show ?thesis by simp
qed

lemma fetched_exec:
  assumes "fetched bc k (opc # xs) v" and "unat opc \<noteq> 1" and "unat opc < OPCODE_COUNT"
    and "handlers_lut (opcode_table ! unat opc) = Some h"
  shows "exec_iteration bc v = sbind (h bc (bc_base bc + of_nat k)) finish_iteration v"
proof -
  obtain pre post where c: "code_of bc = pre @ (opc # xs) @ post" "length pre = k"
    using assms(1) by (auto simp: fetched_def)
  have r: "runs_at bc k v" using assms(1) by (simp add: fetched_def)
  have "k < bc_size bc" using fetched_size [OF assms(1)] by simp
  moreover have "code_of bc ! k = opc" using c by (simp add: nth_append)
  ultimately have "exec_iteration bc v = sbind (instruction_exec (unat opc) bc) finish_iteration v"
    using exec_iteration_fetch [OF r] assms(2) by simp
  also have "\<dots> = sbind (h bc (bc_base bc + of_nat k)) finish_iteration v"
    using instruction_exec_known [OF r assms(3,4)] by (intro sbind_cong) simp_all
  finally show ?thesis .
qed

lemma fetched_qword:
  assumes "fetched bc k ([b, c] @ le_bytes 8 q) v"
  shows "bytecode_get_qword bc (bc_base bc + of_nat k + 2 - registers v IS) = Inr q"
proof -
  obtain pre post where c: "code_of bc = pre @ ([b, c] @ le_bytes 8 q) @ post" "length pre = k"
    using assms by (auto simp: fetched_def)
  have p: "code_placed bc" "registers v IS = bc_base bc"
    using assms by (simp_all add: fetched_def runs_at_def)
  have size: "k + 10 \<le> bc_size bc" using fetched_size [OF assms] by simp
  have lt: "k + 2 < 2 ^ 64" using p size by (simp add: code_placed_def)
  then have u: "unat (of_nat (k + 2) :: u64) = k + 2"
    by (rule unat_of_nat_u64)
  have "le_word (le_bytes 8 q) = q" by (rule le_word_le_bytes) simp
  moreover have "take 8 (drop (k + 2) (code_of bc)) = le_bytes 8 q"
    using c by simp
  ultimately have "bytecode_get_qword bc (of_nat (k + 2)) = Inr q"
    using get_qword_at [of bc "of_nat (k + 2)"] u size p by (simp add: code_placed_def)
  moreover have "bc_base bc + of_nat k + 2 - registers v IS = of_nat (k + 2)"
    using p by simp
  ultimately show ?thesis by (simp only:)
qed

text \<open>The handlers on a data register leave the rest of the machine alone.\<close>

lemma step_mov:
  assumes f: "fetched bc k (encode (I_mov r x)) v" and ok: "data_register r"
  shows "\<exists>v'. exec_iteration bc v = Inr (None, v') \<and> runs_at bc (k + 10) v'
           \<and> (simulates v (rs, stk) \<longrightarrow> simulates v' (rs(r := x), stk))"
proof -
  have e: "exec_iteration bc v = sbind (handler_mov_ir bc (bc_base bc + of_nat k)) finish_iteration v"
    using fetched_exec [of bc k 2 "reg_id r # le_bytes 8 x" v] f
    by (simp add: OPCODE_COUNT_def opcode_table_def)
  have r1: "code_byte bc (bc_base bc + of_nat k + 1) w = Inr (reg_id r, w)" for w
    using fetched_byte [OF f, of 1 w] by (simp add: ac_simps)
  have q: "bytecode_get_qword bc (bc_base bc + of_nat k + 2 - registers v IS) = Inr x"
    using fetched_qword [of bc k 2 "reg_id r" x v] f by simp
  have rt: "runs_at bc k v" using f by (simp add: fetched_def)
  let ?v = "v\<lparr> registers := (registers v)(r := x, IP := bc_base bc + of_nat k + 10) \<rparr>"
  have "handler_mov_ir bc (bc_base bc + of_nat k) v
          = Inr (Some (bc_base bc + of_nat k + 10), v\<lparr> registers := (registers v)(r := x) \<rparr>)"
    using r1 q by (simp add: handler_mov_ir_def sbind_Inr reg_set_def)
  then have "exec_iteration bc v = Inr (None, ?v)"
    using e rt by (simp add: sbind_Inr finish_some runs_at_def)
  moreover have "runs_at bc (k + 10) ?v"
    using rt ok by (simp add: runs_at_def add.assoc)
  moreover have "simulates v (rs, stk) \<longrightarrow> simulates ?v (rs(r := x), stk)"
    by (auto simp: simulates_def)
  ultimately show ?thesis by blast
qed

lemma step_add:
  assumes f: "fetched bc k (encode (I_add r s)) v" and ok: "data_register r" "data_register s"
  shows "\<exists>v'. exec_iteration bc v = Inr (None, v') \<and> runs_at bc (k + 3) v'
           \<and> (simulates v (rs, stk) \<longrightarrow> simulates v' (rs(r := rs r + rs s), stk))"
proof -
  have e: "exec_iteration bc v = sbind (handler_add_rr bc (bc_base bc + of_nat k)) finish_iteration v"
    using fetched_exec [of bc k 3 "[reg_id r, reg_id s]" v] f
    by (simp add: OPCODE_COUNT_def opcode_table_def)
  have r1: "code_byte bc (bc_base bc + of_nat k + 1) w = Inr (reg_id r, w)" for w
    using fetched_byte [OF f, of 1 w] by (simp add: ac_simps)
  have r2: "code_byte bc (bc_base bc + of_nat k + 2) w = Inr (reg_id s, w)" for w
    using fetched_byte [OF f, of 2 w] by (simp add: ac_simps)
  have rt: "runs_at bc k v" using f by (simp add: fetched_def)
  let ?x = "registers v r + registers v s"
  let ?v = "v\<lparr> registers := (registers v)(r := ?x, IP := bc_base bc + of_nat k + 3) \<rparr>"
  have "handler_add_rr bc (bc_base bc + of_nat k) v
          = Inr (Some (bc_base bc + of_nat k + 3), v\<lparr> registers := (registers v)(r := ?x) \<rparr>)"
    using r1 r2 by (simp add: handler_add_rr_def sbind_Inr reg_set_def)
  then have "exec_iteration bc v = Inr (None, ?v)"
    using e rt by (simp add: sbind_Inr finish_some runs_at_def)
  moreover have "runs_at bc (k + 3) ?v"
    using rt ok by (simp add: runs_at_def add.assoc)
  moreover have "simulates v (rs, stk) \<longrightarrow> simulates ?v (rs(r := rs r + rs s), stk)"
    using ok by (auto simp: simulates_def)
  ultimately show ?thesis by blast
qed

lemma step_push:
  assumes f: "fetched bc k (encode (I_push r)) v" and ok: "data_register r"
  shows "\<exists>v'. exec_iteration bc v = Inr (None, v') \<and> runs_at bc (k + 2) v'
           \<and> (simulates v (rs, stk) \<longrightarrow> simulates v' (rs, ucast (rs r) # stk))"
proof -
  have e: "exec_iteration bc v = sbind (handler_push_r_b bc (bc_base bc + of_nat k)) finish_iteration v"
    using fetched_exec [of bc k 6 "[reg_id r]" v] f
    by (simp add: OPCODE_COUNT_def opcode_table_def)
  have r1: "code_byte bc (bc_base bc + of_nat k + 1) w = Inr (reg_id r, w)" for w
    using fetched_byte [OF f, of 1 w] by (simp add: ac_simps)
  have rt: "runs_at bc k v" using f by (simp add: fetched_def)
  obtain p t where t: "blaze_stack_push_byte (ucast (registers v r)) (stack v) = Inr (p, t)"
    "stack_ok t" "stack_contents t = ucast (registers v r) # stack_contents (stack v)"
    using vm_stack.push_law rt unfolding runs_at_def by blast
  let ?v = "v\<lparr> stack := t, registers := (registers v)(IP := bc_base bc + of_nat k + 2) \<rparr>"
  have "handler_push_r_b bc (bc_base bc + of_nat k) v
          = Inr (Some (bc_base bc + of_nat k + 2), v\<lparr> stack := t \<rparr>)"
    using r1 t by (simp add: handler_push_r_b_def sbind_Inr on_stack_def)
  then have "exec_iteration bc v = Inr (None, ?v)"
    using e rt by (simp add: sbind_Inr finish_some runs_at_def)
  moreover have "runs_at bc (k + 2) ?v"
    using rt ok t by (simp add: runs_at_def add.assoc)
  moreover have "simulates v (rs, stk) \<longrightarrow> simulates ?v (rs, ucast (rs r) # stk)"
    using ok t by (auto simp: simulates_def)
  ultimately show ?thesis by blast
qed

lemma step_pop:
  assumes f: "fetched bc k (encode (I_pop r)) v" and ok: "data_register r"
    and top: "stack_contents (stack v) = b # stk"
  shows "\<exists>v'. exec_iteration bc v = Inr (None, v') \<and> runs_at bc (k + 2) v'
           \<and> (simulates v (rs, b # stk) \<longrightarrow> simulates v' (rs(r := ucast b), stk))"
proof -
  have e: "exec_iteration bc v = sbind (handler_pop_r_b bc (bc_base bc + of_nat k)) finish_iteration v"
    using fetched_exec [of bc k 7 "[reg_id r]" v] f
    by (simp add: OPCODE_COUNT_def opcode_table_def)
  have r1: "code_byte bc (bc_base bc + of_nat k + 1) w = Inr (reg_id r, w)" for w
    using fetched_byte [OF f, of 1 w] by (simp add: ac_simps)
  have rt: "runs_at bc k v" using f by (simp add: fetched_def)
  obtain t where t: "blaze_stack_pop_byte (stack v) = Inr (b, t)" "stack_ok t" "stack_contents t = stk"
    using vm_stack.pop_law [OF _ top] rt unfolding runs_at_def by blast
  let ?v = "v\<lparr> stack := t, registers := (registers v)(r := ucast b, IP := bc_base bc + of_nat k + 2) \<rparr>"
  have "handler_pop_r_b bc (bc_base bc + of_nat k) v
          = Inr (Some (bc_base bc + of_nat k + 2),
                 v\<lparr> stack := t, registers := (registers v)(r := ucast b) \<rparr>)"
    using r1 t by (simp add: handler_pop_r_b_def sbind_Inr on_stack_def reg_set_def)
  then have "exec_iteration bc v = Inr (None, ?v)"
    using e rt by (simp add: sbind_Inr finish_some runs_at_def)
  moreover have "runs_at bc (k + 2) ?v"
    using rt ok t by (simp add: runs_at_def add.assoc)
  moreover have "simulates v (rs, b # stk) \<longrightarrow> simulates ?v (rs(r := ucast b), stk)"
    using t by (auto simp: simulates_def)
  ultimately show ?thesis by blast
qed

lemma step_pop_empty:
  assumes f: "fetched bc k (encode (I_pop r)) v" and top: "stack_contents (stack v) = []"
  shows "exec_iteration bc v = Inl (Fatal_error ''Stack is empty'')"
proof -
  have e: "exec_iteration bc v = sbind (handler_pop_r_b bc (bc_base bc + of_nat k)) finish_iteration v"
    using fetched_exec [of bc k 7 "[reg_id r]" v] f
    by (simp add: OPCODE_COUNT_def opcode_table_def)
  have r1: "code_byte bc (bc_base bc + of_nat k + 1) w = Inr (reg_id r, w)" for w
    using fetched_byte [OF f, of 1 w] by (simp add: ac_simps)
  have "blaze_stack_pop_byte (stack v) = Inl (Fatal_error ''Stack is empty'')"
    using f top by (intro vm_stack.pop_empty_law) (simp_all add: fetched_def runs_at_def)
  then show ?thesis
    using e r1 by (simp add: handler_pop_r_b_def sbind_Inr sbind_Inl on_stack_def)
qed

lemma step_noop:
  assumes f: "fetched bc k (encode I_noop) v"
  shows "\<exists>v'. exec_iteration bc v = Inr (None, v') \<and> runs_at bc (k + 1) v'
           \<and> (simulates v a \<longrightarrow> simulates v' a)"
proof -
  obtain pre post where c: "code_of bc = pre @ [0] @ post" "length pre = k"
    using f by (auto simp: fetched_def)
  have rt: "runs_at bc k v" using f by (simp add: fetched_def)
  have "k < bc_size bc" "code_of bc ! k = 0"
    using fetched_size [OF f] c by (simp_all add: nth_append)
  then have "exec_iteration bc v = sbind (instruction_exec 0 bc) finish_iteration v"
    using exec_iteration_fetch [OF rt] by simp
  also have "\<dots> = finish_iteration None v"
    by (simp add: instruction_exec_def OPCODE_COUNT_def opcode_table_def)
  finally show ?thesis
    using rt by (auto simp: finish_none runs_at_def add.assoc)
qed

lemma step_instr:
  assumes f: "fetched bc k (encode i) v" and ok: "instr_ok i" and sim: "simulates v a"
  shows "case abs_step i a of
           Some b \<Rightarrow> \<exists>v'. exec_iteration bc v = Inr (None, v') \<and> simulates v' b
                       \<and> runs_at bc (k + length (encode i)) v'
         | None \<Rightarrow> exec_iteration bc v = Inl (Fatal_error ''Stack is empty'')"
proof (cases i)
  case I_noop
  then show ?thesis
    using step_noop [of bc k v a] f sim by (cases a) auto
next
  case (I_mov r x)
  then show ?thesis
    using step_mov [of bc k r x v "fst a" "snd a"] f ok sim by (cases a) auto
next
  case (I_add r s)
  then show ?thesis
    using step_add [of bc k r s v "fst a" "snd a"] f ok sim by (cases a) (auto simp: numeral_3_eq_3)
next
  case (I_push r)
  then show ?thesis
    using step_push [of bc k r v "fst a" "snd a"] f ok sim by (cases a) auto
next
  case (I_pop r)
  have top: "stack_contents (stack v) = snd a" using sim by (simp add: simulates_def)
  show ?thesis
  proof (cases "snd a")
    case Nil
    then show ?thesis using step_pop_empty [of bc k r v] f top I_pop by (cases a) auto
  next
    case (Cons b stk)
    then show ?thesis
      using step_pop [of bc k r v b stk "fst a"] f ok sim top I_pop by (cases a) auto
  qed
qed

lemma exec_loop_step:
  assumes "registers v IP \<noteq> 0" and "Suc n < 1000"
  shows "exec_loop bc n v = (case exec_iteration bc v of
           Inl e \<Rightarrow> Inl e
         | Inr (Some b, v') \<Rightarrow> Inr (b, v')
         | Inr (None, v') \<Rightarrow> exec_loop bc (Suc n) v')"
  using assms
  by (subst exec_loop.simps) (auto simp: sbind_def split: sum.splits option.splits)

lemma fetchedI:
  assumes "runs_at bc (length pre) v" and "code_of bc = pre @ xs @ post"
  shows "fetched bc (length pre) xs v"
  using assms by (auto simp: fetched_def)

lemma runs_at_not_null:
  assumes "runs_at bc k v" and "k \<le> bc_size bc"
  shows "registers v IP \<noteq> 0"
  using assms ip_not_null by (simp add: runs_at_def)

text \<open>The loop over a straight-line program placed at the current offset.\<close>

lemma exec_loop_straight_line:
  assumes "code_of bc = pre @ concat (map encode is) @ [1]" and "runs_at bc (length pre) v"
    and "\<forall>i \<in> set is. instr_ok i" and "n + length is + 1 < 1000" and "simulates v a"
  shows "case abs_run is a of
           Some b \<Rightarrow> \<exists>v'. exec_loop bc n v = Inr (True, v') \<and> simulates v' b \<and> bytecode_error v' = None
         | None \<Rightarrow> exec_loop bc n v = Inl (Fatal_error ''Stack is empty'')"
  using assms
proof (induction "is" arbitrary: pre v n a)
  case Nil
  have size: "bc_size bc = length (pre @ [1 :: u8])"
    using Nil.prems length_code_of [of bc] by (simp add: runs_at_def code_placed_def)
  have "exec_iteration bc v = Inr (Some True, v\<lparr> vm_out := vm_out v @ [Out_puts ''System halted''] \<rparr>)"
    using Nil.prems(1) size by (intro exec_iteration_hlt [OF Nil.prems(2)]) simp_all
  moreover have "registers v IP \<noteq> 0"
    using size by (intro runs_at_not_null [OF Nil.prems(2)]) simp
  ultimately show ?case
    using Nil.prems by (simp add: exec_loop_step simulates_def runs_at_def)
next
  case (Cons i "is")
  have f: "fetched bc (length pre) (encode i) v"
    using Cons.prems by (intro fetchedI [where post = "concat (map encode is) @ [1]"]) simp_all
  have nz: "registers v IP \<noteq> 0"
    using fetched_size [OF f] by (intro runs_at_not_null [OF Cons.prems(2)]) simp
  note st = step_instr [OF f _ Cons.prems(5)]
  show ?case
  proof (cases "abs_step i a")
    case None
    then show ?thesis using st nz Cons.prems by (simp add: exec_loop_step)
  next
    case (Some b)
    then obtain v' where v': "exec_iteration bc v = Inr (None, v')" "simulates v' b"
      "runs_at bc (length (pre @ encode i)) v'"
      using st Cons.prems by auto
    have "exec_loop bc n v = exec_loop bc (Suc n) v'"
      using nz v'(1) Cons.prems by (simp add: exec_loop_step)
    then show ?thesis
      using Cons.IH [of "pre @ encode i" v' "Suc n" b] Cons.prems v' Some
      by (simp cong: option.case_cong)
  qed
qed

lemma bytecode_exec_start:
  "bytecode_exec bc v = exec_loop bc 0 (v\<lparr> registers := (registers v)(IP := bc_base bc, IS := bc_base bc) \<rparr>)"
  by (simp add: bytecode_exec_def reg_set_def sbind_Inr)

text \<open>The machine as \<^verbatim>\<open>process_file\<close> of src/blazevm.c starts it, on code at \<open>base\<close>.\<close>

definition ready :: "u64 \<Rightarrow> instr list \<Rightarrow> vm \<Rightarrow> bool" where
  "ready base is v \<longleftrightarrow> base \<noteq> 0 \<and> unat base + length (assemble is) < 2 ^ 64
     \<and> bytecode_error v = None \<and> stack_ok (stack v) \<and> (\<forall>i \<in> set is. instr_ok i)"

lemma ready_start:
  assumes "ready base is v"
  defines "bc \<equiv> bytecode_init_from_stream base (assemble is)"
    and "w \<equiv> v\<lparr> registers := (registers v)(IP := base, IS := base) \<rparr>"
  shows "runs_at bc 0 w" "bytecode_exec bc v = exec_loop bc 0 w" "code_of bc = concat (map encode is) @ [1]"
    "simulates w (registers v, stack_contents (stack v))"
  using assms
  by (simp_all add: ready_def runs_at_def code_placed_def bytecode_exec_start assemble_def simulates_def)

section \<open>Properties\<close>

text \<open>
  C30. A straight-line program of at most 998 instructions, assembled and run by
  \<^verbatim>\<open>bytecode_exec\<close>, halts with \<^verbatim>\<open>true\<close> in a state whose data registers and stack are the
  ones its instructions mean; if it pops an empty stack, the run ends with that fatal error.
\<close>

theorem exec_straight_line:
  assumes "ready base is v" and "length is \<le> 998"
  shows "case abs_run is (registers v, stack_contents (stack v)) of
           Some b \<Rightarrow> \<exists>v'. bytecode_exec (bytecode_init_from_stream base (assemble is)) v = Inr (True, v')
                       \<and> simulates v' b \<and> bytecode_error v' = None
         | None \<Rightarrow> bytecode_exec (bytecode_init_from_stream base (assemble is)) v
                     = Inl (Fatal_error ''Stack is empty'')"
proof -
  note s = ready_start [OF assms(1)]
  have "\<forall>i \<in> set is. instr_ok i" using assms(1) by (simp add: ready_def)
  then show ?thesis
    unfolding s(2) using s(1,3) assms(2)
    by (intro exec_loop_straight_line [where pre = "[]" and n = 0, OF _ _ _ _ s(4)]) simp_all
qed

definition fresh_vm :: vm where
  "fresh_vm = \<lparr> registers = (\<lambda>_. 0), stack = blaze_stack_create 16, bytecode_error = None,
                bytecode_exit_code = 0, vm_out = [] \<rparr>"

definition sample_program :: "instr list" where
  "sample_program = [I_mov R0 40, I_mov R1 2, I_add R0 R1, I_push R0, I_pop R5]"

theorem exec_straight_line_witness:
  "\<exists>v'. bytecode_exec (bytecode_init_from_stream 4096 (assemble sample_program)) fresh_vm = Inr (True, v')
        \<and> registers v' R5 = 42 \<and> bytecode_error v' = None"
proof -
  have "\<forall>i \<in> set sample_program. instr_ok i" "length (assemble sample_program) = 28"
    by (simp_all add: sample_program_def data_register_def assemble_def)
  then have r: "ready 4096 sample_program fresh_vm"
    by (simp add: ready_def) (simp add: fresh_vm_def)
  have l: "length sample_program \<le> 998" by (simp add: sample_program_def)
  have "abs_run sample_program (\<lambda>_. 0, []) = Some ((\<lambda>_. 0)(R1 := 2, R0 := 42, R5 := 42), [])"
    by (simp add: sample_program_def)
  then have "abs_run sample_program (registers fresh_vm, stack_contents (stack fresh_vm))
               = Some ((\<lambda>_. 0)(R1 := 2, R0 := 42, R5 := 42), [])"
    by (simp add: fresh_vm_def)
  then obtain v' where "bytecode_exec (bytecode_init_from_stream 4096 (assemble sample_program)) fresh_vm
        = Inr (True, v')" "simulates v' ((\<lambda>_. 0)(R1 := 2, R0 := 42, R5 := 42), [])"
      "bytecode_error v' = None"
    using exec_straight_line [OF r l] by (simp only: option.case) blast
  moreover have "registers v' R5 = 42"
    using simulatesD [OF \<open>simulates v' _\<close>, of R5] by (simp add: data_register_def)
  ultimately show ?thesis by blast
qed

text \<open>
  C34. The length table agrees with the handlers: whenever a known instruction is executed without
  an error, the pointer its handler returns is past the instruction by exactly
  \<^verbatim>\<open>opcode_get_size\<close> bytes, and an instruction whose handler returns NULL, after which the
  loop adds one, is one byte long.
\<close>

theorem handler_advances_by_size:
  assumes "opc < OPCODE_COUNT" and "instruction_exec opc bc v = Inr (r, v')" and "bytecode_error v' = None"
  shows "case r of Some p \<Rightarrow> p = registers v IP + of_nat (opcode_get_size opc)
                 | None \<Rightarrow> opcode_get_size opc = 1"
proof -
  have "opc \<in> {0, 1, 2, 3, 4, 5, 6, 7, 8}"
    using assms(1) by (auto simp: OPCODE_COUNT_def)
  then show ?thesis
    using assms(2,3)
    by (auto simp: instruction_exec_def OPCODE_COUNT_def opcode_table_def opcode_get_size_def
        handler_mov_ir_def handler_add_rr_def handler_push_r_b_def handler_pop_r_b_def
        handler_regdump_def handler_stackdmp_def handler_syscall_def validate_register_def
        set_error_def Let_def monad_inversion split: if_splits)
qed

theorem handler_advances_by_size_witness:
  "\<exists>r v'. instruction_exec 3 (bytecode_init_from_stream 0 [3, 0, 1]) fresh_vm = Inr (r, v')
     \<and> (case r of Some p \<Rightarrow> p = registers fresh_vm IP + of_nat (opcode_get_size 3) | None \<Rightarrow> opcode_get_size 3 = 1)"
proof -
  have e: "instruction_exec 3 (bytecode_init_from_stream 0 [3, 0, 1]) fresh_vm
          = Inr (Some 3, fresh_vm\<lparr> registers := (registers fresh_vm)(R0 := 0) \<rparr>)"
    by (simp add: instruction_exec_def OPCODE_COUNT_def opcode_table_def handler_add_rr_def sbind_Inr
        code_byte_def bytecode_init_from_stream_def buf_get_def fresh_vm_def validate_register_def
        is_valid_register_id_def REG_COUNT_def reg_of_def register_table_def reg_set_def)
  show ?thesis
    using handler_advances_by_size [OF _ e] e by (simp add: OPCODE_COUNT_def fresh_vm_def)
qed

lemma exec_loop_exhausted:
  assumes "code_of bc = pre @ concat (map encode is) @ post" and "runs_at bc (length pre) v"
    and "\<forall>i \<in> set is. instr_ok i" and "n + length is = 999" and "simulates v a"
    and "abs_run is a = Some b"
  shows "exec_loop bc n v = Inl (Fatal_error ''Loop exhausted'')"
  using assms
proof (induction "is" arbitrary: pre v n a)
  case Nil
  have "length pre \<le> bc_size bc"
    using Nil.prems length_code_of [of bc] by (auto simp: runs_at_def code_placed_def)
  then have "registers v IP \<noteq> 0"
    by (intro runs_at_not_null [OF Nil.prems(2)])
  with Nil.prems show ?case
    by (subst exec_loop.simps) (simp add: sbind_def)
next
  case (Cons i "is")
  have f: "fetched bc (length pre) (encode i) v"
    using Cons.prems by (intro fetchedI [where post = "concat (map encode is) @ post"]) simp_all
  have nz: "registers v IP \<noteq> 0"
    using fetched_size [OF f] by (intro runs_at_not_null [OF Cons.prems(2)]) simp
  obtain c where c: "abs_step i a = Some c" "abs_run is c = Some b"
    using Cons.prems by (auto split: option.splits)
  then obtain v' where v': "exec_iteration bc v = Inr (None, v')" "simulates v' c"
    "runs_at bc (length (pre @ encode i)) v'"
    using step_instr [OF f _ Cons.prems(5)] Cons.prems by auto
  have "exec_loop bc n v = exec_loop bc (Suc n) v'"
    using nz v'(1) Cons.prems by (simp add: exec_loop_step)
  also have "\<dots> = Inl (Fatal_error ''Loop exhausted'')"
    using Cons.IH [of "pre @ encode i" v' "Suc n" c] Cons.prems v' c by simp
  finally show ?case .
qed

text \<open>
  C35. The loop is bounded: a program whose first 999 instructions neither halt nor fail ends
  with the fatal error \<^verbatim>\<open>Loop exhausted\<close>, however many instructions follow.
\<close>

theorem exec_long_program:
  assumes "ready base is v" and "999 \<le> length is"
    and "abs_run (take 999 is) (registers v, stack_contents (stack v)) = Some b"
  shows "bytecode_exec (bytecode_init_from_stream base (assemble is)) v
           = Inl (Fatal_error ''Loop exhausted'')"
proof -
  note s = ready_start [OF assms(1)]
  have "concat (map encode is) = concat (map encode (take 999 is)) @ concat (map encode (drop 999 is))"
    by (simp flip: concat_append map_append)
  then have c: "code_of (bytecode_init_from_stream base (assemble is))
      = [] @ concat (map encode (take 999 is)) @ (concat (map encode (drop 999 is)) @ [1])"
    using s(3) by simp
  have "\<forall>i \<in> set (take 999 is). instr_ok i"
    using assms(1) by (auto simp: ready_def dest: in_set_takeD)
  then show ?thesis
    unfolding s(2) using s(1) assms(2)
    by (intro exec_loop_exhausted [OF c _ _ _ s(4) assms(3)]) simp_all
qed

lemma abs_run_noops: "abs_run (replicate n I_noop) a = Some a"
proof (induction n)
  case (Suc n)
  then show ?case by (cases a) simp
qed simp

theorem exec_long_program_witness:
  "bytecode_exec (bytecode_init_from_stream 4096 (assemble (replicate 5000 I_noop))) fresh_vm
     = Inl (Fatal_error ''Loop exhausted'')"
proof (rule exec_long_program)
  have "length (assemble (replicate 5000 I_noop)) = 5001"
    by (simp add: assemble_def length_concat sum_list_replicate)
  then show "ready 4096 (replicate 5000 I_noop) fresh_vm"
    by (simp add: ready_def) (simp add: fresh_vm_def)
  show "abs_run (take 999 (replicate 5000 I_noop))
      (registers fresh_vm, stack_contents (stack fresh_vm)) = Some (registers fresh_vm, stack_contents (stack fresh_vm))"
    by (simp add: take_replicate abs_run_noops)
qed simp

text \<open>
  C37. An unknown system call number is reported through a 30-byte buffer: the report is stored
  for numbers of up to ten hexadecimal digits, and from \<open>2 ^ 40\<close> on \<^verbatim>\<open>sprintf\<close> writes
  past the end of the buffer.
\<close>

theorem unknown_syscall:
  assumes "3 < registers v R0"
  shows "handler_syscall v =
           (if registers v R0 < 2 ^ 40
            then Inr (None, v\<lparr> bytecode_error := Some (''Invalid syscall: 0x'' @ fmt_02x (unat (registers v R0))) \<rparr>)
            else Inl (Undefined ''buffer overflow''))"
proof -
  let ?r = "registers v R0"
  have n: "?r \<noteq> 0" "?r \<noteq> 1" "?r \<noteq> 2" "?r \<noteq> 3"
    using assms by auto
  have lt: "?r < 2 ^ 40 \<longleftrightarrow> unat ?r < 16 ^ 10"
    by (simp add: word_less_nat_alt)
  have "length (fmt_02x (unat ?r)) < 11 \<longleftrightarrow> unat ?r < 16 ^ 10"
  proof (cases "unat ?r < 16 ^ 10")
    case True
    then have "length (digits 16 (unat ?r)) \<le> 10" by (intro digits_length) simp_all
    moreover have "unat ?r < 16 \<Longrightarrow> length (digits 16 (unat ?r)) \<le> 1" by (intro digits_length) simp_all
    ultimately show ?thesis using True by (auto simp: fmt_02x_def)
  next
    case False
    then have "10 < length (digits 16 (unat ?r))" by (intro digits_length_ge) simp_all
    with False show ?thesis by (simp add: fmt_02x_def)
  qed
  with lt n show ?thesis
    by (simp add: handler_syscall_def Let_def sbind_Inr set_error_def sbind_Inl)
qed

theorem unknown_syscall_witness:
  "handler_syscall (fresh_vm\<lparr> registers := (\<lambda>_. 2 ^ 40) \<rparr>) = Inl (Undefined ''buffer overflow'')"
  using unknown_syscall [of "fresh_vm\<lparr> registers := (\<lambda>_. 2 ^ 40) \<rparr>"] by simp

end
