(* ===== verification/Vm_Disassemble.thy ===== *)
theory Vm_Disassemble
  imports Vm_Correct
begin

text \<open>
  The disassembler (src/disassemble.c) and the driver of \<^verbatim>\<open>blazevm\<close> (src/blazevm.c), which
  lists a file before it runs it. The disassembler accepts exactly the byte streams that are
  sequences of complete, known instructions.
\<close>

section \<open>The disassembler\<close>

text \<open>
  Its output, one entry per \<^verbatim>\<open>printf\<close> or \<^verbatim>\<open>fprintf\<close>, with the stream it goes to: the
  padding is written to the standard output, whatever \<^verbatim>\<open>fp\<close> is.
\<close>

datatype ostream = To_fp | To_stdout

type_synonym listing = "(ostream \<times> string) list"

definition put :: "ostream \<Rightarrow> string \<Rightarrow> (listing, unit) st" where
  "put f s = smod (\<lambda>out. out @ [(f, s)])"

definition fmt_0x :: "nat \<Rightarrow> nat \<Rightarrow> string" where
  "fmt_0x w n = replicate (w - length (digits 16 n)) CHR ''0'' @ digits 16 n"

definition disassemble_operand :: "bytecode \<Rightarrow> nat \<Rightarrow> addressing_mode_t \<Rightarrow> nat \<Rightarrow> (listing, unit) st" where
  "disassemble_operand bc sz mode i =
     sbind (sassert (mode \<noteq> AM_NONE) ''mode != AM_NONE'') (\<lambda>_.
     if mode = AM_REGISTER
     then sbind (sassert (sz = 1) ''size == 1'') (\<lambda>_.
          sbind (slift (bytecode_get_byte bc (of_nat i))) (\<lambda>b.
          sbind (slift (register_id_to_str (unat b))) (\<lambda>name. put To_fp (CHR ''%'' # name))))
     else if sz = 1
     then sbind (slift (bytecode_get_byte bc (of_nat i))) (\<lambda>x. put To_fp (''0x'' @ fmt_0x 2 (unat x)))
     else if sz = 2
     then sbind (slift (bytecode_get_word bc (of_nat i))) (\<lambda>x. put To_fp (''0x'' @ fmt_0x 4 (unat x)))
     else if sz = 4
     then sbind (slift (bytecode_get_dword bc (of_nat i))) (\<lambda>x. put To_fp (''0x'' @ fmt_0x 8 (unat x)))
     else if sz = 8
     then sbind (slift (bytecode_get_qword bc (of_nat i))) (\<lambda>x. put To_fp (''0x'' @ fmt_0x 16 (unat x)))
     else sthrow (Assertion_failed ''Invalid size''))"

text \<open>The loop over the bytes of an instruction, and the two padding loops.\<close>

fun dump_bytes :: "bytecode \<Rightarrow> nat list \<Rightarrow> (listing, unit) st" where
  "dump_bytes bc [] = sret ()"
| "dump_bytes bc (k # ks) =
     sbind (slift (buf_get (bc_bytes bc) k)) (\<lambda>b.
     sbind (put To_fp (fmt_0x 2 (unat b) @ '' '')) (\<lambda>_. dump_bytes bc ks))"

fun pad :: "nat \<Rightarrow> (listing, unit) st" where
  "pad 0 = sret ()"
| "pad (Suc n) = sbind (put To_stdout '' '') (\<lambda>_. pad n)"

text \<open>
  The operands of an instruction and the line break, from offset \<open>i1\<close>; the value is the
  offset of the next iteration.
\<close>

definition disassemble_operands :: "bytecode \<Rightarrow> operand_info \<times> operand_info \<Rightarrow> nat \<Rightarrow> (listing, nat) st" where
  "disassemble_operands bc info i1 =
     sbind (if oi_size (fst info) > 0
            then sbind (disassemble_operand bc (oi_size (fst info)) (oi_addrmode (fst info)) i1)
                   (\<lambda>_. sret (i1 + oi_size (fst info)))
            else sret i1) (\<lambda>i2.
     sbind (if oi_size (snd info) > 0
            then sbind (put To_fp '', '') (\<lambda>_.
                 sbind (disassemble_operand bc (oi_size (snd info)) (oi_addrmode (snd info)) i2)
                   (\<lambda>_. sret (i2 + oi_size (snd info))))
            else sret i2) (\<lambda>i3.
     sbind (put To_fp [newline]) (\<lambda>_. sret (i3 - 1 + 1))))"

text \<open>One iteration of the loop, from offset \<open>i\<close>.\<close>

definition disassemble_at :: "bytecode \<Rightarrow> nat \<Rightarrow> (listing, nat) st" where
  "disassemble_at bc i =
     sbind (slift (buf_get (bc_bytes bc) i)) (\<lambda>opcode.
     let inst_size = opcode_get_size (unat opcode) in
     sbind (slift (opcode_get_operand_info (unat opcode))) (\<lambda>info.
     sbind (slift (opcode_to_str (unat opcode))) (\<lambda>opcode_str.
     sbind (put To_fp ('' '' @ fmt_0x 8 (unat (bc_base bc + of_nat i)) @ '':  '')) (\<lambda>_.
     sbind (if inst_size > 0
            then sbind (dump_bytes bc [i..<i + inst_size]) (\<lambda>_. pad (35 - (inst_size * 3 - 1)))
            else sret ()) (\<lambda>_.
     sbind (put To_fp opcode_str) (\<lambda>_.
     if inst_size < 2
     then sbind (put To_fp [newline]) (\<lambda>_. sret (i + 1))
     else sbind (pad (10 - length opcode_str)) (\<lambda>_. disassemble_operands bc info (i + 1))))))))"

lemma disassemble_at_progress: "disassemble_at bc i out = Inr (j, out') \<Longrightarrow> i < j"
  by (auto simp: disassemble_at_def disassemble_operands_def Let_def monad_inversion split: if_splits)

function disassemble_from :: "bytecode \<Rightarrow> nat \<Rightarrow> (listing, unit) st" where
  "disassemble_from bc i out =
     (if i < bc_size bc
      then case disassemble_at bc i out of
             Inl e \<Rightarrow> Inl e
           | Inr (j, out') \<Rightarrow> disassemble_from bc j out'
      else Inr ((), out))"
  by pat_completeness auto
termination
  by (relation "measure (\<lambda>(bc, i, out). bc_size bc - i)") (auto dest: disassemble_at_progress)

declare disassemble_from.simps [simp del]

definition disassemble :: "bytecode \<Rightarrow> (listing, unit) st" where
  "disassemble bc = disassemble_from bc 0"

section \<open>The driver of the virtual machine\<close>

text \<open>
  \<^verbatim>\<open>process_file\<close> after the file was read: how the process ends. \<open>base\<close> is the address
  of the code block.
\<close>

definition process_file :: "u64 \<Rightarrow> u8 list \<Rightarrow> vm \<Rightarrow> fault" where
  "process_file base content v =
     (let bc = bytecode_init_from_filebuf base content in
      case disassemble bc [] of
        Inl e \<Rightarrow> e
      | Inr _ \<Rightarrow>
          (case bytecode_exec bc (execution_init v) of
             Inl e \<Rightarrow> e
           | Inr (False, v') \<Rightarrow> Fatal_error (the (bytecode_error v'))
           | Inr (True, v') \<Rightarrow> Process_exit (unat (bytecode_exit_code (execution_end v')))))"

section \<open>What the disassembler accepts\<close>

text \<open>
  A byte stream that is a sequence of complete instructions of the table, every register
  operand a register.
\<close>

definition operands_ok :: "opcode_t \<Rightarrow> u8 list \<Rightarrow> bool" where
  "operands_ok opc ops \<longleftrightarrow>
     (opc \<in> {OP_MOV_IR, OP_PUSH_R_B, OP_POP_R_B} \<longrightarrow> unat (ops ! 0) < REG_COUNT) \<and>
     (opc = OP_ADD_RR \<longrightarrow> unat (ops ! 0) < REG_COUNT \<and> unat (ops ! 1) < REG_COUNT)"

function decodable :: "u8 list \<Rightarrow> bool" where
  "decodable [] = True"
| "decodable (b # bs) =
     (unat b < OPCODE_COUNT
      \<and> opcode_get_size (unat b) - 1 \<le> length bs
      \<and> operands_ok (opcode_table ! unat b) bs
      \<and> decodable (drop (opcode_get_size (unat b) - 1) bs))"
  by pat_completeness auto
termination
  by (relation "measure length") auto

lemma decodable_drop:
  assumes "i < length bs"
  shows "decodable (drop i bs) \<longleftrightarrow>
    unat (bs ! i) < OPCODE_COUNT \<and> i + opcode_get_size (unat (bs ! i)) \<le> length bs
    \<and> operands_ok (opcode_table ! unat (bs ! i)) (drop (Suc i) bs)
    \<and> decodable (drop (i + opcode_get_size (unat (bs ! i))) bs)"
proof -
  have "drop i bs = bs ! i # drop (Suc i) bs" using assms by (simp add: Cons_nth_drop_Suc)
  moreover have "1 \<le> opcode_get_size (unat (bs ! i))" by (simp add: opcode_get_size_def Let_def split: prod.split)
  ultimately show ?thesis using assms by (auto simp: add.commute)
qed

text \<open>A listing step that succeeds whatever was written before, with this value.\<close>

definition yields :: "(listing, 'a) st \<Rightarrow> 'a \<Rightarrow> bool" where
  "yields m x \<longleftrightarrow> (\<forall>out. \<exists>out'. m out = Inr (x, out'))"

lemma yields_sret [simp]: "yields (sret x) y \<longleftrightarrow> x = y"
  by (simp add: yields_def)

lemma yields_put [simp, intro]: "yields (put f s) ()"
  by (simp add: yields_def put_def)

lemma yields_sbind: "yields m x \<Longrightarrow> yields (f x) y \<Longrightarrow> yields (sbind m f) y"
  unfolding yields_def by (metis sbind_Inr)

lemma yields_put_then [simp]: "yields (g ()) y \<Longrightarrow> yields (sbind (put f s) g) y"
  by (rule yields_sbind) simp_all

lemma yields_slift [simp]: "yields (sbind (slift (Inr x)) g) y \<longleftrightarrow> yields (g x) y"
  by (simp add: yields_def sbind_def)

lemma yieldsD: "yields m x \<Longrightarrow> \<exists>out'. m out = Inr (x, out')"
  by (simp add: yields_def)

lemma yields_pad: "yields (pad n) ()"
  by (induction n) (simp_all del: sret_apply add: sret_def [symmetric])

lemma yields_pad_then [simp]: "yields (g ()) y \<Longrightarrow> yields (sbind (pad n) g) y"
  by (rule yields_sbind [OF yields_pad])

lemma yields_dump_bytes:
  "\<forall>k \<in> set ks. k < length bs \<Longrightarrow> yields (dump_bytes (bytecode_init_from_stream base bs) ks) ()"
  by (induction ks) (simp_all add: yields_def sbind_def put_def buf_get_def bytecode_init_from_stream_def)

lemma dump_bytes_in_range:
  "dump_bytes (bytecode_init_from_stream base bs) ks out = Inr ((), out') \<Longrightarrow> \<forall>k \<in> set ks. k < length bs"
  by (induction ks arbitrary: out)
     (auto simp: monad_inversion buf_get_Inr bytecode_init_from_stream_def)

lemma get_byte_stream:
  assumes "length bs < 2 ^ 64" and "k < length bs"
  shows "bytecode_get_byte (bytecode_init_from_stream base bs) (of_nat k) = Inr (bs ! k)"
  using assms
  by (simp add: bytecode_get_byte_def bytecode_init_from_stream_def buf_get_def unat_of_nat_u64)

lemma get_qword_stream:
  assumes "length bs < 2 ^ 64" and "k + 8 \<le> length bs"
  shows "\<exists>q. bytecode_get_qword (bytecode_init_from_stream base bs) (of_nat k) = Inr q"
proof -
  have "(of_nat k :: u64) + 7 = of_nat (k + 7)" by simp
  moreover have "buf_read (map Some bs) k 8 = Inr (take 8 (drop k bs))"
    using assms by (intro buf_read_eq) (simp_all add: take_map drop_map)
  ultimately show ?thesis
    using assms unat_of_nat_u64 [of k] unat_of_nat_u64 [of "k + 7"]
    by (simp add: bytecode_get_qword_def bytecode_init_from_stream_def)
qed

text \<open>One iteration: exactly the head of a decodable stream is listed.\<close>

lemma opcode_range: "n < OPCODE_COUNT \<Longrightarrow> n \<in> {0, 1, 2, 3, 4, 5, 6, 7, 8}"
  by (auto simp: OPCODE_COUNT_def)

lemmas table_simps = OPCODE_COUNT_def opcode_table_def opcode_get_size_def opcode_get_operand_info_def
  opcode_to_str_def operands_ok_def Let_def

lemma register_operand [simp]:
  "disassemble_operand bc (Suc 0) AM_REGISTER i =
     sbind (slift (bytecode_get_byte bc (of_nat i))) (\<lambda>b.
     sbind (slift (register_id_to_str (unat b))) (\<lambda>name. put To_fp (CHR ''%'' # name)))"
  by (simp add: disassemble_operand_def)

lemma qword_operand [simp]:
  "disassemble_operand bc 8 AM_IMMEDIATE i =
     sbind (slift (bytecode_get_qword bc (of_nat i))) (\<lambda>x. put To_fp (''0x'' @ fmt_0x 16 (unat x)))"
  by (simp add: disassemble_operand_def)

definition operand_infos :: "nat \<Rightarrow> operand_info \<times> operand_info" where
  "operand_infos n = (let sizes = opcode_operand_sizes_lut (opcode_table ! n);
       modes = opcode_operand_addrmode_lut (opcode_table ! n)
     in (\<lparr> oi_size = fst sizes, oi_addrmode = fst modes \<rparr>, \<lparr> oi_size = snd sizes, oi_addrmode = snd modes \<rparr>))"

lemma opcode_get_operand_info_eq:
  "n < OPCODE_COUNT \<Longrightarrow> opcode_get_operand_info n = Inr (operand_infos n)"
  by (simp add: opcode_get_operand_info_def operand_infos_def Let_def)

lemma opcode_get_size_pos [simp]: "0 < opcode_get_size n"
  by (simp add: opcode_get_size_def Let_def split: prod.split)

lemma register_id_to_str_Inr: "register_id_to_str n = Inr s \<Longrightarrow> n < REG_COUNT"
  by (simp add: register_id_to_str_def is_valid_register_id_def split: if_splits)

lemma register_id_to_str_ok: "n < REG_COUNT \<Longrightarrow> register_id_to_str n = Inr (register_name (register_table ! n))"
  by (simp add: register_id_to_str_def is_valid_register_id_def)

lemma disassemble_operands_Inr:
  assumes "disassemble_operands (bytecode_init_from_stream base bs) (operand_infos n) (Suc i) out = Inr (j, out')"
    and "n < OPCODE_COUNT" "length bs < 2 ^ 64" "i + opcode_get_size n \<le> length bs" "2 \<le> opcode_get_size n"
  shows "operands_ok (opcode_table ! n) (drop (Suc i) bs) \<and> j = i + opcode_get_size n"
proof -
  note gb = get_byte_stream [OF assms(3), of _ base]
  show ?thesis
    using opcode_range [OF assms(2)] assms(1,4,5) gb [of "Suc i"] gb [of "Suc (Suc i)"]
    by (auto simp: disassemble_operands_def operand_infos_def table_simps monad_inversion
        dest!: register_id_to_str_Inr simp del: of_nat_Suc)
qed

lemma yields_operands:
  assumes "n < OPCODE_COUNT" "i + opcode_get_size n \<le> length bs" "length bs < 2 ^ 64" "2 \<le> opcode_get_size n"
    and "operands_ok (opcode_table ! n) (drop (Suc i) bs)"
  shows "yields (disassemble_operands (bytecode_init_from_stream base bs) (operand_infos n) (Suc i))
           (i + opcode_get_size n)"
proof -
  let ?bc = "bytecode_init_from_stream base bs"
  let ?j = "Suc (Suc i)"
  note gb = get_byte_stream [OF assms(3), of _ base]
  note d = disassemble_operands_def operand_infos_def table_simps sbind_assoc register_id_to_str_ok
  consider "n = 2" | "n = 3" | "n = 6" | "n = 7"
    using opcode_range [OF assms(1)] assms(4) by (auto simp: table_simps)
  then show ?thesis
  proof cases
    case 1
    then obtain q where "bytecode_get_qword ?bc (of_nat ?j) = Inr q"
      using get_qword_stream [OF assms(3), of ?j base] assms(2) by (auto simp: table_simps)
    with 1 show ?thesis using assms(2,5) gb [of "Suc i"] by (simp add: d del: of_nat_Suc)
  next
    case 2
    then show ?thesis using assms(2,5) gb [of "Suc i"] gb [of ?j] by (simp add: d del: of_nat_Suc)
  next
    case 3
    then show ?thesis using assms(2,5) gb [of "Suc i"] by (simp add: d del: of_nat_Suc)
  next
    case 4
    then show ?thesis using assms(2,5) gb [of "Suc i"] by (simp add: d del: of_nat_Suc)
  qed
qed

lemma disassemble_at_accepted:
  assumes "disassemble_at (bytecode_init_from_stream base bs) i out = Inr (j, out')"
    and "length bs < 2 ^ 64" "i < length bs"
  shows "unat (bs ! i) < OPCODE_COUNT \<and> i + opcode_get_size (unat (bs ! i)) \<le> length bs
    \<and> operands_ok (opcode_table ! unat (bs ! i)) (drop (Suc i) bs)
    \<and> j = i + opcode_get_size (unat (bs ! i))"
proof -
  let ?bc = "bytecode_init_from_stream base bs" and ?n = "unat (bs ! i)"
  have g: "buf_get (bc_bytes ?bc) i = Inr (bs ! i)"
    using assms by (simp add: buf_get_def bytecode_init_from_stream_def)
  have r: "?n < OPCODE_COUNT"
    using assms(1) g by (auto simp: disassemble_at_def monad_inversion Let_def opcode_get_operand_info_def split: if_splits)
  obtain out1 out2 where "dump_bytes ?bc [i..<i + opcode_get_size ?n] out1 = Inr ((), out2)"
    using assms(1) g by (auto simp: disassemble_at_def monad_inversion Let_def split: if_splits)
  then have "\<forall>k \<in> {i..<i + opcode_get_size ?n}. k < length bs"
    by (auto dest: dump_bytes_in_range)
  from this [rule_format, of "i + opcode_get_size ?n - 1"] opcode_get_size_pos [of ?n]
  have l: "i + opcode_get_size ?n \<le> length bs"
    by (cases "opcode_get_size ?n") simp_all
  show ?thesis
  proof (cases "opcode_get_size ?n < 2")
    case True
    then have "j = Suc i" "opcode_get_size ?n = 1"
      using assms(1) g opcode_get_size_pos [of ?n]
      by (auto simp: disassemble_at_def monad_inversion Let_def simp del: opcode_get_size_pos)
    moreover have "operands_ok (opcode_table ! ?n) (drop (Suc i) bs)"
      using True opcode_range [OF r] by (auto simp: table_simps)
    ultimately show ?thesis using r l by simp
  next
    case False
    then obtain out3 where "disassemble_operands ?bc (operand_infos ?n) (Suc i) out3 = Inr (j, out')"
      using assms(1) g r
      by (auto simp: disassemble_at_def monad_inversion Let_def opcode_get_operand_info_eq)
    from disassemble_operands_Inr [OF this r assms(2) l] False r l show ?thesis by simp
  qed
qed

lemma disassemble_at_complete:
  assumes "unat (bs ! i) < OPCODE_COUNT" and "i + opcode_get_size (unat (bs ! i)) \<le> length bs"
    and "operands_ok (opcode_table ! unat (bs ! i)) (drop (Suc i) bs)" and "length bs < 2 ^ 64"
  shows "yields (disassemble_at (bytecode_init_from_stream base bs) i)
           (i + opcode_get_size (unat (bs ! i)))"
proof -
  let ?bc = "bytecode_init_from_stream base bs" and ?n = "unat (bs ! i)"
  have i: "i < length bs" using assms(2) opcode_get_size_pos [of ?n] by linarith
  have g: "buf_get (bc_bytes ?bc) i = Inr (bs ! i)"
    using i by (simp add: buf_get_def bytecode_init_from_stream_def)
  have d: "yields (sbind (dump_bytes ?bc [i..<i + opcode_get_size ?n]) (\<lambda>_. pad k)) ()" for k
    using assms(2) by (intro yields_sbind [OF yields_dump_bytes] yields_pad) auto
  have s: "opcode_to_str ?n = Inr (opcode_to_str_lut (opcode_table ! ?n))"
    using assms(1) by (simp add: opcode_to_str_def)
  show ?thesis
  proof (cases "opcode_get_size ?n < 2")
    case True
    with opcode_get_size_pos [of ?n] have "opcode_get_size ?n = 1" by linarith
    then show ?thesis
      using assms(1) s d [of "35 - (opcode_get_size ?n * 3 - 1)"]
      unfolding disassemble_at_def g
      by (simp add: Let_def opcode_get_operand_info_eq yields_sbind del: upt_Suc)
  next
    case False
    then show ?thesis
      using assms(1) s d yields_operands [OF assms(1,2,4) _ assms(3)]
      unfolding disassemble_at_def g
      by (simp add: Let_def opcode_get_operand_info_eq yields_sbind)
  qed
qed

lemma disassemble_from_iff:
  assumes "length bs < 2 ^ 64" and "i \<le> length bs"
  shows "(\<exists>out'. disassemble_from (bytecode_init_from_stream base bs) i out = Inr ((), out'))
           \<longleftrightarrow> decodable (drop i bs)"
  using assms(2)
proof (induction "length bs - i" arbitrary: i out rule: less_induct)
  case less
  let ?bc = "bytecode_init_from_stream base bs" and ?s = "opcode_get_size (unat (bs ! i))"
  show ?case
  proof (cases "i < length bs")
    case False
    with less.prems show ?thesis by (simp add: disassemble_from.simps)
  next
    case True
    show ?thesis
    proof (cases "\<exists>j out1. disassemble_at ?bc i out = Inr (j, out1)")
      case True
      then obtain j out1 where j: "disassemble_at ?bc i out = Inr (j, out1)" by blast
      note a = disassemble_at_accepted [OF j assms(1) \<open>i < length bs\<close>]
      have "(\<exists>out'. disassemble_from ?bc j out1 = Inr ((), out')) \<longleftrightarrow> decodable (drop j bs)"
        using a \<open>i < length bs\<close> opcode_get_size_pos [of "unat (bs ! i)"]
        by (intro less.hyps) linarith+
      with a j \<open>i < length bs\<close> show ?thesis
        by (simp add: disassemble_from.simps [of ?bc i] decodable_drop)
    next
      case False
      then obtain e where e: "disassemble_at ?bc i out = Inl e"
        by (cases "disassemble_at ?bc i out") auto
      have "\<not> decodable (drop i bs)"
        using yieldsD [OF disassemble_at_complete [of bs i base], of out] assms(1) e
        by (auto simp: decodable_drop \<open>i < length bs\<close>)
      with e \<open>i < length bs\<close> show ?thesis by (simp add: disassemble_from.simps [of ?bc i])
    qed
  qed
qed

lemma operands_ok_append:
  assumes "n < OPCODE_COUNT" and "opcode_get_size n - 1 \<le> length bs"
  shows "operands_ok (opcode_table ! n) (bs @ ys) \<longleftrightarrow> operands_ok (opcode_table ! n) bs"
  using opcode_range [OF assms(1)] assms(2)
  by (cases bs rule: remdups_adj.cases; elim insertE emptyE; simp add: table_simps)

lemma decodable_append:
  "decodable xs \<Longrightarrow> decodable (xs @ ys) \<longleftrightarrow> decodable ys"
proof (induction xs rule: decodable.induct)
  case (2 b bs)
  let ?n = "unat b"
  have "operands_ok (opcode_table ! ?n) (bs @ ys) \<longleftrightarrow> operands_ok (opcode_table ! ?n) bs"
    using 2(2) by (intro operands_ok_append) simp_all
  moreover have "opcode_get_size ?n - Suc (length bs) = 0" using 2(2) by auto
  ultimately show ?case using 2 by simp
qed simp

text \<open>Over a decodable prefix the loop goes on to what follows it.\<close>

lemma disassemble_prefix:
  assumes "length (pre @ mid @ post) < 2 ^ 64" and "decodable mid"
  shows "\<exists>out'. disassemble_from (bytecode_init_from_stream base (pre @ mid @ post)) (length pre) out
     = disassemble_from (bytecode_init_from_stream base (pre @ mid @ post)) (length (pre @ mid)) out'"
  using assms
proof (induction mid arbitrary: pre out rule: decodable.induct)
  case (2 b bs)
  let ?all = "pre @ (b # bs) @ post" and ?n = "unat b"
  let ?bc = "bytecode_init_from_stream base ?all" and ?k = "opcode_get_size ?n - 1"
  have k: "opcode_get_size ?n = Suc ?k" using opcode_get_size_pos [of ?n] by linarith
  have "operands_ok (opcode_table ! ?n) (bs @ post)"
    using 2(3) operands_ok_append [of ?n bs post] by simp
  moreover have "opcode_get_size ?n \<le> Suc (length bs)" using 2(3) by auto
  ultimately have "yields (disassemble_at ?bc (length pre)) (length pre + opcode_get_size ?n)"
    using disassemble_at_complete [of ?all "length pre" base] 2(2,3) by simp
  then obtain out1 where "disassemble_at ?bc (length pre) out = Inr (length pre + opcode_get_size ?n, out1)"
    by (blast dest: yieldsD)
  then have "disassemble_from ?bc (length pre) out
      = disassemble_from ?bc (length (pre @ b # take ?k bs)) out1"
    using 2(3) k by (subst disassemble_from.simps) auto
  moreover have "?all = (pre @ b # take ?k bs) @ drop ?k bs @ post" by simp
  ultimately show ?case
    using "2.IH" [of "pre @ b # take ?k bs" out1] 2(2,3) by simp
qed auto

lemma reg_id_less [simp]: "unat (reg_id r) < 12"
  by (cases r) simp_all

lemma decodable_encode: "decodable (encode i)"
  by (cases i) (simp_all add: table_simps REG_COUNT_def)

lemma decodable_assemble: "decodable (assemble is)"
proof -
  have "decodable (concat (map encode is))"
    by (induction "is") (simp_all add: decodable_append decodable_encode)
  moreover have "decodable [1]" by (simp add: table_simps)
  ultimately show ?thesis by (simp add: assemble_def decodable_append)
qed

section \<open>Properties\<close>

text \<open>
  C31. The disassembler lists a stream to the end, with no failed assertion and no read past its
  end, exactly when the stream is a sequence of complete, known instructions whose register
  operands are registers.
\<close>

theorem disassemble_iff_decodable:
  assumes "length bs < 2 ^ 64"
  shows "(\<exists>out. disassemble (bytecode_init_from_stream base bs) [] = Inr ((), out)) \<longleftrightarrow> decodable bs"
  using disassemble_from_iff [OF assms, of 0 base "[]"] by (simp add: disassemble_def)

theorem disassemble_iff_decodable_witness:
  "(\<exists>out. disassemble (bytecode_init_from_stream 4096 [3, 0, 5, 1]) [] = Inr ((), out))
   \<and> \<not> (\<exists>out. disassemble (bytecode_init_from_stream 4096 [2, 0]) [] = Inr ((), out))"
  using disassemble_iff_decodable [of "[3, 0, 5, 1]" 4096] disassemble_iff_decodable [of "[2, 0]" 4096]
  by (simp add: table_simps REG_COUNT_def)

text \<open>
  C36. \<^verbatim>\<open>blazevm\<close> cannot run a program that keeps data after its code: a byte that is no
  opcode after the \<^verbatim>\<open>hlt\<close> that ends the program aborts the process in the listing, before
  the first instruction is executed.
\<close>

theorem process_file_data_after_code:
  assumes "length (assemble is @ b # rest) < 2 ^ 64" and "OPCODE_COUNT \<le> unat b"
  shows "process_file base (assemble is @ b # rest) v = Assertion_failed ''Invalid opcode''"
proof -
  let ?all = "assemble is @ b # rest"
  let ?bc = "bytecode_init_from_stream base ?all"
  have "\<not> (?all ! 0 = 0x23)"
    using decodable_assemble [of "is"] by (cases "assemble is") (auto simp: assemble_def OPCODE_COUNT_def)
  then have bc: "bytecode_init_from_filebuf base ?all = ?bc"
    by (simp add: bytecode_init_from_filebuf_def)
  obtain out where "disassemble ?bc [] = disassemble_from ?bc (length (assemble is)) out"
    using disassemble_prefix [of "[]" "assemble is" "b # rest" base "[]"] assms(1) decodable_assemble
    by (auto simp: disassemble_def)
  also have "\<dots> = Inl (Assertion_failed ''Invalid opcode'')"
    using assms(2)
    by (simp add: disassemble_from.simps [of ?bc "length (assemble is)"] disassemble_at_def sbind_def
        buf_get_def opcode_get_operand_info_def) (simp add: bytecode_init_from_stream_def nth_append)
  finally show ?thesis by (simp add: process_file_def bc)
qed

theorem process_file_data_after_code_witness:
  "process_file 4096 (assemble [I_mov R1 7] @ [0x48, 0x69]) fresh_vm = Assertion_failed ''Invalid opcode''"
  by (rule process_file_data_after_code) (simp_all add: assemble_def OPCODE_COUNT_def)

end
