(* ===== verification/Value_Heap.thy ===== *)
theory Value_Heap
  imports Ast Valmap
begin

text \<open>
  The values of the evaluator and the memory they live in: src/datatype.h, src/valalloc.c,
  src/vector.c, and the functions that free values (src/datatype.c, src/valmap.c, src/scope.c).
  Memory is explicit: what is freed stays marked, and a pointer that does not point into live
  memory is an undefined step, so use after free and double free can be stated.
\<close>

section \<open>Values\<close>

type_synonym addr = nat

text \<open>
  A pointer to a value of the allocation table is the generation of the array of values, which
  growing the table replaces, with an index into it. The one static value that pointers are made
  to is \<^verbatim>\<open>null_val\<close> of src/scope.c.
\<close>

datatype val_ptr = Cell nat nat | Null_val

text \<open>
  A \<^verbatim>\<open>long double\<close> is the 80-bit extended format of x86: a sign and the exact value
  \<open>fl_mant / 2 ^ fl_scale\<close>.
\<close>

record float80 =
  fl_neg :: bool
  fl_mant :: int
  fl_scale :: nat

text \<open>Pointers to strings, functions and vectors are addresses, or \<open>None\<close> for NULL.\<close>

datatype val_data =
    VAL_INTEGER int
  | VAL_FLOAT float80
  | VAL_STRING "addr option"
  | VAL_FUNCTION "addr option"
  | VAL_OBJECT
  | VAL_NULL
  | VAL_BOOLEAN bool
  | VAL_ARRAY "addr option"

record val_t =
  nofree :: bool
  self_ptr :: "val_ptr option"
  val_data :: val_data

datatype builtin = FN_println | FN_print | FN_array | FN_array_filter | FN_read | FN_exit

text \<open>
  The callback of a function object that was only allocated is NULL. A function of the program
  has its body, its parameters and its scope.
\<close>

datatype val_function =
    FN_BUILT_IN "builtin option"
  | FN_USER_CUSTOM "ast_node list" "string list" "addr option"

datatype scope_mode = SC_DEFAULT | SC_MODE_REUSE

record scope =
  sc_parent :: "addr option"
  sc_valmap :: "val_t valmap"
  allow_redecl :: bool
  sc_mode :: scope_mode
  unique_id :: u64
  prev_unique_id :: u64

record val_alloc_tbl =
  tbl_capacity :: nat
  tbl_values :: "val_t list"
  tbl_head :: "nat list"
  tbl_generation :: nat

text \<open>
  The whole state of a run. Freed strings, functions, vectors and scopes are \<open>None\<close>.
  \<open>getline_rest\<close> and \<open>errno_text\<close> are what C leaves open: the bytes \<^verbatim>\<open>getline\<close> has behind
  the line in its buffer, and the message of \<^verbatim>\<open>strerror\<close>.
\<close>

record machine =
  m_strings :: "string option list"
  m_fns :: "val_function option list"
  m_vectors :: "val_ptr list option list"
  m_scopes :: "scope option list"
  m_tbl :: val_alloc_tbl
  builtin_functions :: "(string \<times> builtin \<times> val_ptr option) list"
  eval_fn_error :: "string option"
  m_out :: string
  m_in :: string
  getline_rest :: string
  errno_text :: string

type_synonym 'a run = "(machine, 'a) st"

section \<open>Memory\<close>

definition undefined_step :: "string \<Rightarrow> 'a run" where
  "undefined_step msg = sthrow (Undefined msg)"

text \<open>What is at an address, and writing and freeing it.\<close>

definition at_addr :: "(machine \<Rightarrow> 'a option list) \<Rightarrow> addr option \<Rightarrow> 'a run" where
  "at_addr heap p = (\<lambda>m.
     case p of
       None \<Rightarrow> Inl (Undefined ''NULL dereferenced'')
     | Some a \<Rightarrow>
         if a < length (heap m)
         then (case heap m ! a of None \<Rightarrow> Inl (Undefined ''use after free'') | Some x \<Rightarrow> Inr (x, m))
         else Inl (Undefined ''wild pointer''))"

definition put_addr ::
  "(machine \<Rightarrow> 'a option list) \<Rightarrow> (('a option list \<Rightarrow> 'a option list) \<Rightarrow> machine \<Rightarrow> machine) \<Rightarrow> addr option \<Rightarrow> 'a option \<Rightarrow> unit run" where
  "put_addr heap upd p x =
     sbind (at_addr heap p) (\<lambda>_. smod (upd (\<lambda>h. h[the p := x])))"

definition alloc_addr ::
  "(machine \<Rightarrow> 'a option list) \<Rightarrow> (('a option list \<Rightarrow> 'a option list) \<Rightarrow> machine \<Rightarrow> machine) \<Rightarrow> 'a \<Rightarrow> addr run" where
  "alloc_addr heap upd x =
     sbind (sget (\<lambda>m. length (heap m))) (\<lambda>a. sbind (smod (upd (\<lambda>h. h @ [Some x]))) (\<lambda>_. sret a))"

abbreviation "str_at \<equiv> at_addr m_strings"
abbreviation "str_new \<equiv> alloc_addr m_strings m_strings_update"
abbreviation "fn_at \<equiv> at_addr m_fns"
abbreviation "fn_put \<equiv> put_addr m_fns m_fns_update"
abbreviation "fn_new \<equiv> alloc_addr m_fns m_fns_update"
abbreviation "vec_at \<equiv> at_addr m_vectors"
abbreviation "vec_put \<equiv> put_addr m_vectors m_vectors_update"
abbreviation "vec_new \<equiv> alloc_addr m_vectors m_vectors_update"
abbreviation "scope_at \<equiv> at_addr m_scopes"
abbreviation "scope_put \<equiv> put_addr m_scopes m_scopes_update"
abbreviation "scope_new \<equiv> alloc_addr m_scopes m_scopes_update"

text \<open>\<^verbatim>\<open>free\<close> does nothing with NULL.\<close>

definition free_addr ::
  "(machine \<Rightarrow> 'a option list) \<Rightarrow> (('a option list \<Rightarrow> 'a option list) \<Rightarrow> machine \<Rightarrow> machine) \<Rightarrow> addr option \<Rightarrow> unit run" where
  "free_addr heap upd p = (if p = None then sret () else put_addr heap upd p None)"

section \<open>Vectors\<close>

definition vector_init :: "addr run" where
  "vector_init = vec_new []"

definition vector_push :: "addr option \<Rightarrow> val_ptr \<Rightarrow> nat run" where
  "vector_push v element =
     sbind (vec_at v) (\<lambda>data. sbind (vec_put v (Some (data @ [element]))) (\<lambda>_. sret (length data)))"

definition vector_at :: "addr option \<Rightarrow> nat \<Rightarrow> val_ptr run" where
  "vector_at v index =
     sbind (vec_at v) (\<lambda>data.
     if index \<ge> length data
     then sthrow (Fatal_error (''Index out of bound: trying to access index '' @ digits 10 index
            @ '' of a vector with length '' @ digits 10 (length data)))
     else sret (data ! index))"

definition vector_free :: "addr option \<Rightarrow> unit run" where
  "vector_free v = put_addr m_vectors m_vectors_update v None"

section \<open>The allocation table\<close>

definition VAL_TBL_INIT_CAP :: nat where
  "VAL_TBL_INIT_CAP = 4096"

definition val_alloc_tbl_init :: val_alloc_tbl where
  "val_alloc_tbl_init = \<lparr> tbl_capacity = VAL_TBL_INIT_CAP, tbl_values = [], tbl_head = [], tbl_generation = 0 \<rparr>"

text \<open>Growing the table moves the values: every pointer taken before is invalid after it.\<close>

definition val_alloc_tbl_resize :: "bool run" where
  "val_alloc_tbl_resize =
     sbind (sget m_tbl) (\<lambda>tbl.
     if length (tbl_values tbl) < tbl_capacity tbl - 1 then sret False
     else sbind (smod (\<lambda>m. m\<lparr> m_tbl := tbl\<lparr> tbl_capacity := tbl_capacity tbl * 2,
                                          tbl_generation := Suc (tbl_generation tbl) \<rparr> \<rparr>)) (\<lambda>_. sret True))"

text \<open>
  A cell of the free list comes back as it was freed; a new one has \<^verbatim>\<open>nofree\<close> and \<^verbatim>\<open>self_ptr\<close>
  set. The type and the content of a new cell are zero until the first growth and indeterminate
  after it; both callers write them before anything reads them.
\<close>

definition val_alloc :: "val_ptr run" where
  "val_alloc =
     sbind (sget m_tbl) (\<lambda>tbl.
     case tbl_head tbl of
       index # rest \<Rightarrow>
         sbind (smod (\<lambda>m. m\<lparr> m_tbl := tbl\<lparr> tbl_head := rest \<rparr> \<rparr>)) (\<lambda>_. sret (Cell (tbl_generation tbl) index))
     | [] \<Rightarrow>
         sbind val_alloc_tbl_resize (\<lambda>_.
         sbind (sget m_tbl) (\<lambda>tbl.
         let p = Cell (tbl_generation tbl) (length (tbl_values tbl));
             v = \<lparr> nofree = False, self_ptr = Some p, val_data = VAL_INTEGER 0 \<rparr> in
         sbind (smod (\<lambda>m. m\<lparr> m_tbl := tbl\<lparr> tbl_values := tbl_values tbl @ [v] \<rparr> \<rparr>)) (\<lambda>_. sret p))))"

definition null_val :: val_t where
  "null_val = \<lparr> nofree = True, self_ptr = None, val_data = VAL_NULL \<rparr>"

definition val_at :: "val_ptr \<Rightarrow> val_t run" where
  "val_at p =
     sbind (sget m_tbl) (\<lambda>tbl.
     case p of
       Null_val \<Rightarrow> sret null_val
     | Cell g i \<Rightarrow> if g = tbl_generation tbl \<and> i < length (tbl_values tbl) then sret (tbl_values tbl ! i)
                   else undefined_step ''use after the value table moved'')"

definition val_put :: "val_ptr \<Rightarrow> val_t \<Rightarrow> unit run" where
  "val_put p v =
     sbind (val_at p) (\<lambda>_.
     case p of
       Null_val \<Rightarrow> undefined_step ''write to null_val''
     | Cell g i \<Rightarrow> smod (\<lambda>m. m\<lparr> m_tbl := (m_tbl m)\<lparr> tbl_values := (tbl_values (m_tbl m))[i := v] \<rparr> \<rparr>))"

section \<open>Making values\<close>

definition val_init :: "val_data \<Rightarrow> val_t" where
  "val_init d = \<lparr> nofree = False, self_ptr = None, val_data = d \<rparr>"

definition val_init_heap :: "val_ptr run" where
  "val_init_heap =
     sbind val_alloc (\<lambda>p. sbind (val_at p) (\<lambda>v. sbind (val_put p (v\<lparr> nofree := False \<rparr>)) (\<lambda>_. sret p)))"

text \<open>
  \<^verbatim>\<open>val_create\<close> by the type of \<open>d\<close>: a function gets an object of its own, filled with zeros, and
  an array an empty vector; of the other types the content \<open>d\<close> is what the caller puts there.
\<close>

definition val_create :: "val_data \<Rightarrow> val_t run" where
  "val_create d =
     (case d of
        VAL_FUNCTION _ \<Rightarrow> sbind (fn_new (FN_BUILT_IN None)) (\<lambda>f. sret (val_init (VAL_FUNCTION (Some f))))
      | VAL_ARRAY _ \<Rightarrow> sbind vector_init (\<lambda>v. sret (val_init (VAL_ARRAY (Some v))))
      | _ \<Rightarrow> sret (val_init d))"

definition val_create_heap :: "val_data \<Rightarrow> val_ptr run" where
  "val_create_heap d =
     sbind (val_create d) (\<lambda>v.
     sbind val_init_heap (\<lambda>p.
     sbind (val_put p (v\<lparr> self_ptr := Some p \<rparr>)) (\<lambda>_. sret p)))"

definition val_copy :: "val_ptr \<Rightarrow> val_ptr run" where
  "val_copy value =
     sbind val_alloc (\<lambda>p. sbind (val_at value) (\<lambda>v. sbind (val_put p (v\<lparr> self_ptr := Some p \<rparr>)) (\<lambda>_. sret p)))"

section \<open>Freeing values, tables and scopes\<close>

text \<open>
  These functions call each other: freeing a function frees its scope, freeing a scope frees the
  values its table points to. \<open>sf\<close> is the function that frees a scope; the recursion is closed
  below. Trees are values, so freeing the copied body of a function has no effect here.
\<close>

definition val_free_inner :: "(addr option \<Rightarrow> unit run) \<Rightarrow> val_t \<Rightarrow> val_t run" where
  "val_free_inner sf v =
     (if nofree v then sret v
      else case val_data v of
        VAL_STRING s \<Rightarrow> sbind (free_addr m_strings m_strings_update s) (\<lambda>_. sret (v\<lparr> val_data := VAL_STRING None \<rparr>))
      | VAL_ARRAY a \<Rightarrow> sbind (vector_free a) (\<lambda>_. sret (v\<lparr> val_data := VAL_ARRAY None \<rparr>))
      | VAL_FUNCTION f \<Rightarrow>
          sbind (fn_at f) (\<lambda>fn.
          case fn of
            FN_USER_CUSTOM body params s \<Rightarrow>
              sbind (sf s) (\<lambda>_. sbind (free_addr m_fns m_fns_update f) (\<lambda>_. sret v))
          | FN_BUILT_IN _ \<Rightarrow> sret v)
      | _ \<Rightarrow> sret v)"

definition val_free_force_no_root :: "(addr option \<Rightarrow> unit run) \<Rightarrow> val_ptr \<Rightarrow> unit run" where
  "val_free_force_no_root sf p =
     sbind (val_at p) (\<lambda>v.
     sbind (val_free_inner sf v) (\<lambda>v'. if v' = v then sret () else val_put p v'))"

definition val_alloc_free :: "(addr option \<Rightarrow> unit run) \<Rightarrow> val_ptr \<Rightarrow> bool \<Rightarrow> unit run" where
  "val_alloc_free sf p free_inner =
     sbind (val_at p) (\<lambda>_.
     case p of
       Null_val \<Rightarrow> undefined_step ''null_val is no value of the table''
     | Cell g i \<Rightarrow>
         sbind (smod (\<lambda>m. m\<lparr> m_tbl := (m_tbl m)\<lparr> tbl_head := i # tbl_head (m_tbl m) \<rparr> \<rparr>)) (\<lambda>_.
         sbind (if free_inner then val_free_force_no_root sf p else sret ()) (\<lambda>_.
         sbind (val_at p) (\<lambda>v.
         val_put p (v\<lparr> val_data := VAL_NULL, nofree := True \<rparr>)))))"

text \<open>The loop of \<^verbatim>\<open>valmap_free\<close> over the array.\<close>

fun valmap_free :: "(addr option \<Rightarrow> unit run) \<Rightarrow> bool \<Rightarrow> val_t valmap_entry option list \<Rightarrow> unit run" where
  "valmap_free sf free_values [] = sret ()"
| "valmap_free sf free_values (None # es) = valmap_free sf free_values es"
| "valmap_free sf free_values (Some e # es) =
     sbind (if free_values \<and> val_data (ve_value e) \<noteq> VAL_NULL \<and> \<not> nofree (ve_value e)
            then (case self_ptr (ve_value e) of None \<Rightarrow> sret () | Some p \<Rightarrow> val_alloc_free sf p True)
            else sret ()) (\<lambda>_.
     valmap_free sf free_values es)"

fun valmap_free_builtin_fns :: "val_t valmap_entry option list \<Rightarrow> val_t valmap_entry option list run" where
  "valmap_free_builtin_fns [] = sret []"
| "valmap_free_builtin_fns (None # es) = sbind (valmap_free_builtin_fns es) (\<lambda>es'. sret (None # es'))"
| "valmap_free_builtin_fns (Some e # es) =
     sbind (case val_data (ve_value e) of
              VAL_FUNCTION f \<Rightarrow>
                sbind (fn_at f) (\<lambda>fn.
                case fn of
                  FN_BUILT_IN _ \<Rightarrow> sbind (free_addr m_fns m_fns_update f) (\<lambda>_. sret None)
                | FN_USER_CUSTOM _ _ _ \<Rightarrow> sret (Some e))
            | _ \<Rightarrow> sret (Some e)) (\<lambda>e'.
     sbind (valmap_free_builtin_fns es) (\<lambda>es'. sret (e' # es')))"

definition scope_free_body :: "(addr option \<Rightarrow> unit run) \<Rightarrow> addr option \<Rightarrow> unit run" where
  "scope_free_body sf s =
     (if s = None then sret ()
      else
      sbind (scope_at s) (\<lambda>sc.
      sbind (if sc_parent sc = None then valmap_free_builtin_fns (vm_array (sc_valmap sc))
             else sret (vm_array (sc_valmap sc))) (\<lambda>array.
      sbind (valmap_free sf True array) (\<lambda>_.
      free_addr m_scopes m_scopes_update s))))"

text \<open>The fuel bounds how deep scopes are freed from within scopes.\<close>

fun scope_free :: "nat \<Rightarrow> addr option \<Rightarrow> unit run" where
  "scope_free 0 s = sthrow Out_of_fuel"
| "scope_free (Suc n) s = scope_free_body (scope_free n) s"

definition val_free_force :: "nat \<Rightarrow> val_ptr \<Rightarrow> unit run" where
  "val_free_force n p =
     sbind (val_free_force_no_root (scope_free n) p) (\<lambda>_. val_alloc_free (scope_free n) p True)"

text \<open>\<^verbatim>\<open>val_free\<close> of a pointer that is not NULL.\<close>

definition val_free :: "nat \<Rightarrow> val_ptr \<Rightarrow> unit run" where
  "val_free n p =
     sbind (val_at p) (\<lambda>v.
     if nofree v then sret ()
     else case val_data v of
       VAL_FUNCTION f \<Rightarrow>
         sbind (fn_at f) (\<lambda>fn. case fn of FN_BUILT_IN _ \<Rightarrow> sret () | FN_USER_CUSTOM _ _ _ \<Rightarrow> val_free_force n p)
     | _ \<Rightarrow> val_free_force n p)"

text \<open>
  \<^verbatim>\<open>val_alloc_tbl_free\<close>: every value of the table that is not null is freed; the nodes of
  the free list and the array go without further effect.
\<close>

primrec free_cells :: "(addr option \<Rightarrow> unit run) \<Rightarrow> nat \<Rightarrow> nat \<Rightarrow> nat \<Rightarrow> unit run" where
  "free_cells sf g i 0 = sret ()"
| "free_cells sf g i (Suc k) =
     sbind (val_at (Cell g i)) (\<lambda>v.
     sbind (if val_data v \<noteq> VAL_NULL then val_free_force_no_root sf (Cell g i) else sret ()) (\<lambda>_.
     free_cells sf g (Suc i) k))"

definition val_alloc_tbl_free :: "nat \<Rightarrow> bool \<Rightarrow> unit run" where
  "val_alloc_tbl_free n recursive =
     sbind (sget m_tbl) (\<lambda>tbl.
     if recursive then free_cells (scope_free n) (tbl_generation tbl) 0 (length (tbl_values tbl)) else sret ())"

definition val_alloc_tbl_global_init :: "unit run" where
  "val_alloc_tbl_global_init = smod (\<lambda>m. m\<lparr> m_tbl := val_alloc_tbl_init \<rparr>)"

definition val_alloc_tbl_global_free :: "nat \<Rightarrow> unit run" where
  "val_alloc_tbl_global_free n = val_alloc_tbl_free n True"

end
