(* ===== verification/Scope.thy ===== *)
theory Scope
  imports Value_Heap
begin

text \<open>
  Scopes (src/scope.c): a symbol table with a parent, in which the names of the program and of the
  built-in functions are looked up, declared and assigned; and the copying of values
  (\<^verbatim>\<open>val_copy_deep\<close> in src/datatype.c), which makes a scope for a copied function.
\<close>

section \<open>Declaring, assigning and resolving\<close>

definition true_val :: val_t where
  "true_val = \<lparr> nofree = True, self_ptr = None, val_data = VAL_BOOLEAN True \<rparr>"

definition false_val :: val_t where
  "false_val = \<lparr> nofree = True, self_ptr = None, val_data = VAL_BOOLEAN False \<rparr>"

definition blaze_null :: val_ptr where
  "blaze_null = Null_val"

text \<open>
  An operation of the symbol table of a scope: the new table is stored, and the value that the
  operation overwrites is freed first, if it asks for that.
\<close>

definition on_valmap ::
  "nat \<Rightarrow> addr option \<Rightarrow> (val_t valmap \<Rightarrow> (val_t valmap \<times> valmap_set_status \<times> val_t option) res) \<Rightarrow> valmap_set_status run" where
  "on_valmap n s f =
     sbind (scope_at s) (\<lambda>sc.
     sbind (slift (f (sc_valmap sc))) (\<lambda>(vm, status, freed).
     sbind (scope_put s (Some (sc\<lparr> sc_valmap := vm \<rparr>))) (\<lambda>_.
     sbind (case freed of None \<Rightarrow> sret () | Some v \<Rightarrow> sbind (val_free_inner (scope_free n) v) (\<lambda>_. sret ())) (\<lambda>_.
     sret status))))"

definition scope_declare_identifier :: "nat \<Rightarrow> addr option \<Rightarrow> string \<Rightarrow> val_t \<Rightarrow> bool \<Rightarrow> valmap_set_status run" where
  "scope_declare_identifier n s name val is_const =
     sbind (scope_at s) (\<lambda>sc.
     if allow_redecl sc then on_valmap n s (\<lambda>vm. valmap_set_default vm name val is_const True)
     else on_valmap n s (\<lambda>vm. valmap_set_no_overwrite vm name val is_const True))"

text \<open>
  The walk to the parents. A parent is allocated before its child, so the address of the scope
  bounds the walk.
\<close>

fun assign_upto :: "nat \<Rightarrow> nat \<Rightarrow> addr option \<Rightarrow> string \<Rightarrow> val_t \<Rightarrow> valmap_set_status run" where
  "assign_upto 0 n s name val = sthrow Out_of_fuel"
| "assign_upto (Suc k) n s name val =
     sbind (on_valmap n s (\<lambda>vm. valmap_set_no_create vm name val False False)) (\<lambda>status.
     sbind (scope_at s) (\<lambda>sc.
     if status = VAL_SET_NOT_FOUND \<and> sc_parent sc \<noteq> None then assign_upto k n (sc_parent sc) name val
     else sret status))"

definition walk_bound :: "addr option \<Rightarrow> nat" where
  "walk_bound s = (case s of None \<Rightarrow> 1 | Some a \<Rightarrow> Suc a)"

definition scope_assign_identifier :: "nat \<Rightarrow> addr option \<Rightarrow> string \<Rightarrow> val_t \<Rightarrow> valmap_set_status run" where
  "scope_assign_identifier n s name val = assign_upto (walk_bound s) n s name val"

text \<open>
  The result is a pointer to the value in an entry: the scope, the array of its table at that
  time, and the index; or NULL.
\<close>

record entry_ptr =
  ep_scope :: "addr option"
  ep_array_id :: nat
  ep_index :: nat

fun resolve_upto :: "nat \<Rightarrow> addr option \<Rightarrow> string \<Rightarrow> entry_ptr option run" where
  "resolve_upto 0 s name = sthrow Out_of_fuel"
| "resolve_upto (Suc k) s name =
     sbind (scope_at s) (\<lambda>sc.
     sbind (slift (valmap_get (sc_valmap sc) name)) (\<lambda>p.
     case p of
       Some i \<Rightarrow> sret (Some \<lparr> ep_scope = s, ep_array_id = vm_array_id (sc_valmap sc), ep_index = i \<rparr>)
     | None \<Rightarrow> if sc_parent sc \<noteq> None then resolve_upto k (sc_parent sc) name else sret None))"

definition scope_resolve_identifier :: "addr option \<Rightarrow> string \<Rightarrow> entry_ptr option run" where
  "scope_resolve_identifier s name = resolve_upto (walk_bound s) s name"

text \<open>Reading through such a pointer: the table must still have the array it points into.\<close>

definition entry_at :: "entry_ptr \<Rightarrow> val_t run" where
  "entry_at p =
     sbind (scope_at (ep_scope p)) (\<lambda>sc.
     if vm_array_id (sc_valmap sc) = ep_array_id p
     then (case vm_array (sc_valmap sc) ! ep_index p of
             Some e \<Rightarrow> sret (ve_value e)
           | None \<Rightarrow> undefined_step ''free slot read'')
     else undefined_step ''use after the symbol table moved'')"

section \<open>Making scopes\<close>

definition new_scope :: "addr option \<Rightarrow> scope" where
  "new_scope parent =
     \<lparr> sc_parent = parent, sc_valmap = valmap_init_default, allow_redecl = False, sc_mode = SC_DEFAULT,
       unique_id = 0, prev_unique_id = 0 \<rparr>"

text \<open>The built-in functions are declared in every scope that has a parent.\<close>

fun declare_builtins :: "nat \<Rightarrow> addr option \<Rightarrow> (string \<times> builtin \<times> val_ptr option) list \<Rightarrow> unit run" where
  "declare_builtins n s [] = sret ()"
| "declare_builtins n s ((name, b, fnval) # bs) =
     sbind (sassert (fnval \<noteq> None) ''builtin_functions[i].fnval != NULL'') (\<lambda>_.
     sbind (val_at (the fnval)) (\<lambda>v.
     sbind (scope_declare_identifier n s name v True) (\<lambda>_.
     declare_builtins n s bs)))"

definition scope_init :: "nat \<Rightarrow> addr option \<Rightarrow> addr option run" where
  "scope_init n parent =
     sbind (scope_new (new_scope parent)) (\<lambda>a.
     sbind (if parent \<noteq> None
            then sbind (sget builtin_functions) (\<lambda>bs. declare_builtins n (Some a) bs)
            else sret ()) (\<lambda>_.
     sret (Some a)))"

fun create_builtins ::
  "nat \<Rightarrow> addr option \<Rightarrow> (string \<times> builtin \<times> val_ptr option) list \<Rightarrow> (string \<times> builtin \<times> val_ptr option) list run" where
  "create_builtins n s [] = sret []"
| "create_builtins n s ((name, b, fnval) # bs) =
     sbind (val_create_heap (VAL_FUNCTION None)) (\<lambda>p.
     sbind (val_at p) (\<lambda>v.
     let v' = v\<lparr> nofree := True \<rparr> in
     sbind (val_put p v') (\<lambda>_.
     sbind (fn_put (case val_data v of VAL_FUNCTION f \<Rightarrow> f | _ \<Rightarrow> None) (Some (FN_BUILT_IN (Some b)))) (\<lambda>_.
     sbind (scope_declare_identifier n s name v' True) (\<lambda>_.
     sbind (create_builtins n s bs) (\<lambda>bs'.
     sret ((name, b, Some p) # bs')))))))"

definition scope_create_global :: "nat \<Rightarrow> addr option run" where
  "scope_create_global n =
     sbind (scope_init n None) (\<lambda>s.
     sbind (scope_declare_identifier n s ''true'' true_val True) (\<lambda>_.
     sbind (scope_declare_identifier n s ''false'' false_val True) (\<lambda>_.
     sbind (scope_declare_identifier n s ''null'' null_val True) (\<lambda>_.
     sbind (sget builtin_functions) (\<lambda>bs.
     sbind (create_builtins n s bs) (\<lambda>bs'.
     sbind (smod (\<lambda>m. m\<lparr> builtin_functions := bs' \<rparr>)) (\<lambda>_.
     sret s)))))))"

section \<open>Copying values\<close>

text \<open>
  There is no case for arrays: the copy of an array is the empty one that \<^verbatim>\<open>val_create_heap\<close>
  made. (The warning about it goes to the standard error.)
\<close>

definition val_copy_deep :: "nat \<Rightarrow> val_t \<Rightarrow> val_ptr run" where
  "val_copy_deep n orig =
     (if val_data orig = VAL_NULL then sret blaze_null
      else
      sbind (val_create_heap (val_data orig)) (\<lambda>p.
      sbind (val_at p) (\<lambda>v.
      case val_data orig of
        VAL_STRING s \<Rightarrow>
          sbind (str_at s) (\<lambda>chars.
          sbind (str_new chars) (\<lambda>a.
          sbind (val_put p (v\<lparr> val_data := VAL_STRING (Some a) \<rparr>)) (\<lambda>_. sret p)))
      | VAL_FUNCTION f \<Rightarrow>
          let g = (case val_data v of VAL_FUNCTION g \<Rightarrow> g | _ \<Rightarrow> None) in
          sbind (fn_at f) (\<lambda>fn.
          case fn of
            FN_BUILT_IN b \<Rightarrow> sbind (fn_put g (Some (FN_BUILT_IN b))) (\<lambda>_. sret p)
          | FN_USER_CUSTOM body params s \<Rightarrow>
              sbind (slift (deep_copy_list body)) (\<lambda>body'.
              sbind (scope_init n s) (\<lambda>s'.
              sbind (fn_put g (Some (FN_USER_CUSTOM body' params s'))) (\<lambda>_. sret p))))
      | _ \<Rightarrow> sret p)))"

end
