(* ===== verification/Print_Lib.thy ===== *)
theory Print_Lib
  imports Scope
begin

text \<open>
  Floating-point division and its printing, the printing of values (lib/print.c), and the built-in
  functions that do not call back into the evaluator (lib/lib.c).
\<close>

section \<open>Long double\<close>

text \<open>
  The two operations on floating-point numbers that the sources have: the division of two integers,
  rounded to the nearest number with 64 significant bits, ties to even, and the conversion
  \<^verbatim>\<open>%Lf\<close> with its six decimals. The quotient of two nonzero \<^verbatim>\<open>long long\<close> integers is
  neither too large nor too small for the format.
\<close>

definition round_half_even :: "int \<Rightarrow> int \<Rightarrow> int" where
  "round_half_even n d =
     (let q = n div d; r = n mod d in
      if 2 * r > d \<or> 2 * r = d \<and> odd q then q + 1 else q)"

function bit_length :: "int \<Rightarrow> nat" where
  "bit_length n = (if n \<le> 0 then 0 else Suc (bit_length (n div 2)))"
  by pat_completeness auto
termination
  by (relation "measure nat") auto

declare bit_length.simps [simp del]

definition fl_div :: "int \<Rightarrow> int \<Rightarrow> float80" where
  "fl_div a b =
     (let neg = ((a < 0) \<noteq> (b < 0)); n = \<bar>a\<bar>; d = \<bar>b\<bar>;
          s = 64 + bit_length d - bit_length n;
          s' = (if 2 ^ 64 * d \<le> n * 2 ^ s then s - 1 else s) in
      if n = 0 then \<lparr> fl_neg = neg, fl_mant = 0, fl_scale = 0 \<rparr>
      else \<lparr> fl_neg = neg, fl_mant = round_half_even (n * 2 ^ s') d, fl_scale = s' \<rparr>)"

definition fmt_Lf :: "float80 \<Rightarrow> string" where
  "fmt_Lf x =
     (let r = round_half_even (fl_mant x * 10 ^ 6) (2 ^ fl_scale x); frac = digits 10 (nat (r mod 10 ^ 6)) in
      (if fl_neg x then ''-'' else '''') @ digits 10 (nat (r div 10 ^ 6)) @ ''.''
        @ replicate (6 - length frac) CHR ''0'' @ frac)"

section \<open>Printing values\<close>

definition print_out :: "string \<Rightarrow> unit run" where
  "print_out s = smod (\<lambda>m. m\<lparr> m_out := m_out m @ s \<rparr>)"

text \<open>The escape sequences that switch a colour on and off.\<close>

definition esc :: "string \<Rightarrow> string" where
  "esc code = CHR 0x1B # ''['' @ code @ ''m''"

text \<open>The numbers of the types.\<close>

fun val_type_number :: "val_data \<Rightarrow> nat" where
  "val_type_number (VAL_INTEGER i) = 0"
| "val_type_number (VAL_FLOAT x) = 1"
| "val_type_number (VAL_STRING s) = 2"
| "val_type_number (VAL_FUNCTION f) = 3"
| "val_type_number VAL_OBJECT = 4"
| "val_type_number VAL_NULL = 5"
| "val_type_number (VAL_BOOLEAN b) = 6"
| "val_type_number (VAL_ARRAY a) = 7"

fun val_type_to_str :: "val_data \<Rightarrow> string" where
  "val_type_to_str (VAL_INTEGER i) = ''INTEGER''"
| "val_type_to_str (VAL_BOOLEAN b) = ''BOOLEAN''"
| "val_type_to_str (VAL_STRING s) = ''STRING''"
| "val_type_to_str (VAL_FLOAT x) = ''FLOAT''"
| "val_type_to_str (VAL_FUNCTION f) = ''FUNCTION''"
| "val_type_to_str VAL_NULL = ''NULL''"
| "val_type_to_str VAL_OBJECT = ''OBJECT''"
| "val_type_to_str (VAL_ARRAY a) = ''ARRAY''"

text \<open>
  \<^verbatim>\<open>print_val_internal\<close> of a value (the caller has read it through its pointer); the elements
  of an array are printed by the same function, with one unit of fuel less.
\<close>

fun print_elements :: "(val_t \<Rightarrow> bool \<Rightarrow> unit run) \<Rightarrow> val_ptr list \<Rightarrow> unit run" where
  "print_elements pv [] = sret ()"
| "print_elements pv (p # ps) =
     sbind (val_at p) (\<lambda>v.
     sbind (pv v True) (\<lambda>_.
     sbind (if ps \<noteq> [] then print_out '', '' else sret ()) (\<lambda>_. print_elements pv ps)))"

definition print_val_body :: "(val_t \<Rightarrow> bool \<Rightarrow> unit run) \<Rightarrow> val_t \<Rightarrow> bool \<Rightarrow> unit run" where
  "print_val_body pv v quote_strings =
     (case val_data v of
        VAL_INTEGER i \<Rightarrow> print_out (esc ''1;33'' @ fmt_d i @ esc ''0'')
      | VAL_FLOAT x \<Rightarrow> print_out (esc ''1;33'' @ fmt_Lf x @ esc ''0'')
      | VAL_STRING s \<Rightarrow>
          sbind (str_at s) (\<lambda>chars.
          let q = (if quote_strings then [CHR 0x22] else []) in
          print_out (esc ''32'' @ q @ chars @ q @ esc ''0''))
      | VAL_BOOLEAN b \<Rightarrow> print_out (esc ''36'' @ (if b then ''true'' else ''false'') @ esc ''0'')
      | VAL_NULL \<Rightarrow> print_out (esc ''2'' @ ''null'' @ esc ''0'')
      | VAL_ARRAY a \<Rightarrow>
          sbind (vec_at a) (\<lambda>data.
          sbind (print_out (esc ''34'' @ ''Array ('' @ digits 10 (length data) @ '')'' @ esc ''0'' @ '' ['')) (\<lambda>_.
          sbind (print_elements pv data) (\<lambda>_.
          print_out '']'')))
      | VAL_FUNCTION f \<Rightarrow>
          sbind (fn_at f) (\<lambda>fn.
          print_out (esc ''2'' @ ''[Function'' @ (case fn of FN_USER_CUSTOM _ _ _ \<Rightarrow> '''' | FN_BUILT_IN _ \<Rightarrow> '' Built-in'')
            @ '']'' @ esc ''0''))
      | VAL_OBJECT \<Rightarrow> sthrow (Fatal_error (''unrecognized value type: '' @ digits 10 (val_type_number (val_data v)))))"

fun print_val_internal :: "nat \<Rightarrow> val_t \<Rightarrow> bool \<Rightarrow> unit run" where
  "print_val_internal 0 v quote_strings = sthrow Out_of_fuel"
| "print_val_internal (Suc n) v quote_strings = print_val_body (print_val_internal n) v quote_strings"

definition print_val :: "nat \<Rightarrow> val_t \<Rightarrow> unit run" where
  "print_val n v = sbind (print_val_internal n v True) (\<lambda>_. print_out [newline])"

section \<open>Built-in functions\<close>

text \<open>
  A function that fails leaves its message in \<^verbatim>\<open>eval_fn_error\<close>. The arguments of a call are a
  list, its length is \<^verbatim>\<open>argc\<close>.
\<close>

definition fail :: "string \<Rightarrow> val_t run" where
  "fail msg = sbind (smod (\<lambda>m. m\<lparr> eval_fn_error := Some msg \<rparr>)) (\<lambda>_. sret null_val)"

definition builtin_exit :: "val_t list \<Rightarrow> val_t run" where
  "builtin_exit args =
     (case args of
        [] \<Rightarrow> sthrow (Process_exit 0)
      | v # _ \<Rightarrow>
          (case val_data v of
             VAL_INTEGER i \<Rightarrow> sthrow (Process_exit (nat (i AND 0xFF)))
           | _ \<Rightarrow> fail ''#1 argument passed to function exit() must be an integer''))"

fun print_args :: "nat \<Rightarrow> val_t list \<Rightarrow> unit run" where
  "print_args n [] = sret ()"
| "print_args n (v # vs) =
     sbind (case val_data v of
              VAL_STRING s \<Rightarrow> sbind (str_at s) print_out
            | _ \<Rightarrow> print_val_internal n v False) (\<lambda>_.
     sbind (if vs \<noteq> [] then print_out '' '' else sret ()) (\<lambda>_.
     print_args n vs))"

definition builtin_print :: "nat \<Rightarrow> val_t list \<Rightarrow> val_t run" where
  "builtin_print n args =
     (if args = [] then fail ''function println() requires at least 1 argument to be passed''
      else sbind (print_args n args) (\<lambda>_. sret null_val))"

definition builtin_println :: "nat \<Rightarrow> val_t list \<Rightarrow> val_t run" where
  "builtin_println n args =
     sbind (builtin_print n args) (\<lambda>ret. sbind (print_out [newline]) (\<lambda>_. sret ret))"

fun push_copies :: "nat \<Rightarrow> addr option \<Rightarrow> val_t list \<Rightarrow> unit run" where
  "push_copies n arr [] = sret ()"
| "push_copies n arr (v # vs) =
     sbind (val_copy_deep n v) (\<lambda>p. sbind (vector_push arr p) (\<lambda>_. push_copies n arr vs))"

definition arr_of :: "val_t \<Rightarrow> addr option" where
  "arr_of v = (case val_data v of VAL_ARRAY a \<Rightarrow> a | _ \<Rightarrow> None)"

definition builtin_array :: "nat \<Rightarrow> val_t list \<Rightarrow> val_t run" where
  "builtin_array n args =
     sbind (val_create (VAL_ARRAY None)) (\<lambda>v. sbind (push_copies n (arr_of v) args) (\<lambda>_. sret v))"

text \<open>
  \<^verbatim>\<open>getline\<close>: the input up to a line feed, that character included; NULL at the end of the
  input. \<^verbatim>\<open>read()\<close> then looks for a line feed from the end of the whole buffer, whose bytes
  behind the line are not its own, and cuts the string at the one it meets first.
\<close>

definition take_line :: "string \<Rightarrow> string" where
  "take_line s = takeWhile (\<lambda>c. c \<noteq> newline) s @ take 1 (dropWhile (\<lambda>c. c \<noteq> newline) s)"

definition cut_last_newline :: "string \<Rightarrow> string" where
  "cut_last_newline buf =
     (if newline \<in> set buf
      then (let k = length buf - 1 - length (takeWhile (\<lambda>c. c \<noteq> newline) (rev buf)) in buf[k := CHR 0x00])
      else buf)"

definition builtin_read :: "val_t run" where
  "builtin_read =
     sbind (sget m_in) (\<lambda>input.
     if input = []
     then sbind (sget errno_text) (\<lambda>msg. fail (''read(): failed to read from stdin: '' @ msg))
     else
     let line = take_line input in
     sbind (smod (\<lambda>m. m\<lparr> m_in := drop (length line) input \<rparr>)) (\<lambda>_.
     sbind (sget getline_rest) (\<lambda>rest.
     sbind (str_new (c_string (cut_last_newline (line @ CHR 0x00 # rest)))) (\<lambda>a.
     sret (val_init (VAL_STRING (Some a)))))))"

end
