(* ===== verification/Eval.thy ===== *)
theory Eval
  imports Print_Lib Parser
begin

text \<open>
  The evaluator (src/eval.c), the built-in function that calls back into it (lib/lib.c), and the
  program \<^verbatim>\<open>blaze\<close> (src/blaze.c). The functions that evaluate children take the evaluator
  \<open>ev\<close> as an argument; the recursion is closed with fuel at the end.
\<close>

type_synonym evaluator = "addr option \<Rightarrow> ast_node \<Rightarrow> val_t run"

section \<open>Errors\<close>

text \<open>
  \<^verbatim>\<open>RUNTIME_ERROR\<close>. Some nodes have no file name or no position: to print that is undefined.
\<close>

definition runtime_error :: "string option \<Rightarrow> nat option \<Rightarrow> nat option \<Rightarrow> string \<Rightarrow> 'a run" where
  "runtime_error filename line column msg =
     (if filename = None \<or> line = None \<or> column = None
      then sthrow (Undefined ''location of an error read from a node that has none'')
      else sthrow (Runtime_error line column msg))"

definition error_at :: "loc \<Rightarrow> string \<Rightarrow> 'a run" where
  "error_at l msg = runtime_error (lc_filename l) (lc_line_start l) (lc_column_start l) msg"

definition BLAZE_NULL :: val_t where
  "BLAZE_NULL = val_init VAL_NULL"

section \<open>Literals, names and assignment\<close>

definition val_is_truthy :: "val_t \<Rightarrow> bool" where
  "val_is_truthy v \<longleftrightarrow> val_data v \<noteq> VAL_NULL \<and> val_data v \<noteq> VAL_BOOLEAN False \<and> val_data v \<noteq> VAL_INTEGER 0"

definition eval_int :: "int \<Rightarrow> val_t run" where
  "eval_int i = val_create (VAL_INTEGER i)"

definition eval_string :: "string \<Rightarrow> val_t run" where
  "eval_string s =
     sbind (val_create_heap (VAL_STRING None)) (\<lambda>p.
     sbind (str_new s) (\<lambda>a.
     sbind (val_at p) (\<lambda>v.
     sbind (val_put p (v\<lparr> val_data := VAL_STRING (Some a) \<rparr>)) (\<lambda>_.
     val_at p))))"

definition eval_identifier :: "addr option \<Rightarrow> loc \<Rightarrow> string \<Rightarrow> val_t run" where
  "eval_identifier s l name =
     sbind (scope_resolve_identifier s name) (\<lambda>p.
     case p of
       None \<Rightarrow> error_at l (''use of undeclared identifier '' @ quoted name)
     | Some e \<Rightarrow> entry_at e)"

fun identifier_symbol :: "ast_node \<Rightarrow> string" where
  "identifier_symbol (NODE_IDENTIFIER l s) = s"
| "identifier_symbol _ = []"

text \<open>The position of an error is the assignee's, its file the one of the assignment.\<close>

definition eval_assignment :: "nat \<Rightarrow> evaluator \<Rightarrow> addr option \<Rightarrow> loc \<Rightarrow> ast_node \<Rightarrow> ast_node \<Rightarrow> val_t run" where
  "eval_assignment n ev s l assignee value_node =
     sbind (ev s value_node) (\<lambda>val.
     sbind (scope_assign_identifier n s (identifier_symbol assignee) val) (\<lambda>status.
     let la = node_loc assignee in
     if status = VAL_SET_NOT_FOUND
     then runtime_error (lc_filename l) (lc_line_start la) (lc_column_start la)
            (''use of undeclared identifier '' @ quoted (identifier_symbol assignee))
     else if status = VAL_SET_IS_CONST
     then runtime_error (lc_filename l) (lc_line_start la) (lc_column_start la)
            (''cannot assign to constant '' @ quoted (identifier_symbol assignee))
     else sret val))"

definition eval_var_decl :: "nat \<Rightarrow> evaluator \<Rightarrow> addr option \<Rightarrow> loc \<Rightarrow> string \<Rightarrow> bool \<Rightarrow> ast_node option \<Rightarrow> val_t run" where
  "eval_var_decl n ev s l name is_const value_node =
     sbind (case value_node of None \<Rightarrow> sret null_val | Some e \<Rightarrow> ev s e) (\<lambda>val.
     sbind (scope_at s) (\<lambda>sc.
     if sc_mode sc = SC_MODE_REUSE \<and> unique_id sc = prev_unique_id sc
     then sbind (on_valmap n s (\<lambda>vm. valmap_set_default vm name val is_const False)) (\<lambda>_. sret BLAZE_NULL)
     else
     sbind (scope_declare_identifier n s name val is_const) (\<lambda>status.
     if status = VAL_SET_EXISTS then error_at l (''cannot redeclare identifier '' @ quoted name)
     else sret null_val)))"

section \<open>Operators\<close>

text \<open>The numbers of the operators: characters, and from 0xF0 on.\<close>

fun op_number :: "ast_bin_operator \<Rightarrow> nat" where
  "op_number OP_PLUS = 43" | "op_number OP_MINUS = 45" | "op_number OP_DIVIDE = 47"
| "op_number OP_TIMES = 42" | "op_number OP_MODULUS = 37" | "op_number OP_CMP_LT = 60"
| "op_number OP_CMP_GT = 62" | "op_number OP_CMP_GE = 0xF0" | "op_number OP_CMP_LE = 0xF1"
| "op_number OP_CMP_EQ = 0xF2" | "op_number OP_CMP_EQ_S = 0xF3" | "op_number OP_CMP_NE = 0xF4"
| "op_number OP_CMP_NE_S = 0xF5" | "op_number (OP_RAW c) = char_code c"

definition op_shown :: "ast_bin_operator \<Rightarrow> string" where
  "op_shown op = quoted [char_of (op_number op)] @ '' ('' @ digits 10 (op_number op) @ '')''"

definition val_to_int :: "val_t \<Rightarrow> int" where
  "val_to_int v =
     (case val_data v of
        VAL_INTEGER i \<Rightarrow> i
      | VAL_NULL \<Rightarrow> 0
      | VAL_BOOLEAN b \<Rightarrow> (if b then 1 else 0)
      | _ \<Rightarrow> 1)"

definition bool_text :: "bool \<Rightarrow> string" where
  "bool_text b = (if b then ''true'' else ''false'')"

text \<open>The result is NULL for the other types.\<close>

definition val_stringify :: "val_t \<Rightarrow> string option run" where
  "val_stringify v =
     (case val_data v of
        VAL_STRING s \<Rightarrow> sbind (str_at s) (\<lambda>chars. sret (Some chars))
      | VAL_INTEGER i \<Rightarrow> sret (Some (fmt_d i))
      | VAL_BOOLEAN b \<Rightarrow> sret (Some (bool_text b))
      | VAL_NULL \<Rightarrow> sret (Some ''null'')
      | _ \<Rightarrow> sret None)"

text \<open>Neither side of \<^verbatim>\<open>strcmp\<close> may be NULL.\<close>

definition strings_equal :: "string option \<Rightarrow> string option \<Rightarrow> bool run" where
  "strings_equal a b =
     (case (a, b) of
        (Some x, Some y) \<Rightarrow> sret (x = y)
      | _ \<Rightarrow> undefined_step ''strcmp of NULL'')"

definition same_type :: "val_t \<Rightarrow> val_t \<Rightarrow> bool" where
  "same_type v w \<longleftrightarrow> val_type_number (val_data v) = val_type_number (val_data w)"

text \<open>The text of a concatenation, when one side is a string.\<close>

definition concat_text :: "val_t \<Rightarrow> val_t \<Rightarrow> string option run" where
  "concat_text left right =
     (case (val_data left, val_data right) of
        (VAL_STRING a, VAL_STRING b) \<Rightarrow> sbind (str_at a) (\<lambda>x. sbind (str_at b) (\<lambda>y. sret (Some (x @ y))))
      | (VAL_STRING a, VAL_INTEGER j) \<Rightarrow> sbind (str_at a) (\<lambda>x. sret (Some (x @ fmt_d j)))
      | (VAL_INTEGER i, VAL_STRING b) \<Rightarrow> sbind (str_at b) (\<lambda>y. sret (Some (fmt_d i @ y)))
      | (VAL_STRING a, VAL_BOOLEAN q) \<Rightarrow> sbind (str_at a) (\<lambda>x. sret (Some (x @ bool_text q)))
      | (VAL_BOOLEAN p, VAL_STRING b) \<Rightarrow> sbind (str_at b) (\<lambda>y. sret (Some (bool_text p @ y)))
      | (VAL_NULL, VAL_STRING b) \<Rightarrow> sbind (str_at b) (\<lambda>y. sret (Some (''null'' @ y)))
      | (VAL_STRING a, VAL_NULL) \<Rightarrow> sbind (str_at a) (\<lambda>x. sret (Some (x @ ''null'')))
      | _ \<Rightarrow> sret None)"

text \<open>\<open>lleft\<close> is the location of the left operand.\<close>

definition eval_concat :: "val_t \<Rightarrow> val_t \<Rightarrow> loc \<Rightarrow> val_t run" where
  "eval_concat left right lleft =
     sbind val_init_heap (\<lambda>p.
     sbind (val_at p) (\<lambda>v.
     sbind (val_put p (v\<lparr> val_data := VAL_STRING None \<rparr>)) (\<lambda>_.
     sbind (concat_text left right) (\<lambda>text.
     case text of
       None \<Rightarrow> error_at lleft (''cannot use operator '' @ quoted ''+'' @ '' with type string'')
     | Some t \<Rightarrow>
         sbind (str_new t) (\<lambda>a.
         sbind (val_put p (v\<lparr> val_data := VAL_STRING (Some a) \<rparr>)) (\<lambda>_. val_at p))))))"

definition eval_binexp_string :: "ast_bin_operator \<Rightarrow> val_t \<Rightarrow> val_t \<Rightarrow> loc \<Rightarrow> val_t run" where
  "eval_binexp_string op left right lleft =
     (if op = OP_PLUS then eval_concat left right lleft
      else
      sbind (val_stringify left) (\<lambda>left_str.
      sbind (val_stringify right) (\<lambda>right_str.
      case op of
        OP_CMP_EQ \<Rightarrow> sbind (strings_equal left_str right_str) (\<lambda>e. sret (val_init (VAL_BOOLEAN e)))
      | OP_CMP_EQ_S \<Rightarrow> sbind (strings_equal left_str right_str) (\<lambda>e. sret (val_init (VAL_BOOLEAN (e \<and> same_type left right))))
      | OP_CMP_NE \<Rightarrow> sbind (strings_equal left_str right_str) (\<lambda>e. sret (val_init (VAL_BOOLEAN (\<not> e))))
      | OP_CMP_NE_S \<Rightarrow> sbind (strings_equal left_str right_str) (\<lambda>e. sret (val_init (VAL_BOOLEAN (\<not> e \<and> same_type left right))))
      | _ \<Rightarrow> sthrow (Fatal_error (''unsupported operator '' @ op_shown op @ '' being used with type string'')))))"

definition eval_binexp_cmp_generic :: "ast_bin_operator \<Rightarrow> val_t \<Rightarrow> val_t \<Rightarrow> loc \<Rightarrow> val_t run" where
  "eval_binexp_cmp_generic op left right lleft =
     (if val_type_number (val_data left) = 2 \<or> val_type_number (val_data right) = 2
      then eval_binexp_string op left right lleft
      else
      let li = val_to_int left; ri = val_to_int right in
      case op of
        OP_CMP_LT \<Rightarrow> sret (val_init (VAL_BOOLEAN (li < ri)))
      | OP_CMP_GT \<Rightarrow> sret (val_init (VAL_BOOLEAN (li > ri)))
      | OP_CMP_GE \<Rightarrow> sret (val_init (VAL_BOOLEAN (li \<ge> ri)))
      | OP_CMP_LE \<Rightarrow> sret (val_init (VAL_BOOLEAN (li \<le> ri)))
      | OP_CMP_EQ \<Rightarrow> sret (val_init (VAL_BOOLEAN (li = ri)))
      | OP_CMP_EQ_S \<Rightarrow> sret (val_init (VAL_BOOLEAN (li = ri \<and> same_type left right)))
      | OP_CMP_NE \<Rightarrow> sret (val_init (VAL_BOOLEAN (li \<noteq> ri)))
      | OP_CMP_NE_S \<Rightarrow> sret (val_init (VAL_BOOLEAN (li \<noteq> ri \<and> same_type left right)))
      | _ \<Rightarrow> sthrow (Fatal_error (''unsupported comparison operator '' @ op_shown op)))"

text \<open>Signed arithmetic whose result does not fit is undefined; the remainder truncates.\<close>

definition int_result :: "int \<Rightarrow> val_t run" where
  "int_result i =
     (if in_llong i then sret (val_init (VAL_INTEGER i)) else undefined_step ''signed integer overflow'')"

definition c_rem :: "int \<Rightarrow> int \<Rightarrow> int" where
  "c_rem a b = sgn a * (\<bar>a\<bar> mod \<bar>b\<bar>)"

definition eval_binexp_int :: "ast_bin_operator \<Rightarrow> int \<Rightarrow> int \<Rightarrow> loc \<Rightarrow> val_t run" where
  "eval_binexp_int op a b lright =
     (case op of
        OP_PLUS \<Rightarrow> int_result (a + b)
      | OP_MINUS \<Rightarrow> int_result (a - b)
      | OP_TIMES \<Rightarrow> int_result (a * b)
      | OP_DIVIDE \<Rightarrow>
          if b = 0 then error_at lright (''cannot divide '' @ fmt_d a @ '' by zero'')
          else sret (val_init (VAL_FLOAT (fl_div a b)))
      | OP_MODULUS \<Rightarrow>
          if b = 0 then error_at lright (''cannot divide '' @ fmt_d a @ '' by zero'')
          else if b = -1 \<and> a = llong_min then undefined_step ''signed integer overflow''
          else sret (val_init (VAL_INTEGER (c_rem a b)))
      | _ \<Rightarrow> sthrow (Fatal_error (''unsupported int operator '' @ op_shown op)))"

definition eval_binexp :: "evaluator \<Rightarrow> addr option \<Rightarrow> loc \<Rightarrow> ast_bin_operator \<Rightarrow> ast_node \<Rightarrow> ast_node \<Rightarrow> val_t run" where
  "eval_binexp ev s l op left_node right_node =
     sbind (ev s left_node) (\<lambda>left.
     sbind (ev s right_node) (\<lambda>right.
     if op_number OP_CMP_LT \<le> op_number op \<and> op_number op \<le> op_number OP_CMP_NE_S
     then eval_binexp_cmp_generic op left right (node_loc left_node)
     else (case (val_data left, val_data right) of
             (VAL_INTEGER a, VAL_INTEGER b) \<Rightarrow> eval_binexp_int op a b (node_loc right_node)
           | (dl, dr) \<Rightarrow>
               if val_type_number dl = 2 \<or> val_type_number dr = 2
               then eval_binexp_string op left right (node_loc left_node)
               else error_at l (''unsupported binary operation (lhs: '' @ val_type_to_str dl @ ''('' @ digits 10 (val_type_number dl)
                      @ ''), rhs: '' @ val_type_to_str dr @ ''('' @ digits 10 (val_type_number dr) @ ''))''))))"

section \<open>Statements\<close>

fun eval_children :: "evaluator \<Rightarrow> addr option \<Rightarrow> ast_node list \<Rightarrow> unit run" where
  "eval_children ev s [] = sret ()"
| "eval_children ev s (c # cs) = sbind (ev s c) (\<lambda>_. eval_children ev s cs)"

definition eval_block :: "nat \<Rightarrow> evaluator \<Rightarrow> addr option \<Rightarrow> ast_node list \<Rightarrow> val_t run" where
  "eval_block n ev s children =
     sbind (scope_init n s) (\<lambda>s'.
     sbind (eval_children ev s' children) (\<lambda>_.
     sbind (scope_free n s') (\<lambda>_. sret BLAZE_NULL)))"

definition eval_block_no_scope :: "evaluator \<Rightarrow> addr option \<Rightarrow> ast_node list \<Rightarrow> val_t run" where
  "eval_block_no_scope ev s children = sbind (eval_children ev s children) (\<lambda>_. sret BLAZE_NULL)"

definition eval_if_stmt :: "evaluator \<Rightarrow> addr option \<Rightarrow> ast_node \<Rightarrow> ast_node \<Rightarrow> ast_node option \<Rightarrow> val_t run" where
  "eval_if_stmt ev s condition if_block else_block =
     sbind (ev s condition) (\<lambda>c.
     if val_is_truthy c then sbind (ev s if_block) (\<lambda>_. sret BLAZE_NULL)
     else (case else_block of None \<Rightarrow> sret BLAZE_NULL | Some e \<Rightarrow> sbind (ev s e) (\<lambda>_. sret BLAZE_NULL)))"

definition scope_update :: "addr option \<Rightarrow> (scope \<Rightarrow> scope) \<Rightarrow> unit run" where
  "scope_update s f = sbind (scope_at s) (\<lambda>sc. scope_put s (Some (f sc)))"

definition loop_goes_on :: "val_data \<Rightarrow> int \<Rightarrow> bool" where
  "loop_goes_on count counter =
     (case count of VAL_BOOLEAN b \<Rightarrow> b | VAL_INTEGER k \<Rightarrow> counter < k | _ \<Rightarrow> False)"

text \<open>
  One round of a loop, and the rounds, which the fuel bounds. The names declared in a round are
  declared again in the next one: from the second round on the two identifiers are equal.
\<close>

definition loop_round :: "nat \<Rightarrow> evaluator \<Rightarrow> addr option \<Rightarrow> string option \<Rightarrow> ast_node \<Rightarrow> int \<Rightarrow> int run" where
  "loop_round n ev s varname body counter =
     sbind (scope_update s (\<lambda>sc. sc\<lparr> prev_unique_id := of_int counter \<rparr>)) (\<lambda>_.
     sbind (case body of NODE_BLOCK l cs \<Rightarrow> eval_block_no_scope ev s cs | _ \<Rightarrow> ev s body) (\<lambda>_.
     if \<not> in_llong (counter + 1) then undefined_step ''signed integer overflow''
     else
     sbind (scope_update s (\<lambda>sc. sc\<lparr> unique_id := of_int (counter + 1) \<rparr>)) (\<lambda>_.
     sbind (case varname of
              None \<Rightarrow> sret VAL_SET_OK
            | Some x \<Rightarrow> on_valmap n s (\<lambda>vm. valmap_set_default vm x (val_init (VAL_INTEGER (counter + 1))) True False)) (\<lambda>_.
     sret (counter + 1)))))"

fun loop_rounds :: "nat \<Rightarrow> (int \<Rightarrow> bool) \<Rightarrow> (int \<Rightarrow> ('s, int) st) \<Rightarrow> int \<Rightarrow> ('s, unit) st" where
  "loop_rounds 0 goes_on round counter = sthrow Out_of_fuel"
| "loop_rounds (Suc k) goes_on round counter =
     (if goes_on counter then sbind (round counter) (loop_rounds k goes_on round) else sret ())"

definition eval_loop_stmt ::
  "nat \<Rightarrow> evaluator \<Rightarrow> addr option \<Rightarrow> loc \<Rightarrow> ast_node option \<Rightarrow> string option \<Rightarrow> ast_node \<Rightarrow> val_t run" where
  "eval_loop_stmt n ev s l iter_count varname body =
     sbind (case iter_count of None \<Rightarrow> sret (val_init (VAL_BOOLEAN True)) | Some e \<Rightarrow> ev s e) (\<lambda>count.
     sbind (case val_data count of
              VAL_BOOLEAN b \<Rightarrow> sret ()
            | VAL_INTEGER k \<Rightarrow>
                if k < 0 then error_at l ''the iteration count must not be a negative number'' else sret ()
            | d \<Rightarrow> error_at l (''type '' @ quoted (val_type_to_str d) @ '' is not iterable'')) (\<lambda>_.
     sbind (scope_init n s) (\<lambda>s'.
     sbind (scope_update s' (\<lambda>sc. sc\<lparr> allow_redecl := False, sc_mode := SC_MODE_REUSE,
                                      prev_unique_id := 0, unique_id := 1 \<rparr>)) (\<lambda>_.
     sbind (case varname of
              None \<Rightarrow> sret VAL_SET_OK
            | Some x \<Rightarrow> scope_declare_identifier n s' x (val_init (VAL_INTEGER 0)) True) (\<lambda>_.
     sbind (loop_rounds n (loop_goes_on (val_data count)) (loop_round n ev s' varname body) 0) (\<lambda>_.
     sbind (scope_free n s') (\<lambda>_.
     sret BLAZE_NULL)))))))"

section \<open>Arrays and functions\<close>

fun eval_elements :: "nat \<Rightarrow> evaluator \<Rightarrow> addr option \<Rightarrow> addr option \<Rightarrow> ast_node list \<Rightarrow> unit run" where
  "eval_elements n ev s arr [] = sret ()"
| "eval_elements n ev s arr (e # es) =
     sbind (ev s e) (\<lambda>val.
     sbind (val_copy_deep n val) (\<lambda>p.
     sbind (vector_push arr p) (\<lambda>_. eval_elements n ev s arr es)))"

definition eval_array_lit :: "nat \<Rightarrow> evaluator \<Rightarrow> addr option \<Rightarrow> ast_node list \<Rightarrow> val_t run" where
  "eval_array_lit n ev s elements =
     sbind (val_create (VAL_ARRAY None)) (\<lambda>arr.
     sbind (eval_elements n ev s (arr_of arr) elements) (\<lambda>_. sret arr))"

definition fn_ptr :: "val_t \<Rightarrow> addr option" where
  "fn_ptr v = (case val_data v of VAL_FUNCTION f \<Rightarrow> f | _ \<Rightarrow> None)"

definition eval_fn_decl :: "nat \<Rightarrow> addr option \<Rightarrow> loc \<Rightarrow> string \<Rightarrow> string list \<Rightarrow> ast_node list \<Rightarrow> val_t run" where
  "eval_fn_decl n s l name params body =
     sbind (val_create (VAL_FUNCTION None)) (\<lambda>fn.
     sbind (slift (deep_copy_list body)) (\<lambda>body'.
     sbind (scope_init n s) (\<lambda>s'.
     sbind (fn_put (fn_ptr fn) (Some (FN_USER_CUSTOM body' params s'))) (\<lambda>_.
     sbind (scope_declare_identifier n s name fn True) (\<lambda>status.
     if status = VAL_SET_EXISTS then error_at l (quoted name @ '' is already defined'')
     else sret null_val)))))"

text \<open>
  \<^verbatim>\<open>array_filter\<close>: the callback is called through a copy of its value, which shares its function
  object. A value of another type in place of the vector or of the callback is misread; the
  function objects are zeroed when made, so the parameter count read of a built-in one is zero and
  the assertion fails before anything else is read.
\<close>

fun declare_test_val :: "nat \<Rightarrow> addr option \<Rightarrow> string list \<Rightarrow> val_t \<Rightarrow> unit run" where
  "declare_test_val n s [] v = sret ()"
| "declare_test_val n s (x # xs) v = sbind (scope_declare_identifier n s x v True) (\<lambda>_. declare_test_val n s xs v)"

fun eval_last :: "evaluator \<Rightarrow> addr option \<Rightarrow> ast_node list \<Rightarrow> val_t \<Rightarrow> val_t run" where
  "eval_last ev s [] ret = sret ret"
| "eval_last ev s (c # cs) ret = sbind (ev s c) (\<lambda>v. eval_last ev s cs v)"

definition array_filter_call_fn :: "nat \<Rightarrow> evaluator \<Rightarrow> addr option \<Rightarrow> val_t \<Rightarrow> val_ptr \<Rightarrow> bool run" where
  "array_filter_call_fn n ev s fn test_val =
     sbind (fn_at (fn_ptr fn)) (\<lambda>f.
     case f of
       FN_BUILT_IN _ \<Rightarrow> sthrow (Assertion_failed ''Invalid callback'')
     | FN_USER_CUSTOM body params fs \<Rightarrow>
         sbind (val_at test_val) (\<lambda>v.
         sbind (declare_test_val n fs params v) (\<lambda>_.
         sbind (eval_last ev fs body null_val) (\<lambda>ret.
         sbind (scope_init n s) (\<lambda>s'.
         sbind (fn_put (fn_ptr fn) (Some (FN_USER_CUSTOM body params s'))) (\<lambda>_.
         sret (val_data ret = VAL_BOOLEAN True)))))))"

text \<open>The loop over the elements reads the vector again for each.\<close>

fun filter_elements :: "nat \<Rightarrow> evaluator \<Rightarrow> addr option \<Rightarrow> val_t \<Rightarrow> addr option \<Rightarrow> addr option \<Rightarrow> nat \<Rightarrow> nat \<Rightarrow> unit run" where
  "filter_elements n ev s callback array new_array i 0 = sret ()"
| "filter_elements n ev s callback array new_array i (Suc k) =
     sbind (vec_at array) (\<lambda>data.
     if i < length data
     then sbind (val_at (data ! i)) (\<lambda>v.
          sbind (val_copy_deep n v) (\<lambda>p.
          sbind (array_filter_call_fn n ev s callback p) (\<lambda>keep.
          sbind (vec_at array) (\<lambda>data.
          sbind (if keep then sbind (vector_push new_array (data ! i)) (\<lambda>_. sret ()) else sret ()) (\<lambda>_.
          filter_elements n ev s callback array new_array (Suc i) k)))))
     else sret ())"

definition builtin_array_filter :: "nat \<Rightarrow> evaluator \<Rightarrow> addr option \<Rightarrow> val_t list \<Rightarrow> val_t run" where
  "builtin_array_filter n ev s args =
     (case args of
        [array, callback] \<Rightarrow>
          (case val_data callback of
             VAL_FUNCTION f \<Rightarrow>
               sbind (fn_at f) (\<lambda>fn.
               if (case fn of FN_USER_CUSTOM _ params _ \<Rightarrow> length params > 1 | FN_BUILT_IN _ \<Rightarrow> False)
               then fail ''callback function passed to array_filter() must accept less than 2 arguments''
               else
               sbind (val_create (VAL_ARRAY None)) (\<lambda>new_array.
               case val_data array of
                 VAL_ARRAY a \<Rightarrow>
                   sbind (vec_at a) (\<lambda>data.
                   sbind (filter_elements n ev s callback a (arr_of new_array) 0 (length data)) (\<lambda>_. sret new_array))
               | _ \<Rightarrow> undefined_step ''array_filter: not a vector''))
           | _ \<Rightarrow> undefined_step ''array_filter: not a function'')
      | _ \<Rightarrow> fail ''function array_filter() requires exactly 2 arguments (vector, function) to be passed'')"

definition call_builtin :: "nat \<Rightarrow> evaluator \<Rightarrow> addr option \<Rightarrow> builtin option \<Rightarrow> val_t list \<Rightarrow> val_t run" where
  "call_builtin n ev s b args =
     (case b of
        None \<Rightarrow> undefined_step ''NULL callback called''
      | Some FN_println \<Rightarrow> builtin_println n args
      | Some FN_print \<Rightarrow> builtin_print n args
      | Some FN_array \<Rightarrow> builtin_array n args
      | Some FN_array_filter \<Rightarrow> builtin_array_filter n ev s args
      | Some FN_read \<Rightarrow> builtin_read
      | Some FN_exit \<Rightarrow> builtin_exit args)"

text \<open>The function object behind the value that \<^verbatim>\<open>val\<close> points to, read anew at each use.\<close>

definition fn_of_entry :: "entry_ptr \<Rightarrow> val_function run" where
  "fn_of_entry p = sbind (entry_at p) (\<lambda>v. fn_at (fn_ptr v))"

fun eval_args :: "evaluator \<Rightarrow> addr option \<Rightarrow> ast_node list \<Rightarrow> val_t list run" where
  "eval_args ev s [] = sret []"
| "eval_args ev s (a # as) = sbind (ev s a) (\<lambda>v. sbind (eval_args ev s as) (\<lambda>vs. sret (v # vs)))"

fun declare_params :: "nat \<Rightarrow> loc \<Rightarrow> string \<Rightarrow> entry_ptr \<Rightarrow> nat \<Rightarrow> val_t list \<Rightarrow> unit run" where
  "declare_params n l identifier p i [] = sret ()"
| "declare_params n l identifier p i (arg # args) =
     sbind (fn_of_entry p) (\<lambda>fn.
     case fn of
       FN_USER_CUSTOM body params s \<Rightarrow>
         sbind (scope_declare_identifier n s (params ! i) arg True) (\<lambda>status.
         if status = VAL_SET_EXISTS
         then error_at l (''cannot redefine '' @ quoted identifier @ '' as a function parameter'')
         else declare_params n l identifier p (Suc i) args)
     | FN_BUILT_IN _ \<Rightarrow> undefined_step ''function object changed'')"

text \<open>
  The statements of the body from the \<open>i\<close>-th on, of which \<open>k\<close> are left (no step changes the
  body of a function object). \<open>ret\<close> is indeterminate before the first one.
\<close>

fun run_body :: "evaluator \<Rightarrow> entry_ptr \<Rightarrow> nat \<Rightarrow> nat \<Rightarrow> val_t option \<Rightarrow> val_t option run" where
  "run_body ev p i 0 ret = sret ret"
| "run_body ev p i (Suc k) ret =
     sbind (fn_of_entry p) (\<lambda>fn.
     case fn of
       FN_USER_CUSTOM body params s \<Rightarrow> sbind (ev s (body ! i)) (\<lambda>v. run_body ev p (Suc i) k (Some v))
     | FN_BUILT_IN _ \<Rightarrow> undefined_step ''function object changed'')"

definition call_user ::
  "nat \<Rightarrow> evaluator \<Rightarrow> addr option \<Rightarrow> loc \<Rightarrow> string \<Rightarrow> entry_ptr \<Rightarrow> ast_node list \<Rightarrow> string list \<Rightarrow> val_t list \<Rightarrow> val_t run" where
  "call_user n ev s l identifier p body params args =
     (if length params \<noteq> length args
      then error_at l (''function '' @ quoted identifier @ '' requires '' @ digits 10 (length params)
             @ '' arguments, but '' @ digits 10 (length args) @ '' were passed'')
      else
      sbind (declare_params n l identifier p 0 args) (\<lambda>_.
      sbind (run_body ev p 0 (length body) None) (\<lambda>ret.
      case ret of
        None \<Rightarrow> undefined_step ''indeterminate return value''
      | Some v \<Rightarrow>
          sbind (val_copy_deep n v) (\<lambda>copy.
          sbind (scope_init n s) (\<lambda>s'.
          sbind (entry_at p) (\<lambda>val.
          sbind (fn_at (fn_ptr val)) (\<lambda>fn.
          case fn of
            FN_USER_CUSTOM body' params' _ \<Rightarrow>
              sbind (fn_put (fn_ptr val) (Some (FN_USER_CUSTOM body' params' s'))) (\<lambda>_. val_at copy)
          | FN_BUILT_IN _ \<Rightarrow> undefined_step ''function object changed'')))))))"

definition eval_expr_call :: "nat \<Rightarrow> evaluator \<Rightarrow> addr option \<Rightarrow> loc \<Rightarrow> string \<Rightarrow> ast_node list \<Rightarrow> val_t run" where
  "eval_expr_call n ev s l identifier arg_nodes =
     sbind (scope_resolve_identifier s identifier) (\<lambda>r.
     case r of
       None \<Rightarrow> error_at l (''undefined function '' @ quoted identifier)
     | Some p \<Rightarrow>
         sbind (entry_at p) (\<lambda>val.
         if val_type_number (val_data val) \<noteq> 3 then error_at l (quoted identifier @ '' is not a function'')
         else
         sbind (eval_args ev s arg_nodes) (\<lambda>args.
         sbind (fn_of_entry p) (\<lambda>fn.
         case fn of
           FN_BUILT_IN b \<Rightarrow>
             sbind (call_builtin n ev s b args) (\<lambda>ret.
             sbind (sget eval_fn_error) (\<lambda>err.
             case err of None \<Rightarrow> sret ret | Some msg \<Rightarrow> error_at l msg))
         | FN_USER_CUSTOM body params _ \<Rightarrow> call_user n ev s l identifier p body params args))))"

section \<open>Closing the recursion\<close>

definition eval_body :: "nat \<Rightarrow> evaluator \<Rightarrow> evaluator" where
  "eval_body n ev s node =
     (case node of
        NODE_INT_LIT l i \<Rightarrow> eval_int i
      | NODE_ROOT l nodes \<Rightarrow> eval_last ev s nodes null_val
      | NODE_STRING l str \<Rightarrow> eval_string str
      | NODE_BINARY_EXPR l op a b \<Rightarrow> eval_binexp ev s l op a b
      | NODE_VAR_DECL l name is_const v \<Rightarrow> eval_var_decl n ev s l name is_const v
      | NODE_IDENTIFIER l name \<Rightarrow> eval_identifier s l name
      | NODE_ASSIGNMENT l a v \<Rightarrow> eval_assignment n ev s l a v
      | NODE_EXPR_CALL l f args \<Rightarrow> eval_expr_call n ev s l f args
      | NODE_FN_DECL l f params body \<Rightarrow> eval_fn_decl n s l f params body
      | NODE_ARRAY_LIT l es \<Rightarrow> eval_array_lit n ev s es
      | NODE_BLOCK l cs \<Rightarrow> eval_block n ev s cs
      | NODE_IF_STMT l c t e \<Rightarrow> eval_if_stmt ev s c t e
      | NODE_LOOP_STMT l c v b \<Rightarrow> eval_loop_stmt n ev s l c v b
      | NODE_IMPORT_STMT l \<Rightarrow> sthrow (Fatal_error ''cannot evaluate AST: unsupported AST node''))"

fun eval :: "nat \<Rightarrow> evaluator" where
  "eval 0 s node = sthrow Out_of_fuel"
| "eval (Suc n) s node = eval_body n (eval n) s node"

section \<open>The program\<close>

text \<open>What the program finds outside: its input, and the two texts that C leaves open.\<close>

record environment =
  env_input :: string
  env_getline_rest :: string
  env_errno_text :: string

definition initial_machine :: "environment \<Rightarrow> machine" where
  "initial_machine env =
     \<lparr> m_strings = [], m_fns = [], m_vectors = [], m_scopes = [], m_tbl = val_alloc_tbl_init,
       builtin_functions = [(''println'', FN_println, None), (''print'', FN_print, None), (''vector'', FN_array, None),
         (''array_filter'', FN_array_filter, None), (''read'', FN_read, None), (''exit'', FN_exit, None)],
       eval_fn_error = None, m_out = [], m_in = env_input env, getline_rest = env_getline_rest env,
       errno_text = env_errno_text env \<rparr>"

text \<open>
  \<^verbatim>\<open>process_file\<close> and \<^verbatim>\<open>main\<close> of src/blaze.c from the tree on: the global scope, the
  evaluation, freeing the scope, and the table of values freed at exit. The result is the output.
\<close>

definition run_tree :: "nat \<Rightarrow> ast_node \<Rightarrow> unit run" where
  "run_tree n node =
     sbind val_alloc_tbl_global_init (\<lambda>_.
     sbind (scope_create_global n) (\<lambda>s.
     sbind (eval n s node) (\<lambda>_.
     sbind (scope_free n s) (\<lambda>_.
     val_alloc_tbl_global_free n))))"

definition blaze :: "nat \<Rightarrow> environment \<Rightarrow> string \<Rightarrow> string \<Rightarrow> string res" where
  "blaze n env filename content =
     rbind (parse_source filename content) (\<lambda>node.
     rbind (run_tree n node (initial_machine env)) (\<lambda>(_, m). Inr (m_out m)))"

end
