(* ===== verification/Eval_Safety.thy ===== *)
theory Eval_Safety
  imports Eval
begin

text \<open>
  What every evaluation keeps: the symbol tables stay well formed, scopes point to older scopes, a
  name stays declared in its scope, a constant stays a constant and, in a scope that is not the
  one of a loop, keeps its value.
\<close>

section \<open>The invariant\<close>

definition ptr_ok :: "machine \<Rightarrow> addr option \<Rightarrow> bool" where
  "ptr_ok m p \<longleftrightarrow> (case p of None \<Rightarrow> True | Some a \<Rightarrow> a < length (m_scopes m))"

definition scope_ok :: "nat \<Rightarrow> scope \<Rightarrow> bool" where
  "scope_ok a sc \<longleftrightarrow> valmap_ok (sc_valmap sc) \<and> \<not> allow_redecl sc
     \<and> (case sc_parent sc of None \<Rightarrow> True | Some p \<Rightarrow> p < a)"

definition machine_ok :: "machine \<Rightarrow> bool" where
  "machine_ok m \<longleftrightarrow>
     (\<forall>a < length (m_scopes m). \<forall>sc. m_scopes m ! a = Some sc \<longrightarrow> scope_ok a sc) \<and>
     (\<forall>f \<in> set (m_fns m). \<forall>body params s. f = Some (FN_USER_CUSTOM body params s) \<longrightarrow> ptr_ok m s)"

text \<open>How a scope may change.\<close>

definition names_kept :: "scope \<Rightarrow> scope \<Rightarrow> bool" where
  "names_kept sc sc' \<longleftrightarrow> sc_parent sc' = sc_parent sc \<and> sc_mode sc' = sc_mode sc \<and>
     (\<forall>k v c. valmap_abs (sc_valmap sc) k = Some (v, c) \<longrightarrow>
        (\<exists>w. valmap_abs (sc_valmap sc') k = Some (w, c) \<and> (c \<and> sc_mode sc = SC_DEFAULT \<longrightarrow> w = v)))"

text \<open>How the scopes below an address may: a freed scope stays freed.\<close>

definition evolves :: "nat \<Rightarrow> machine \<Rightarrow> machine \<Rightarrow> bool" where
  "evolves N m m' \<longleftrightarrow> length (m_scopes m) \<le> length (m_scopes m') \<and>
     (\<forall>a < N. case (m_scopes m ! a, m_scopes m' ! a) of
        (None, x) \<Rightarrow> x = None
      | (Some sc, None) \<Rightarrow> True
      | (Some sc, Some sc') \<Rightarrow> names_kept sc sc')"

definition good_fault :: "fault \<Rightarrow> bool" where
  "good_fault e \<longleftrightarrow> e \<noteq> Undefined ''hash table over-read''"

lemma names_kept_refl [simp]: "names_kept sc sc"
  by (simp add: names_kept_def)

lemma names_kept_trans:
  assumes "names_kept a b" "names_kept b c"
  shows "names_kept a c"
  unfolding names_kept_def
proof (intro conjI allI impI)
  show "sc_parent c = sc_parent a" "sc_mode c = sc_mode a" using assms by (simp_all add: names_kept_def)
  fix k v d assume "valmap_abs (sc_valmap a) k = Some (v, d)"
  then obtain w where w: "valmap_abs (sc_valmap b) k = Some (w, d)" "d \<and> sc_mode a = SC_DEFAULT \<longrightarrow> w = v"
    using assms(1) unfolding names_kept_def by blast
  then obtain x where "valmap_abs (sc_valmap c) k = Some (x, d)" "d \<and> sc_mode b = SC_DEFAULT \<longrightarrow> x = w"
    using assms(2) unfolding names_kept_def by blast
  with w(2) assms(1) show "\<exists>x. valmap_abs (sc_valmap c) k = Some (x, d) \<and> (d \<and> sc_mode a = SC_DEFAULT \<longrightarrow> x = v)"
    by (auto simp: names_kept_def)
qed

lemma evolves_refl [simp]: "evolves N m m"
  by (simp add: evolves_def split: option.splits)

lemma evolves_trans:
  assumes "evolves N a b" "evolves N b c"
  shows "evolves N a c"
  unfolding evolves_def
proof (intro conjI allI impI)
  show "length (m_scopes a) \<le> length (m_scopes c)" using assms by (simp add: evolves_def)
  fix i assume "i < N"
  then have ab: "case (m_scopes a ! i, m_scopes b ! i) of (None, x) \<Rightarrow> x = None | (Some sc, None) \<Rightarrow> True | (Some sc, Some sc') \<Rightarrow> names_kept sc sc'"
    and bc: "case (m_scopes b ! i, m_scopes c ! i) of (None, x) \<Rightarrow> x = None | (Some sc, None) \<Rightarrow> True | (Some sc, Some sc') \<Rightarrow> names_kept sc sc'"
    using assms by (simp_all add: evolves_def)
  show "case (m_scopes a ! i, m_scopes c ! i) of (None, x) \<Rightarrow> x = None | (Some sc, None) \<Rightarrow> True | (Some sc, Some sc') \<Rightarrow> names_kept sc sc'"
    using ab bc by (cases "m_scopes a ! i"; cases "m_scopes b ! i"; cases "m_scopes c ! i") (auto intro: names_kept_trans)
qed

lemma evolves_same: "m_scopes m' = m_scopes m \<Longrightarrow> evolves N m m'"
  by (simp add: evolves_def split: option.splits)

lemma ptr_ok_mono: "ptr_ok m p \<Longrightarrow> evolves N m m' \<Longrightarrow> ptr_ok m' p"
  by (auto simp: ptr_ok_def evolves_def split: option.splits)

lemma ptr_ok_cong: "length (m_scopes m') = length (m_scopes m) \<Longrightarrow> ptr_ok m' = ptr_ok m"
  by (rule ext) (simp add: ptr_ok_def split: option.split)

lemma fold_sret [simp]: "(\<lambda>s. Inr (x, s)) = sret x"
  by (simp add: sret_def)

lemma fold_sthrow [simp]: "(\<lambda>s. Inl e) = sthrow e"
  by (simp add: sthrow_def)

section \<open>Steps that keep it\<close>

text \<open>
  From a well-formed state, \<open>c\<close> faults with a good fault or reaches a well-formed state in which
  the scopes below \<open>N\<close> have evolved and \<open>Q\<close> holds.
\<close>

definition keeps :: "nat \<Rightarrow> machine \<Rightarrow> 'a run \<Rightarrow> ('a \<Rightarrow> machine \<Rightarrow> bool) \<Rightarrow> bool" where
  "keeps N m c Q \<longleftrightarrow> machine_ok m \<longrightarrow> N \<le> length (m_scopes m) \<longrightarrow>
     (case c m of Inr (x, m') \<Rightarrow> machine_ok m' \<and> evolves N m m' \<and> Q x m' | Inl e \<Rightarrow> good_fault e)"

lemma keeps_sret: "Q x m \<Longrightarrow> keeps N m (sret x) Q"
  by (simp add: keeps_def)

lemma keeps_sthrow: "good_fault e \<Longrightarrow> keeps N m (sthrow e) Q"
  by (simp add: keeps_def)

lemma keeps_sbind:
  assumes "keeps N m c (\<lambda>x m'. machine_ok m' \<longrightarrow> N \<le> length (m_scopes m') \<longrightarrow> evolves N m m' \<longrightarrow> keeps N m' (f x) Q)"
  shows "keeps N m (sbind c f) Q"
proof -
  have "case sbind c f m of Inr (y, m2) \<Rightarrow> machine_ok m2 \<and> evolves N m m2 \<and> Q y m2 | Inl e \<Rightarrow> good_fault e"
    if ok: "machine_ok m" "N \<le> length (m_scopes m)"
  proof (cases "c m")
    case (Inl e)
    then show ?thesis using assms ok by (simp add: keeps_def sbind_def)
  next
    case (Inr r)
    obtain x m1 where r: "r = (x, m1)" by (cases r)
    have k: "machine_ok m1" "evolves N m m1" "machine_ok m1 \<longrightarrow> N \<le> length (m_scopes m1) \<longrightarrow> evolves N m m1 \<longrightarrow> keeps N m1 (f x) Q"
      using assms ok Inr r by (simp_all add: keeps_def)
    then have "N \<le> length (m_scopes m1)" using ok(2) by (simp add: evolves_def)
    with k have "case f x m1 of Inr (y, m2) \<Rightarrow> machine_ok m2 \<and> evolves N m1 m2 \<and> Q y m2 | Inl e \<Rightarrow> good_fault e"
      by (simp add: keeps_def)
    then show ?thesis
      using Inr r k(2) by (auto simp: sbind_def split: sum.splits intro: evolves_trans)
  qed
  then show ?thesis by (simp add: keeps_def)
qed

lemma keeps_mono: "keeps N m c P \<Longrightarrow> (\<And>x m'. P x m' \<Longrightarrow> Q x m') \<Longrightarrow> keeps N m c Q"
  by (auto simp: keeps_def split: sum.splits)

lemma keeps_bind:
  assumes "keeps N m c P"
    and "\<And>x m'. machine_ok m' \<Longrightarrow> N \<le> length (m_scopes m') \<Longrightarrow> evolves N m m' \<Longrightarrow> P x m' \<Longrightarrow> keeps N m' (f x) Q"
  shows "keeps N m (sbind c f) Q"
  by (intro keeps_sbind keeps_mono [OF assms(1)] impI assms(2))

lemma keeps_True: "keeps N m c P \<Longrightarrow> keeps N m c (\<lambda>_ _. True)"
  by (auto elim: keeps_mono)

text \<open>Steps that touch neither scopes nor functions.\<close>

definition quiet :: "'a run \<Rightarrow> bool" where
  "quiet c \<longleftrightarrow> (\<forall>m. case c m of
     Inr (x, m') \<Rightarrow> m_scopes m' = m_scopes m \<and> m_fns m' = m_fns m
   | Inl e \<Rightarrow> good_fault e)"

lemma machine_ok_same:
  assumes "m_scopes m' = m_scopes m" "m_fns m' = m_fns m" "machine_ok m"
  shows "machine_ok m'"
proof -
  have "ptr_ok m' = ptr_ok m" by (rule ptr_ok_cong) (simp add: assms(1))
  with assms show ?thesis by (simp add: machine_ok_def)
qed

lemma keeps_quiet: "quiet c \<Longrightarrow> keeps N m c (\<lambda>_ _. True)"
  unfolding keeps_def quiet_def
  by (auto intro: machine_ok_same evolves_same dest!: spec [of _ m] split: sum.splits)

lemma quiet_sret: "quiet (sret x)"
  by (simp add: quiet_def)

lemma quiet_sthrow: "good_fault e \<Longrightarrow> quiet (sthrow e)"
  by (simp add: quiet_def)

lemma quiet_undefined: "good_fault (Undefined msg) \<Longrightarrow> quiet (undefined_step msg)"
  by (simp add: undefined_step_def quiet_sthrow)

lemma quiet_sbind: "quiet c \<Longrightarrow> (\<And>x. quiet (f x)) \<Longrightarrow> quiet (sbind c f)"
  unfolding quiet_def sbind_def by (force split: sum.splits)

lemma quiet_sget: "quiet (sget f)"
  by (simp add: quiet_def)

lemma quiet_smod: "(\<And>m. m_scopes (f m) = m_scopes m \<and> m_fns (f m) = m_fns m) \<Longrightarrow> quiet (smod f)"
  by (simp add: quiet_def)

lemma quiet_slift: "(\<And>e. r = Inl e \<Longrightarrow> good_fault e) \<Longrightarrow> quiet (slift r)"
  by (cases r) (simp_all add: quiet_def)

lemma quiet_sassert: "good_fault (Assertion_failed msg) \<Longrightarrow> quiet (sassert b msg)"
  by (simp add: sassert_def quiet_sret quiet_sthrow)

lemma quiet_if: "quiet c \<Longrightarrow> quiet d \<Longrightarrow> quiet (if b then c else d)"
  by simp

lemma quiet_at_addr: "quiet (at_addr h p)"
  by (simp add: quiet_def at_addr_def good_fault_def split: option.splits)

lemma good_faults [simp]:
  "good_fault (Fatal_error s)" "good_fault (Process_exit k)" "good_fault (Assertion_failed s)" "good_fault Out_of_fuel"
  "good_fault (Runtime_error a b s)"
  by (simp_all add: good_fault_def)

lemma good_undefined [simp]:
  "good_fault (Undefined s) \<longleftrightarrow> s \<noteq> ''hash table over-read''"
  by (simp add: good_fault_def)

lemmas quiet_basic = quiet_sret quiet_sthrow quiet_undefined quiet_sbind quiet_sget quiet_slift quiet_sassert quiet_if quiet_at_addr

lemma quiet_strings:
  "quiet (str_new s)" "quiet (free_addr m_strings m_strings_update p)" "quiet (vec_new d)" "quiet (vec_put p x)"
  by (auto simp: alloc_addr_def free_addr_def put_addr_def intro!: quiet_basic quiet_smod)

lemma quiet_val_at: "quiet (val_at p)"
  unfolding val_at_def by (auto intro!: quiet_basic split: val_ptr.splits)

lemma quiet_val_put: "quiet (val_put p v)"
  unfolding val_put_def by (auto intro!: quiet_basic quiet_val_at quiet_smod split: val_ptr.splits)

lemma quiet_val_alloc: "quiet val_alloc"
  unfolding val_alloc_def val_alloc_tbl_resize_def Let_def
  by (auto intro!: quiet_basic quiet_smod split: list.splits)

lemmas quiet_heap = quiet_basic quiet_strings quiet_val_at quiet_val_put quiet_val_alloc

lemma quiet_vectors: "quiet vector_init" "quiet (vector_push v e)" "quiet (vector_free v)"
  unfolding vector_init_def vector_push_def vector_free_def put_addr_def
  by (auto intro!: quiet_heap quiet_smod)

lemma quiet_val_init_heap: "quiet val_init_heap"
  unfolding val_init_heap_def by (intro quiet_heap)

lemma quiet_print_out: "quiet (print_out s)"
  unfolding print_out_def by (intro quiet_smod) simp

lemma quiet_print: "quiet (print_val_internal n v q)"
proof (induction n arbitrary: v q)
  case (Suc n)
  have "quiet (print_elements (print_val_internal n) ps)" for ps
    by (induction ps) (auto intro!: quiet_heap quiet_print_out Suc.IH)
  then show ?case
    by (auto simp: print_val_body_def Let_def intro!: quiet_heap quiet_print_out split: val_data.splits)
qed (simp add: quiet_sthrow)

lemma quiet_fail: "quiet (fail msg)"
  unfolding fail_def by (intro quiet_heap quiet_smod) simp

lemma quiet_builtin_print: "quiet (builtin_print n args)" "quiet (builtin_println n args)"
proof -
  have "quiet (print_args n vs)" for vs
    by (induction vs) (auto intro!: quiet_heap quiet_print_out quiet_print split: val_data.splits)
  then show "quiet (builtin_print n args)"
    by (auto simp: builtin_print_def intro!: quiet_heap quiet_fail)
  then show "quiet (builtin_println n args)"
    by (auto simp: builtin_println_def intro!: quiet_heap quiet_print_out)
qed

lemma quiet_builtin_exit: "quiet (builtin_exit args)"
  unfolding builtin_exit_def by (auto intro!: quiet_heap quiet_fail split: list.splits val_data.splits)

lemma quiet_builtin_read: "quiet builtin_read"
  unfolding builtin_read_def Let_def by (auto intro!: quiet_heap quiet_fail quiet_smod)

lemma quiet_error: "quiet (error_at l msg)" "quiet (runtime_error f a b msg)"
  unfolding error_at_def runtime_error_def by (auto intro!: quiet_heap)

lemma quiet_eval_string: "quiet (eval_string s)"
  unfolding eval_string_def val_create_heap_def val_create_def
  by (auto intro!: quiet_heap quiet_val_init_heap)

lemma quiet_stringify: "quiet (val_stringify v)"
  unfolding val_stringify_def by (auto intro!: quiet_heap split: val_data.splits)

lemma quiet_strings_equal: "quiet (strings_equal a b)"
  unfolding strings_equal_def by (auto intro!: quiet_heap split: option.splits)

lemma quiet_concat: "quiet (eval_concat v w l)"
proof -
  have "quiet (concat_text v w)"
    unfolding concat_text_def by (auto intro!: quiet_heap split: val_data.splits)
  then show ?thesis
    unfolding eval_concat_def by (auto intro!: quiet_heap quiet_val_init_heap quiet_error split: option.splits)
qed

lemma quiet_binexp_string: "quiet (eval_binexp_string op v w l)"
  unfolding eval_binexp_string_def
  by (auto intro!: quiet_heap quiet_concat quiet_stringify quiet_strings_equal split: ast_bin_operator.splits)

lemma quiet_cmp_generic: "quiet (eval_binexp_cmp_generic op v w l)"
  unfolding eval_binexp_cmp_generic_def Let_def
  by (auto intro!: quiet_heap quiet_binexp_string split: ast_bin_operator.splits)

lemma quiet_int_op: "quiet (eval_binexp_int op a b l)"
  unfolding eval_binexp_int_def int_result_def
  by (auto intro!: quiet_heap quiet_error split: ast_bin_operator.splits)

section \<open>Steps on scopes and functions\<close>

text \<open>A quiet step, whatever its value.\<close>

lemma keeps_quiet_bind:
  assumes "quiet c"
    and "\<And>x m'. machine_ok m' \<Longrightarrow> N \<le> length (m_scopes m') \<Longrightarrow> evolves N m m' \<Longrightarrow> keeps N m' (f x) Q"
  shows "keeps N m (sbind c f) Q"
  using keeps_quiet [OF assms(1)] by (rule keeps_bind) (rule assms(2))

lemma at_addr_cases:
  obtains (bad) e where "at_addr h p m = Inl e" "good_fault e"
  | (here) x a where "at_addr h p m = Inr (x, m)" "p = Some a" "a < length (h m)" "h m ! a = Some x"
proof (cases "at_addr h p m")
  case (Inl e)
  then have "good_fault e" by (auto simp: at_addr_def split: option.splits if_splits)
  with Inl show ?thesis by (rule bad)
next
  case (Inr r)
  then show ?thesis
    by (intro here [of "fst r" "the p"]) (auto simp: at_addr_def split: option.splits if_splits)
qed

lemma keeps_scope_at:
  assumes "\<And>sc a. p = Some a \<Longrightarrow> a < length (m_scopes m) \<Longrightarrow> m_scopes m ! a = Some sc \<Longrightarrow> scope_ok a sc \<Longrightarrow> Q sc m"
  shows "keeps N m (scope_at p) Q"
proof (cases rule: at_addr_cases [of m_scopes p m])
  case (bad e)
  then show ?thesis by (simp add: keeps_def)
next
  case (here sc a)
  then have "scope_ok a sc" if "machine_ok m" using that by (simp add: machine_ok_def)
  with here assms show ?thesis by (simp add: keeps_def)
qed

lemma keeps_fn_at:
  assumes "\<And>fn. (\<forall>body params s. fn = FN_USER_CUSTOM body params s \<longrightarrow> ptr_ok m s) \<Longrightarrow> Q fn m"
  shows "keeps N m (fn_at f) Q"
proof (cases rule: at_addr_cases [of m_fns f m])
  case (bad e)
  then show ?thesis by (simp add: keeps_def)
next
  case (here fn a)
  then have "Some fn \<in> set (m_fns m)" by (metis nth_mem)
  then have "\<forall>body params s. fn = FN_USER_CUSTOM body params s \<longrightarrow> ptr_ok m s" if "machine_ok m"
    using that by (auto simp: machine_ok_def)
  with here assms show ?thesis by (simp add: keeps_def)
qed

text \<open>A scope is replaced by one that keeps its names, or freed.\<close>

lemma keeps_scope_put:
  assumes "\<And>sc. m_scopes m ! the p = Some sc \<Longrightarrow> x = None \<or> (scope_ok (the p) (the x) \<and> (the p < N \<longrightarrow> names_kept sc (the x)))"
  shows "keeps N m (scope_put p x) (\<lambda>_ m'. m_scopes m' = (m_scopes m)[the p := x])"
proof (cases rule: at_addr_cases [of m_scopes p m])
  case (bad e)
  then show ?thesis by (simp add: keeps_def put_addr_def sbind_def)
next
  case (here sc a)
  note a = here(2-4) and sc = here(1)
  let ?m = "m_scopes_update (\<lambda>h. h[a := x]) m"
  have put: "scope_put p x m = Inr ((), ?m)" using sc a(1) by (simp add: put_addr_def sbind_def)
  have p: "ptr_ok ?m = ptr_ok m" by (rule ptr_ok_cong) simp
  have ok: "machine_ok ?m" if "machine_ok m"
    using that assms [of sc] a unfolding machine_ok_def p
    by (cases x) (auto simp: nth_list_update split: if_splits)
  have "evolves N m ?m"
    using assms [of sc] a by (cases x) (auto simp: evolves_def nth_list_update split: option.splits)
  with put ok a(1) show ?thesis by (simp add: keeps_def)
qed

lemma keeps_free_scope: "keeps N m (free_addr m_scopes m_scopes_update p) (\<lambda>_ _. True)"
  unfolding free_addr_def
  by (cases p) (auto intro!: keeps_sret keeps_mono [OF keeps_scope_put])

lemma keeps_scope_new:
  assumes "scope_ok (length (m_scopes m)) sc"
  shows "keeps N m (scope_new sc) (\<lambda>a m'. a = length (m_scopes m) \<and> m_scopes m' = m_scopes m @ [Some sc])"
proof -
  let ?m = "m_scopes_update (\<lambda>h. h @ [Some sc]) m"
  have "machine_ok ?m" if "machine_ok m"
    using that assms
    by (auto simp: machine_ok_def nth_append less_Suc_eq ptr_ok_def split: option.splits if_splits dest!: bspec)
  moreover have "evolves N m ?m" if "N \<le> length (m_scopes m)"
    using that by (auto simp: evolves_def nth_append split: option.splits)
  ultimately show ?thesis by (simp add: keeps_def alloc_addr_def sbind_def)
qed

lemma keeps_fn_put:
  assumes "\<And>body params s. x = Some (FN_USER_CUSTOM body params s) \<Longrightarrow> ptr_ok m s"
  shows "keeps N m (fn_put p x) (\<lambda>_ _. True)"
proof (cases rule: at_addr_cases [of m_fns p m])
  case (bad e)
  then show ?thesis by (simp add: keeps_def put_addr_def sbind_def)
next
  case (here fn a)
  let ?m = "m_fns_update (\<lambda>h. h[the p := x]) m"
  have p: "ptr_ok ?m = ptr_ok m" by (rule ptr_ok_cong) simp
  have "machine_ok ?m" if "machine_ok m"
    using that assms set_update_subset_insert [of "m_fns m" "the p" x] unfolding machine_ok_def p by auto
  then show ?thesis
    using here by (simp add: keeps_def put_addr_def sbind_def evolves_same)
qed

lemma keeps_fn_free: "keeps N m (free_addr m_fns m_fns_update p) (\<lambda>_ _. True)"
  unfolding free_addr_def by (cases p) (auto intro!: keeps_sret keeps_fn_put)

lemma keeps_fn_new: "keeps N m (fn_new (FN_BUILT_IN b)) (\<lambda>_ _. True)"
proof -
  let ?m = "m_fns_update (\<lambda>h. h @ [Some (FN_BUILT_IN b)]) m"
  have p: "ptr_ok ?m = ptr_ok m" by (rule ptr_ok_cong) simp
  have "machine_ok ?m" if "machine_ok m" using that unfolding machine_ok_def p by auto
  then show ?thesis by (simp add: keeps_def alloc_addr_def sbind_def evolves_same)
qed

section \<open>Scopes\<close>

lemma names_kept_declare:
  "valmap_abs vm' = spec_set OW_NO_OVERWRITE True (valmap_abs (sc_valmap sc)) k v c \<Longrightarrow> names_kept sc (sc\<lparr> sc_valmap := vm' \<rparr>)"
  by (auto simp: names_kept_def spec_set_def spec_put_def spec_status_def split: option.splits)

lemma names_kept_assign:
  "valmap_abs vm' = spec_set OW_NO_CREATE True (valmap_abs (sc_valmap sc)) k v c \<Longrightarrow> names_kept sc (sc\<lparr> sc_valmap := vm' \<rparr>)"
  by (auto simp: names_kept_def spec_set_def spec_put_def spec_status_def split: option.splits if_splits)

lemma names_kept_replace:
  "valmap_abs vm' = spec_put (valmap_abs (sc_valmap sc)) k v c \<Longrightarrow> sc_mode sc \<noteq> SC_DEFAULT \<Longrightarrow> names_kept sc (sc\<lparr> sc_valmap := vm' \<rparr>)"
  by (auto simp: names_kept_def spec_put_def split: option.splits)

lemma keeps_slift: "(\<And>x. r = Inr x \<Longrightarrow> Q x m) \<Longrightarrow> (\<And>e. r = Inl e \<Longrightarrow> good_fault e) \<Longrightarrow> keeps N m (slift r) Q"
  by (cases r) (simp_all add: keeps_def)

text \<open>
  An operation of a symbol table that frees nothing; below \<open>N\<close> it must keep the names.
\<close>

lemma keeps_on_valmap:
  assumes f: "\<And>vm. valmap_ok vm \<Longrightarrow> \<exists>vm' st. f vm = Inr (vm', st, None) \<and> valmap_ok vm' \<and> law vm vm'"
    and names: "\<And>a sc vm'. s = Some a \<Longrightarrow> m_scopes m ! a = Some sc \<Longrightarrow> a < N \<Longrightarrow> law (sc_valmap sc) vm' \<Longrightarrow> names_kept sc (sc\<lparr> sc_valmap := vm' \<rparr>)"
  shows "keeps N m (on_valmap n s f) (\<lambda>_ _. True)"
  unfolding on_valmap_def
proof (rule keeps_sbind, rule keeps_scope_at, intro impI)
  fix sc a
  assume a: "s = Some a" "a < length (m_scopes m)" "m_scopes m ! a = Some sc" "scope_ok a sc"
  then obtain vm' st where v: "f (sc_valmap sc) = Inr (vm', st, None)" "valmap_ok vm'" "law (sc_valmap sc) vm'"
    using f [of "sc_valmap sc"] by (auto simp: scope_ok_def)
  have "keeps N m (scope_put s (Some (sc\<lparr> sc_valmap := vm' \<rparr>))) (\<lambda>_ m'. m_scopes m' = (m_scopes m)[the s := Some (sc\<lparr> sc_valmap := vm' \<rparr>)])"
    using a v names [OF a(1,3)] by (intro keeps_scope_put) (auto simp: scope_ok_def)
  then show "keeps N m (sbind (slift (f (sc_valmap sc))) (\<lambda>(vm, status, freed).
      sbind (scope_put s (Some (sc\<lparr> sc_valmap := vm \<rparr>))) (\<lambda>_.
      sbind (case freed of None \<Rightarrow> sret () | Some v \<Rightarrow> sbind (val_free_inner (scope_free n) v) (\<lambda>_. sret ())) (\<lambda>_.
      sret status)))) (\<lambda>_ _. True)"
    unfolding v(1)
    by (intro keeps_sbind keeps_slift) (auto intro!: keeps_sret elim!: keeps_bind)
qed

lemma keeps_declare: "keeps N m (scope_declare_identifier n s name v c) (\<lambda>_ _. True)"
  unfolding scope_declare_identifier_def
proof (rule keeps_sbind, rule keeps_scope_at, intro impI)
  fix sc a assume "scope_ok a sc"
  moreover have "keeps N m (on_valmap n s (\<lambda>vm. valmap_set_no_overwrite vm name v c True)) (\<lambda>_ _. True)"
  proof (rule keeps_on_valmap [where law = "\<lambda>vm vm'. valmap_abs vm' = spec_set OW_NO_OVERWRITE True (valmap_abs vm) name v c"])
    show "\<exists>vm' st. valmap_set_no_overwrite vm name v c True = Inr (vm', st, None) \<and> valmap_ok vm' \<and>
        valmap_abs vm' = spec_set OW_NO_OVERWRITE True (valmap_abs vm) name v c" if "valmap_ok vm" for vm :: "val_t valmap"
      using vm.declare_law [OF that, of name v c] by auto
  qed (rule names_kept_declare)
  ultimately show "keeps N m (if allow_redecl sc then on_valmap n s (\<lambda>vm. valmap_set_default vm name v c True)
      else on_valmap n s (\<lambda>vm. valmap_set_no_overwrite vm name v c True)) (\<lambda>_ _. True)"
    by (simp add: scope_ok_def)
qed

lemma keeps_replace:
  assumes "\<And>a sc. s = Some a \<Longrightarrow> m_scopes m ! a = Some sc \<Longrightarrow> a < N \<Longrightarrow> sc_mode sc \<noteq> SC_DEFAULT"
  shows "keeps N m (on_valmap n s (\<lambda>vm. valmap_set_default vm name v c False)) (\<lambda>_ _. True)"
proof (rule keeps_on_valmap [where law = "\<lambda>vm vm'. valmap_abs vm' = spec_put (valmap_abs vm) name v c"])
  show "\<exists>vm' st. valmap_set_default vm name v c False = Inr (vm', st, None) \<and> valmap_ok vm' \<and>
      valmap_abs vm' = spec_put (valmap_abs vm) name v c" if "valmap_ok vm" for vm :: "val_t valmap"
    using vm.replace_law [OF that, of name v c] by auto
qed (use assms in \<open>auto intro: names_kept_replace\<close>)

lemma keeps_assign_upto: "keeps N m (assign_upto k n s name v) (\<lambda>_ _. True)"
proof (induction k arbitrary: s m)
  case (Suc k)
  have "keeps N m (on_valmap n s (\<lambda>vm. valmap_set_no_create vm name v False False)) (\<lambda>_ _. True)"
  proof (rule keeps_on_valmap [where law = "\<lambda>vm vm'. valmap_abs vm' = spec_set OW_NO_CREATE True (valmap_abs vm) name v False"])
    show "\<exists>vm' st. valmap_set_no_create vm name v False False = Inr (vm', st, None) \<and> valmap_ok vm' \<and>
        valmap_abs vm' = spec_set OW_NO_CREATE True (valmap_abs vm) name v False" if "valmap_ok vm" for vm :: "val_t valmap"
      using vm.assign_law [OF that, of name v] by auto
  qed (rule names_kept_assign)
  then show ?case
    by (auto intro!: keeps_sret Suc.IH elim!: keeps_bind intro!: keeps_quiet_bind quiet_at_addr)
qed (simp add: keeps_sthrow)

lemma keeps_assign: "keeps N m (scope_assign_identifier n s name v) (\<lambda>_ _. True)"
  unfolding scope_assign_identifier_def by (rule keeps_assign_upto)

lemma keeps_resolve_upto: "keeps N m (resolve_upto k s name) (\<lambda>_ _. True)"
proof (induction k arbitrary: s m)
  case (Suc k)
  show ?case
    unfolding resolve_upto.simps
  proof (rule keeps_sbind, rule keeps_scope_at, intro impI)
    fix sc a assume "scope_ok a sc"
    then have "valmap_ok (sc_valmap sc)" by (simp add: scope_ok_def)
    then obtain p where p: "valmap_get (sc_valmap sc) name = Inr p" by (elim valmap_get_ok)
    show "keeps N m (sbind (slift (valmap_get (sc_valmap sc) name)) (\<lambda>p. case p of
        Some i \<Rightarrow> sret (Some \<lparr> ep_scope = s, ep_array_id = vm_array_id (sc_valmap sc), ep_index = i \<rparr>)
      | None \<Rightarrow> if sc_parent sc \<noteq> None then resolve_upto k (sc_parent sc) name else sret None)) (\<lambda>_ _. True)"
      by (intro keeps_sbind keeps_slift) (auto simp: p intro!: keeps_sret Suc.IH split: option.splits)
  qed
qed (simp add: keeps_sthrow)

lemma keeps_resolve: "keeps N m (scope_resolve_identifier s name) (\<lambda>_ _. True)"
  unfolding scope_resolve_identifier_def by (rule keeps_resolve_upto)

lemma quiet_entry_at: "quiet (entry_at p)"
  unfolding entry_at_def by (auto intro!: quiet_heap split: option.splits)

lemma keeps_declare_builtins: "keeps N m (declare_builtins n s bs) (\<lambda>_ _. True)"
proof (induction bs arbitrary: m)
  case (Cons b bs)
  obtain name f p where b: "b = (name, f, p)" by (cases b)
  show ?case
    unfolding b declare_builtins.simps
    by (intro keeps_quiet_bind quiet_sassert quiet_val_at keeps_bind [OF keeps_declare] Cons.IH) simp
qed (simp add: keeps_sret)

text \<open>The new scope: its address, and that it is above every scope there was.\<close>

definition fresh_in :: "machine \<Rightarrow> addr option \<Rightarrow> machine \<Rightarrow> bool" where
  "fresh_in m s m' \<longleftrightarrow> s = Some (length (m_scopes m)) \<and> length (m_scopes m) < length (m_scopes m')"

lemma keeps_scope_init:
  assumes "ptr_ok m parent"
  shows "keeps N m (scope_init n parent) (fresh_in m)"
  unfolding scope_init_def
proof (rule keeps_bind)
  show "keeps N m (scope_new (new_scope parent)) (\<lambda>a m'. a = length (m_scopes m) \<and> m_scopes m' = m_scopes m @ [Some (new_scope parent)])"
    using assms
    by (intro keeps_scope_new) (auto simp: scope_ok_def new_scope_def valmap_ok_init ptr_ok_def split: option.splits)
  fix a and m1 :: machine
  assume m1: "a = length (m_scopes m) \<and> m_scopes m1 = m_scopes m @ [Some (new_scope parent)]"
  have "keeps N m1 (if parent \<noteq> None then sbind (sget builtin_functions) (\<lambda>bs. declare_builtins n (Some a) bs) else sret ())
     (\<lambda>_ _. True)"
    by (auto intro!: keeps_quiet_bind [OF quiet_sget] keeps_declare_builtins keeps_sret)
  then show "keeps N m1 (sbind (if parent \<noteq> None then sbind (sget builtin_functions) (\<lambda>bs. declare_builtins n (Some a) bs) else sret ())
      (\<lambda>_. sret (Some a))) (fresh_in m)"
    by (rule keeps_bind) (use m1 in \<open>auto simp: fresh_in_def evolves_def intro!: keeps_sret\<close>)
qed

end
