(* ===== verification/Eval_Invariant.thy ===== *)
theory Eval_Invariant
  imports Eval_Safety
begin

text \<open>
  The evaluator keeps the invariant: freeing, copying, every kind of node, the built-in functions,
  calls, and the run of a whole program.
\<close>

section \<open>Freeing\<close>

lemma quiet_free: "quiet (free_addr m_strings m_strings_update s)" "quiet (vector_free a)"
  by (rule quiet_heap quiet_vectors)+

lemma keeps_val_free_inner:
  assumes "\<And>s m. keeps N m (sf s) (\<lambda>_ _. True)"
  shows "keeps N m (val_free_inner sf v) (\<lambda>_ _. True)"
proof -
  have "keeps N m (sbind (fn_at f) (\<lambda>fn. case fn of
      FN_BUILT_IN b \<Rightarrow> sret v
    | FN_USER_CUSTOM body params s \<Rightarrow> sbind (sf s) (\<lambda>_. sbind (free_addr m_fns m_fns_update f) (\<lambda>_. sret v)))) (\<lambda>_ _. True)" for f
    by (rule keeps_quiet_bind [OF quiet_at_addr])
       (auto split: val_function.splits intro!: keeps_sret keeps_bind [OF assms] keeps_bind [OF keeps_fn_free])
  then show ?thesis
    unfolding val_free_inner_def
    by (auto split: val_data.splits intro!: keeps_sret keeps_quiet_bind [OF quiet_free(1)] keeps_quiet_bind [OF quiet_free(2)])
qed

lemma keeps_val_free_force_no_root:
  assumes "\<And>s m. keeps N m (sf s) (\<lambda>_ _. True)"
  shows "keeps N m (val_free_force_no_root sf p) (\<lambda>_ _. True)"
  unfolding val_free_force_no_root_def
  by (rule keeps_quiet_bind [OF quiet_val_at], rule keeps_bind [OF keeps_val_free_inner [OF assms]])
     (auto intro: keeps_sret keeps_quiet [OF quiet_val_put])

lemma keeps_val_alloc_free:
  assumes "\<And>s m. keeps N m (sf s) (\<lambda>_ _. True)"
  shows "keeps N m (val_alloc_free sf p b) (\<lambda>_ _. True)"
proof -
  have "keeps N m' (sbind (smod (\<lambda>m. m\<lparr> m_tbl := f m \<rparr>)) (\<lambda>_.
      sbind (if b then val_free_force_no_root sf q else sret ()) (\<lambda>_.
      sbind (val_at q) (\<lambda>v. val_put q (g v))))) (\<lambda>_ _. True)" for f q g m'
  proof (rule keeps_quiet_bind [OF quiet_smod])
    fix m1 :: machine
    have "keeps N m1 (if b then val_free_force_no_root sf q else sret ()) (\<lambda>_ _. True)"
      by (simp add: keeps_sret keeps_val_free_force_no_root [OF assms])
    then show "keeps N m1 (sbind (if b then val_free_force_no_root sf q else sret ()) (\<lambda>_.
        sbind (val_at q) (\<lambda>v. val_put q (g v)))) (\<lambda>_ _. True)"
      by (rule keeps_bind) (intro keeps_quiet quiet_heap)
  qed simp
  then show ?thesis
    unfolding val_alloc_free_def
    by (intro keeps_quiet_bind [OF quiet_val_at]) (auto split: val_ptr.splits intro: keeps_quiet [OF quiet_undefined])
qed

lemma keeps_valmap_free:
  assumes "\<And>s m. keeps N m (sf s) (\<lambda>_ _. True)"
  shows "keeps N m (valmap_free sf b es) (\<lambda>_ _. True)"
proof (induction es arbitrary: m)
  case (Cons e es)
  then show ?case
    by (cases e) (auto intro!: keeps_bind [OF keeps_val_alloc_free] keeps_quiet_bind [OF quiet_sret] assms split: option.splits)
qed (simp add: keeps_sret)

lemma keeps_valmap_free_builtin_fns: "keeps N m (valmap_free_builtin_fns es) (\<lambda>_ _. True)"
proof (induction es arbitrary: m)
  case (Cons e es)
  have "keeps N m' (sbind (valmap_free_builtin_fns es) (\<lambda>es'. sret (x # es'))) (\<lambda>_ _. True)" for x m'
    by (rule keeps_bind [OF Cons.IH]) (simp add: keeps_sret)
  then show ?case
    by (cases e) (auto intro!: keeps_quiet_bind [OF quiet_sret] keeps_sbind keeps_mono [OF keeps_quiet [OF quiet_at_addr]]
        keeps_mono [OF keeps_fn_free] keeps_sret split: val_data.splits val_function.splits)
qed (simp add: keeps_sret)

lemma keeps_scope_free: "keeps N m (scope_free n s) (\<lambda>_ _. True)"
proof (induction n arbitrary: s m)
  case (Suc n)
  have "keeps N m' (sbind (valmap_free (scope_free n) True a) (\<lambda>_. free_addr m_scopes m_scopes_update s)) (\<lambda>_ _. True)" for a m'
    by (rule keeps_bind [OF keeps_valmap_free]) (auto intro: Suc.IH keeps_free_scope)
  then show ?case
    by (auto simp: scope_free_body_def intro!: keeps_sret keeps_quiet_bind [OF quiet_at_addr]
        keeps_bind [OF keeps_valmap_free_builtin_fns] keeps_quiet_bind [OF quiet_sret])
qed (simp add: keeps_sthrow)

section \<open>Making and copying values\<close>

lemma keeps_val_create: "keeps N m (val_create d) (\<lambda>_ _. True)"
  unfolding val_create_def
  by (auto intro!: keeps_sret keeps_bind [OF keeps_fn_new] keeps_quiet_bind [OF quiet_vectors(1)] split: val_data.splits)

lemma keeps_val_create_heap: "keeps N m (val_create_heap d) (\<lambda>_ _. True)"
  unfolding val_create_heap_def
  by (rule keeps_bind [OF keeps_val_create]) (intro keeps_quiet quiet_heap quiet_val_init_heap)

lemma good_deep_copy: "deep_copy_list body = Inl e \<Longrightarrow> good_fault e"
  using deep_copy_cases(2) [of body] by auto

lemma fresh_ptr_ok: "fresh_in m s m' \<Longrightarrow> ptr_ok m' s"
  by (simp add: fresh_in_def ptr_ok_def)

text \<open>A function object gets a new scope.\<close>

lemma keeps_fn_rescope:
  assumes "ptr_ok m s" and "\<And>m'. keeps N m' f Q"
  shows "keeps N m (sbind (scope_init n s) (\<lambda>s'. sbind (fn_put g (Some (FN_USER_CUSTOM body params s'))) (\<lambda>_. f))) Q"
  by (rule keeps_bind [OF keeps_scope_init [OF assms(1)]], rule keeps_bind [OF keeps_fn_put])
     (auto intro: fresh_ptr_ok assms(2))

lemma keeps_val_copy_deep: "keeps N m (val_copy_deep n v) (\<lambda>_ _. True)"
proof -
  have user: "keeps N m' (sbind (slift (deep_copy_list body)) (\<lambda>body'. sbind (scope_init n s) (\<lambda>s'.
      sbind (fn_put g (Some (FN_USER_CUSTOM body' params s'))) (\<lambda>_. sret p)))) (\<lambda>_ _. True)"
    if "ptr_ok m' s" for body s g params p m'
    by (rule keeps_sbind, rule keeps_slift)
       (auto intro: good_deep_copy keeps_fn_rescope [OF that] keeps_sret)
  have "keeps N m' (sbind (fn_at f) (\<lambda>fn. case fn of
        FN_BUILT_IN b \<Rightarrow> sbind (fn_put g (Some (FN_BUILT_IN b))) (\<lambda>_. sret p)
      | FN_USER_CUSTOM body params s \<Rightarrow> sbind (slift (deep_copy_list body)) (\<lambda>body'. sbind (scope_init n s) (\<lambda>s'.
          sbind (fn_put g (Some (FN_USER_CUSTOM body' params s'))) (\<lambda>_. sret p))))) (\<lambda>_ _. True)" for f g p m'
    by (rule keeps_sbind, rule keeps_fn_at)
       (auto split: val_function.splits intro!: keeps_bind [OF keeps_fn_put] keeps_sret user)
  note fn = this [THEN keeps_mono, simplified]
  have "keeps N m (sbind (val_create_heap (val_data v)) (\<lambda>p. sbind (val_at p) (\<lambda>v'. f p v'))) (\<lambda>_ _. True)"
    if "\<And>p v' m'. keeps N m' (f p v') (\<lambda>_ _. True)" for f :: "val_ptr \<Rightarrow> val_t \<Rightarrow> val_ptr run"
    by (rule keeps_bind [OF keeps_val_create_heap], rule keeps_quiet_bind [OF quiet_val_at]) (rule that)
  then show ?thesis
    unfolding val_copy_deep_def Let_def
    by (cases "val_data v") (simp_all add: keeps_sret fn keeps_quiet quiet_heap)
qed

lemma keeps_push_copies: "keeps N m (push_copies n arr vs) (\<lambda>_ _. True)"
  by (induction vs arbitrary: m)
     (auto intro!: keeps_sret keeps_bind [OF keeps_val_copy_deep] keeps_quiet_bind [OF quiet_vectors(2)])

lemma keeps_builtin_array: "keeps N m (builtin_array n args) (\<lambda>_ _. True)"
  unfolding builtin_array_def
  by (auto intro!: keeps_bind [OF keeps_val_create] keeps_bind [OF keeps_push_copies] keeps_sret)


section \<open>Steps from a set of scope pointers\<close>

text \<open>
  \<open>c\<close> keeps the invariant in every state in which the scope pointers of \<open>S\<close> are valid.
\<close>

definition steps :: "nat \<Rightarrow> addr option set \<Rightarrow> 'a run \<Rightarrow> bool" where
  "steps N S c \<longleftrightarrow> (\<forall>m. (\<forall>s \<in> S. ptr_ok m s) \<longrightarrow> keeps N m c (\<lambda>_ _. True))"

lemma steps_keeps: "(\<And>m. keeps N m c (\<lambda>_ _. True)) \<Longrightarrow> steps N S c"
  by (simp add: steps_def)

lemma steps_quiet: "quiet c \<Longrightarrow> steps N S c"
  by (rule steps_keeps) (rule keeps_quiet)

lemma steps_sbind:
  assumes "steps N S c" and "\<And>x. steps N S (f x)"
  shows "steps N S (sbind c f)"
  unfolding steps_def
proof (intro allI impI)
  fix m :: machine
  assume S: "\<forall>s \<in> S. ptr_ok m s"
  then have "keeps N m c (\<lambda>_ _. True)" using assms(1) by (simp add: steps_def)
  then show "keeps N m (sbind c f) (\<lambda>_ _. True)"
  proof (rule keeps_bind)
    fix x and m' :: machine
    assume "evolves N m m'"
    then have "\<forall>s \<in> S. ptr_ok m' s" using S ptr_ok_mono by blast
    then show "keeps N m' (f x) (\<lambda>_ _. True)" using assms(2) [of x] by (simp add: steps_def)
  qed
qed

lemma steps_more: "steps N S c \<Longrightarrow> S \<subseteq> T \<Longrightarrow> steps N T c"
  by (auto simp: steps_def)

lemma steps_scope_init:
  assumes "s \<in> S" and "\<And>a. N \<le> a \<Longrightarrow> steps N (insert (Some a) S) (f (Some a))"
  shows "steps N S (sbind (scope_init n s) f)"
  unfolding steps_def
proof (intro allI impI)
  fix m :: machine
  assume S: "\<forall>s \<in> S. ptr_ok m s"
  show "keeps N m (sbind (scope_init n s) f) (\<lambda>_ _. True)"
  proof (cases "N \<le> length (m_scopes m)")
    case True
    have "keeps N m (scope_init n s) (fresh_in m)" using S assms(1) by (intro keeps_scope_init) simp
    then show ?thesis
    proof (rule keeps_bind)
      fix s' and m' :: machine
      assume m': "evolves N m m'" "fresh_in m s' m'"
      then have "\<forall>s \<in> insert s' S. ptr_ok m' s" using S by (auto intro: ptr_ok_mono fresh_ptr_ok)
      moreover have "steps N (insert s' S) (f s')" using m'(2) True by (auto simp: fresh_in_def intro: assms(2))
      ultimately show "keeps N m' (f s') (\<lambda>_ _. True)" by (simp add: steps_def)
    qed
  qed (simp add: keeps_def)
qed

lemma steps_fn_at:
  assumes "\<And>b. steps N S (f (FN_BUILT_IN b))"
    and "\<And>body params s. steps N (insert s S) (f (FN_USER_CUSTOM body params s))"
  shows "steps N S (sbind (fn_at p) f)"
  unfolding steps_def
proof (intro allI impI keeps_sbind keeps_fn_at)
  fix m :: machine and fn
  assume "\<forall>s \<in> S. ptr_ok m s" "\<forall>body params s. fn = FN_USER_CUSTOM body params s \<longrightarrow> ptr_ok m s"
  then show "keeps N m (f fn) (\<lambda>_ _. True)"
    using assms unfolding steps_def by (cases fn) auto
qed

lemma steps_fn_put:
  "s \<in> S \<Longrightarrow> steps N S (fn_put p (Some (FN_USER_CUSTOM body params s)))"
  by (auto simp: steps_def intro!: keeps_True [OF keeps_fn_put])

lemma steps_scope_update:
  assumes "\<And>b. p = Some b \<Longrightarrow> N \<le> b"
    and "\<And>sc. sc_parent (g sc) = sc_parent sc \<and> sc_valmap (g sc) = sc_valmap sc \<and> (allow_redecl (g sc) \<longrightarrow> allow_redecl sc)"
  shows "steps N S (scope_update p g)"
  unfolding scope_update_def
  by (intro steps_keeps keeps_sbind keeps_scope_at keeps_True [OF keeps_scope_put])
     (use assms in \<open>force simp: scope_ok_def intro!: keeps_True [OF keeps_scope_put]\<close>)

lemma steps_if: "steps N S c \<Longrightarrow> steps N S d \<Longrightarrow> steps N S (if b then c else d)"
  by simp

lemmas steps_plain =
  keeps_declare [THEN steps_keeps] keeps_assign [THEN steps_keeps] keeps_resolve [THEN steps_keeps]
  keeps_val_create [THEN steps_keeps] keeps_val_create_heap [THEN steps_keeps] keeps_val_copy_deep [THEN steps_keeps]
  keeps_builtin_array [THEN steps_keeps] keeps_scope_free [THEN steps_keeps]
  quiet_sret [THEN steps_quiet] quiet_at_addr [THEN steps_quiet] quiet_undefined [THEN steps_quiet] quiet_sget [THEN steps_quiet]
  quiet_error [THEN steps_quiet] quiet_entry_at [THEN steps_quiet] quiet_val_at [THEN steps_quiet] quiet_fail [THEN steps_quiet]
  quiet_vectors [THEN steps_quiet] quiet_eval_string [THEN steps_quiet] quiet_builtin_print [THEN steps_quiet]
  quiet_builtin_read [THEN steps_quiet] quiet_builtin_exit [THEN steps_quiet] quiet_cmp_generic [THEN steps_quiet]
  quiet_int_op [THEN steps_quiet] quiet_binexp_string [THEN steps_quiet] quiet_sthrow [THEN steps_quiet]

lemmas steps_rules = steps_fn_at steps_scope_init steps_sbind steps_fn_put steps_if steps_plain

section \<open>The evaluator\<close>

text \<open>An evaluator that keeps the invariant.\<close>

definition ev_ok :: "nat \<Rightarrow> evaluator \<Rightarrow> bool" where
  "ev_ok N ev \<longleftrightarrow> (\<forall>S s node. s \<in> S \<longrightarrow> steps N S (ev s node))"

lemma ev_okD: "ev_ok N ev \<Longrightarrow> s \<in> S \<Longrightarrow> steps N S (ev s node)"
  by (simp add: ev_ok_def)

lemma steps_on_valmap_replace:
  assumes "\<And>b. p = Some b \<Longrightarrow> N \<le> b"
  shows "steps N S (on_valmap n p (\<lambda>vm. valmap_set_default vm x v c False))"
  using assms by (intro steps_keeps keeps_replace) force

lemma steps_var_decl:
  assumes "ev_ok N ev" "s \<in> S"
  shows "steps N S (eval_var_decl n ev s l name c e)"
proof -
  have "keeps N m (sbind (scope_at s) (\<lambda>sc.
      if sc_mode sc = SC_MODE_REUSE \<and> unique_id sc = prev_unique_id sc
      then sbind (on_valmap n s (\<lambda>vm. valmap_set_default vm name v c False)) (\<lambda>_. sret BLAZE_NULL)
      else sbind (scope_declare_identifier n s name v c) (\<lambda>status.
        if status = VAL_SET_EXISTS then error_at l (''cannot redeclare identifier '' @ quoted name) else sret null_val)))
      (\<lambda>_ _. True)" for v m
    by (rule keeps_sbind, rule keeps_scope_at)
       (use keeps_replace keeps_declare in \<open>auto intro!: keeps_bind [OF keeps_replace] keeps_bind [OF keeps_declare]
          intro: keeps_sret keeps_quiet [OF quiet_error(1)]\<close>)
  then show ?thesis
    unfolding eval_var_decl_def
    by (intro steps_sbind [where f = "\<lambda>v. sbind (scope_at s) (f v)" for f]) (auto split: option.splits intro: steps_plain ev_okD [OF assms] steps_keeps)
qed

lemma steps_lists:
  assumes "ev_ok N ev" "s \<in> S"
  shows "steps N S (eval_children ev s cs)" "steps N S (eval_last ev s cs v)" "steps N S (eval_args ev s cs)"
    "steps N S (eval_elements n ev s arr cs)"
proof -
  note E = ev_okD [OF assms]
  show "steps N S (eval_children ev s cs)" "steps N S (eval_last ev s cs v)" "steps N S (eval_args ev s cs)"
    "steps N S (eval_elements n ev s arr cs)"
    by (induction cs arbitrary: v) (auto intro!: steps_sbind E intro: steps_plain)
qed

lemma steps_block:
  assumes "ev_ok N ev" "s \<in> S"
  shows "steps N S (eval_block n ev s cs)" "steps N S (eval_block_no_scope ev s cs)"
  unfolding eval_block_def eval_block_no_scope_def
  by (rule steps_rules steps_lists assms insertI1)+

lemma steps_if_stmt:
  assumes "ev_ok N ev" "s \<in> S"
  shows "steps N S (eval_if_stmt ev s c t e)"
  unfolding eval_if_stmt_def using ev_okD [OF assms]
  by (cases e) (auto intro!: steps_sbind intro: steps_plain)

lemma steps_assignment:
  assumes "ev_ok N ev" "s \<in> S"
  shows "steps N S (eval_assignment n ev s l a v)"
  unfolding eval_assignment_def Let_def
  by (rule steps_rules ev_okD [OF assms])+

lemma steps_identifier: "steps N S (eval_identifier s l x)"
  unfolding eval_identifier_def
  by (rule steps_sbind) (auto split: option.splits intro: steps_plain)

lemma steps_binexp:
  assumes "ev_ok N ev" "s \<in> S"
  shows "steps N S (eval_binexp ev s l op a b)"
  unfolding eval_binexp_def
  by (rule steps_sbind ev_okD [OF assms])+ (auto split: val_data.splits intro: steps_plain)

lemma steps_loop_round:
  assumes "ev_ok N ev" "Some b \<in> S" "N \<le> b"
  shows "steps N S (loop_round n ev (Some b) x body i)"
proof -
  have body: "steps N S (case body of NODE_BLOCK l cs \<Rightarrow> eval_block_no_scope ev (Some b) cs | _ \<Rightarrow> ev (Some b) body)"
    using ev_okD [OF assms(1,2)] steps_block(2) [OF assms(1,2)] by (auto split: ast_node.splits)
  have count: "steps N S (case x of None \<Rightarrow> sret VAL_SET_OK
      | Some y \<Rightarrow> on_valmap n (Some b) (\<lambda>vm. valmap_set_default vm y v True False))" for v
    using assms(3) by (cases x) (auto intro: steps_plain steps_on_valmap_replace)
  have up: "steps N S (scope_update (Some b) (\<lambda>sc. sc\<lparr> prev_unique_id := i \<rparr>))"
    "steps N S (scope_update (Some b) (\<lambda>sc. sc\<lparr> unique_id := i \<rparr>))" for i
    using assms(3) by (auto intro: steps_scope_update)
  show ?thesis
    unfolding loop_round_def by (rule steps_sbind steps_if up body count steps_plain | simp)+
qed

lemma steps_loop_rounds:
  assumes "\<And>i. steps N S (round i)"
  shows "steps N S (loop_rounds k goes_on round i)"
  by (induction k arbitrary: i) (auto intro: steps_plain steps_sbind assms)

lemma steps_loop:
  assumes "ev_ok N ev" "s \<in> S"
  shows "steps N S (eval_loop_stmt n ev s l c x body)"
proof -
  have check: "steps N S (case val_data v of VAL_BOOLEAN b \<Rightarrow> sret ()
      | VAL_INTEGER k \<Rightarrow> if k < 0 then error_at l ''the iteration count must not be a negative number'' else sret ()
      | d \<Rightarrow> error_at l (''type '' @ quoted (val_type_to_str d) @ '' is not iterable''))" for v
    by (auto split: val_data.splits intro: steps_plain)
  have count: "steps N S (case c of None \<Rightarrow> sret (val_init (VAL_BOOLEAN True)) | Some e \<Rightarrow> ev s e)"
    using ev_okD [OF assms] by (auto split: option.splits intro: steps_plain)
  have name: "steps N T (case x of None \<Rightarrow> sret VAL_SET_OK | Some y \<Rightarrow> scope_declare_identifier n s' y v True)" for T s' v
    by (auto split: option.splits intro: steps_plain)
  have start: "steps N T (scope_update (Some a) (\<lambda>sc. sc\<lparr> allow_redecl := False, sc_mode := SC_MODE_REUSE, prev_unique_id := 0, unique_id := 1 \<rparr>))"
    if "N \<le> a" for T a using that by (auto intro: steps_scope_update)
  show ?thesis
    unfolding eval_loop_stmt_def
    by (rule steps_scope_init steps_sbind check count assms name start steps_loop_rounds steps_loop_round insertI1 steps_plain | assumption)+
qed

lemma steps_array_lit:
  assumes "ev_ok N ev" "s \<in> S"
  shows "steps N S (eval_array_lit n ev s es)"
  unfolding eval_array_lit_def by (rule steps_sbind steps_lists assms steps_plain)+

lemma steps_copy_body: "steps N S (slift (deep_copy_list body))"
  by (rule steps_keeps, rule keeps_slift) (auto intro: good_deep_copy)

lemma steps_fn_decl:
  assumes "s \<in> S"
  shows "steps N S (eval_fn_decl n s l f params body)"
  unfolding eval_fn_decl_def
  by (rule steps_scope_init steps_sbind steps_copy_body assms steps_fn_put insertI1 steps_if steps_plain)+

lemma steps_declare_test_val: "steps N S (declare_test_val n fs params v)"
  by (induction params) (auto intro: steps_plain steps_sbind)

lemma steps_call_fn:
  assumes "ev_ok N ev" "s \<in> S"
  shows "steps N S (array_filter_call_fn n ev s fn p)"
proof -
  have "steps N (insert fs S) (sbind (val_at p) (\<lambda>v. sbind (declare_test_val n fs params v) (\<lambda>_.
      sbind (eval_last ev fs body null_val) (\<lambda>ret. sbind (scope_init n s) (\<lambda>s'.
      sbind (fn_put (fn_ptr fn) (Some (FN_USER_CUSTOM body params s'))) (\<lambda>_. sret (val_data ret = VAL_BOOLEAN True)))))))"
    for body params fs
    by (rule steps_scope_init steps_sbind steps_declare_test_val steps_lists assms insertI2 insertI1 steps_fn_put steps_plain)+
  then show ?thesis
    unfolding array_filter_call_fn_def by (intro steps_fn_at) (auto intro: steps_plain)
qed

lemma steps_filter_elements:
  assumes "ev_ok N ev" "s \<in> S"
  shows "steps N S (filter_elements n ev s callback arr new i k)"
proof (induction k arbitrary: i)
  case (Suc k)
  show ?case
    unfolding filter_elements.simps
    by (rule steps_sbind steps_if steps_call_fn Suc.IH assms steps_plain)+
qed (auto intro: steps_plain)

lemma steps_array_filter:
  assumes "ev_ok N ev" "s \<in> S"
  shows "steps N S (builtin_array_filter n ev s args)"
proof -
  have arr: "steps N S (sbind (val_create (VAL_ARRAY None)) (\<lambda>new_array. case val_data v of
      VAL_ARRAY a \<Rightarrow> sbind (vec_at a) (\<lambda>data. sbind (filter_elements n ev s w a (arr_of new_array) 0 (length data)) (\<lambda>_. sret new_array))
    | _ \<Rightarrow> undefined_step ''array_filter: not a vector''))" for v w
    by (rule steps_sbind steps_plain)+
       (auto split: val_data.splits intro: steps_plain steps_sbind [OF quiet_at_addr [THEN steps_quiet]]
          steps_sbind [OF steps_filter_elements [OF assms]])
  have "steps N S (sbind (fn_at f) (\<lambda>fn. if P fn then fail msg else c))" if "steps N S c" for f P msg and c :: "val_t run"
    by (rule steps_sbind steps_if steps_plain that)+
  note fn = this [OF arr]
  show ?thesis
    unfolding builtin_array_filter_def
    by (auto split: list.split val_data.split intro: fn intro!: quiet_fail [THEN steps_quiet] quiet_undefined [THEN steps_quiet])
qed

lemma steps_call_builtin: "ev_ok N ev \<Longrightarrow> s \<in> S \<Longrightarrow> steps N S (call_builtin n ev s b args)"
  unfolding call_builtin_def by (auto split: option.splits builtin.splits intro: steps_plain steps_array_filter)

lemma steps_fn_of_entry:
  assumes "\<And>b. steps N S (f (FN_BUILT_IN b))"
    and "\<And>body params s. steps N (insert s S) (f (FN_USER_CUSTOM body params s))"
  shows "steps N S (sbind (fn_of_entry p) f)"
proof -
  have "steps N S (sbind (entry_at p) (\<lambda>v. sbind (fn_at (fn_ptr v)) f))"
    by (rule steps_sbind steps_fn_at assms steps_plain)+
  then show ?thesis by (simp add: fn_of_entry_def sbind_assoc)
qed

lemma steps_declare_params: "steps N S (declare_params n l x p i args)"
proof (induction args arbitrary: S i)
  case (Cons v args)
  have "steps N T (sbind (scope_declare_identifier n s y v True) (\<lambda>status.
      if status = VAL_SET_EXISTS then error_at l (''cannot redefine '' @ quoted x @ '' as a function parameter'')
      else declare_params n l x p (Suc i) args))" for T s y
    by (rule steps_sbind steps_if Cons.IH steps_plain)+
  then show ?case
    by (auto intro!: steps_fn_of_entry quiet_undefined [THEN steps_quiet])
qed (auto intro: steps_plain)

lemma steps_run_body:
  assumes "ev_ok N ev"
  shows "steps N S (run_body ev p i k ret)"
proof (induction k arbitrary: S i ret)
  case (Suc k)
  have "steps N (insert s S) (sbind (ev s node) (\<lambda>v. run_body ev p (Suc i) k (Some v)))" for s S node
    by (rule steps_sbind Suc.IH ev_okD [OF assms] insertI1)+
  then show ?case
    by (auto intro!: steps_fn_of_entry quiet_undefined [THEN steps_quiet])
qed (auto intro: steps_plain)

lemma steps_call_user:
  assumes "ev_ok N ev" "s \<in> S"
  shows "steps N S (call_user n ev s l x p body params args)"
proof -
  have put: "steps N (insert s' (insert (Some a) S)) (sbind (fn_put q (Some (FN_USER_CUSTOM body' params' (Some a)))) (\<lambda>_. val_at copy))"
    for body' params' a q copy s'
    by (rule steps_sbind steps_fn_put insertI1 insertI2 steps_plain)+
  have fn: "steps N (insert (Some a) S) (sbind (fn_at q) (\<lambda>fn. case fn of
        FN_USER_CUSTOM body' params' _ \<Rightarrow> sbind (fn_put q (Some (FN_USER_CUSTOM body' params' (Some a)))) (\<lambda>_. val_at copy)
      | FN_BUILT_IN _ \<Rightarrow> undefined_step ''function object changed''))" for q a copy
    by (rule steps_fn_at) (auto intro: put quiet_undefined [THEN steps_quiet])
  have ret: "steps N S (sbind (val_copy_deep n v) (\<lambda>copy. sbind (scope_init n s) (\<lambda>s'. sbind (entry_at p) (\<lambda>val.
      sbind (fn_at (fn_ptr val)) (\<lambda>fn. case fn of
        FN_USER_CUSTOM body' params' _ \<Rightarrow> sbind (fn_put (fn_ptr val) (Some (FN_USER_CUSTOM body' params' s'))) (\<lambda>_. val_at copy)
      | FN_BUILT_IN _ \<Rightarrow> undefined_step ''function object changed'')))))" for v
    by (rule fn steps_scope_init steps_sbind assms steps_plain)+
  show ?thesis
    unfolding call_user_def
    by (rule steps_if steps_sbind steps_declare_params steps_run_body assms steps_plain)+
       (auto split: option.split intro: ret quiet_undefined [THEN steps_quiet])
qed

lemma steps_expr_call:
  assumes "ev_ok N ev" "s \<in> S"
  shows "steps N S (eval_expr_call n ev s l x args)"
proof -
  have builtin: "steps N S (sbind (call_builtin n ev s b vs) (\<lambda>ret. sbind (sget eval_fn_error) (\<lambda>err.
      case err of None \<Rightarrow> sret ret | Some msg \<Rightarrow> error_at l msg)))" for b vs
    by (rule steps_sbind steps_call_builtin assms steps_plain)+ (auto split: option.split intro: steps_plain)
  have fn: "steps N S (sbind (fn_of_entry p) (\<lambda>fn. case fn of
        FN_BUILT_IN b \<Rightarrow> sbind (call_builtin n ev s b vs) (\<lambda>ret. sbind (sget eval_fn_error) (\<lambda>err.
          case err of None \<Rightarrow> sret ret | Some msg \<Rightarrow> error_at l msg))
      | FN_USER_CUSTOM body params _ \<Rightarrow> call_user n ev s l x p body params vs))" for p vs
    by (rule steps_fn_of_entry) (auto intro: builtin steps_call_user assms)
  have "steps N S (sbind (entry_at p) (\<lambda>val.
      if val_type_number (val_data val) \<noteq> 3 then error_at l (quoted x @ '' is not a function'')
      else sbind (eval_args ev s args) (\<lambda>vs. sbind (fn_of_entry p) (\<lambda>fn. case fn of
        FN_BUILT_IN b \<Rightarrow> sbind (call_builtin n ev s b vs) (\<lambda>ret. sbind (sget eval_fn_error) (\<lambda>err.
          case err of None \<Rightarrow> sret ret | Some msg \<Rightarrow> error_at l msg))
      | FN_USER_CUSTOM body params _ \<Rightarrow> call_user n ev s l x p body params vs))))" for p
    by (rule fn steps_sbind steps_if steps_lists assms steps_plain)+
  then show ?thesis
    unfolding eval_expr_call_def
    by (intro steps_sbind [OF keeps_resolve [THEN steps_keeps]]) (auto split: option.split intro: steps_plain)
qed

lemma ev_ok_eval: "ev_ok N (eval n)"
proof (induction n)
  case 0
  show ?case by (simp add: ev_ok_def steps_plain)
next
  case (Suc n)
  show ?case
    unfolding ev_ok_def
  proof (intro allI impI)
    fix S :: "addr option set" and s node
    assume s: "s \<in> S"
    note [intro] = steps_lists [OF Suc s] steps_block [OF Suc s] steps_if_stmt [OF Suc s] steps_loop [OF Suc s]
      steps_var_decl [OF Suc s] steps_assignment [OF Suc s] steps_identifier steps_binexp [OF Suc s]
      steps_expr_call [OF Suc s] steps_array_lit [OF Suc s] steps_fn_decl [OF s]
    show "steps N S (eval (Suc n) s node)"
      unfolding eval.simps eval_body_def eval_int_def
      by (auto split: ast_node.split intro: steps_plain)
  qed
qed

lemma keeps_eval: "ptr_ok m s \<Longrightarrow> keeps N m (eval n s node) (\<lambda>_ _. True)"
  using ev_ok_eval [of N n] by (auto simp: ev_ok_def steps_def)

end
