(* ===== verification/Scope_Env.thy ===== *)
theory Scope_Env
  imports Eval
begin

text \<open>
  What a scope means: the list of the maps of the scopes on the way to the global one, innermost
  first. Looking up, assigning and declaring a name through the hash tables does to this list what
  the definitions here say.
\<close>

section \<open>Environments\<close>

text \<open>
  A frame is the map of one scope, and whether a declaration in it replaces (in the scope of a
  loop, from the second round on).
\<close>

type_synonym 'v frame = "(string \<Rightarrow> ('v \<times> bool) option) \<times> bool"

fun env_lookup :: "'v frame list \<Rightarrow> string \<Rightarrow> ('v \<times> bool) option" where
  "env_lookup [] x = None"
| "env_lookup ((f, r) # E) x = (case f x of Some e \<Rightarrow> Some e | None \<Rightarrow> env_lookup E x)"

fun env_assign :: "'v frame list \<Rightarrow> string \<Rightarrow> 'v \<Rightarrow> 'v frame list" where
  "env_assign [] x v = []"
| "env_assign ((f, r) # E) x v =
     (case f x of
        Some (w, c) \<Rightarrow> (if c then (f, r) else (f(x \<mapsto> (v, False)), r)) # E
      | None \<Rightarrow> (f, r) # env_assign E x v)"

definition assign_status :: "('v \<times> bool) option \<Rightarrow> valmap_set_status" where
  "assign_status e = (case e of None \<Rightarrow> VAL_SET_NOT_FOUND | Some (w, c) \<Rightarrow> if c then VAL_SET_IS_CONST else VAL_SET_OK)"

definition frame_of :: "scope \<Rightarrow> val_t frame" where
  "frame_of sc = (valmap_abs (sc_valmap sc), sc_mode sc = SC_MODE_REUSE \<and> unique_id sc = prev_unique_id sc)"

text \<open>The scope at an address stands for an environment.\<close>

inductive env_of :: "machine \<Rightarrow> addr \<Rightarrow> val_t frame list \<Rightarrow> bool" where
  env_global: "a < length (m_scopes m) \<Longrightarrow> m_scopes m ! a = Some sc \<Longrightarrow> valmap_ok (sc_valmap sc) \<Longrightarrow>
     \<not> allow_redecl sc \<Longrightarrow> sc_parent sc = None \<Longrightarrow> env_of m a [frame_of sc]"
| env_inner: "a < length (m_scopes m) \<Longrightarrow> m_scopes m ! a = Some sc \<Longrightarrow> valmap_ok (sc_valmap sc) \<Longrightarrow>
     \<not> allow_redecl sc \<Longrightarrow> sc_parent sc = Some p \<Longrightarrow> p < a \<Longrightarrow> env_of m p E \<Longrightarrow> env_of m a (frame_of sc # E)"

inductive_cases env_ofE: "env_of m a E"

text \<open>Only the scopes up to the address matter.\<close>

lemma env_of_cong:
  "env_of m a E \<Longrightarrow> length (m_scopes m) \<le> length (m_scopes m') \<Longrightarrow>
   (\<And>b. b \<le> a \<Longrightarrow> m_scopes m' ! b = m_scopes m ! b) \<Longrightarrow> env_of m' a E"
proof (induction rule: env_of.induct)
  case (env_global a m sc)
  then show ?case by (intro env_of.env_global) auto
next
  case (env_inner a m sc p E)
  then show ?case by (intro env_of.env_inner) auto
qed

lemma env_of_nonempty: "env_of m a E \<Longrightarrow> E \<noteq> []"
  by (auto elim: env_of.cases)

text \<open>One step of an environment.\<close>

lemma env_of_top:
  assumes "env_of m a E"
  obtains sc E' where "a < length (m_scopes m)" "m_scopes m ! a = Some sc" "valmap_ok (sc_valmap sc)" "\<not> allow_redecl sc"
    "E = frame_of sc # E'" "sc_parent sc = None \<and> E' = [] \<or> (\<exists>p. sc_parent sc = Some p \<and> p < a \<and> env_of m p E')"
  using assms by (cases rule: env_of.cases) auto

lemma env_of_put:
  assumes "env_of m a (frame_of sc # E)" "m_scopes m ! a = Some sc"
    and "sc_parent sc' = sc_parent sc" "valmap_ok (sc_valmap sc')" "\<not> allow_redecl sc'"
  shows "env_of (m\<lparr> m_scopes := (m_scopes m)[a := Some sc'] \<rparr>) a (frame_of sc' # E)"
proof -
  let ?m = "m\<lparr> m_scopes := (m_scopes m)[a := Some sc'] \<rparr>"
  obtain a1: "a < length (m_scopes m)" and up: "sc_parent sc = None \<and> E = [] \<or> (\<exists>p. sc_parent sc = Some p \<and> p < a \<and> env_of m p E)"
    using assms(1,2) by (elim env_of_top) auto
  have keep: "env_of ?m p E" if "p < a" "env_of m p E" for p
    using that(2) by (rule env_of_cong) (use that(1) in auto)
  show ?thesis
    using up assms(3-5) a1 keep by (auto intro!: env_of.intros)
qed

text \<open>A change below the top.\<close>

lemma env_of_below:
  assumes "m_scopes m' ! a = Some sc" "a < length (m_scopes m')" "valmap_ok (sc_valmap sc)" "\<not> allow_redecl sc"
    and "sc_parent sc = Some p" "p < a" "env_of m' p E"
  shows "env_of m' a (frame_of sc # E)"
  using assms by (intro env_of.env_inner)

section \<open>The operations on scopes\<close>

lemma at_addr_Some: "a < length (h m) \<Longrightarrow> h m ! a = Some x \<Longrightarrow> at_addr h (Some a) m = Inr (x, m)"
  by (simp add: at_addr_def)

lemma scope_put_Some:
  "a < length (m_scopes m) \<Longrightarrow> m_scopes m ! a = Some sc \<Longrightarrow>
   scope_put (Some a) x m = Inr ((), m\<lparr> m_scopes := (m_scopes m)[a := x] \<rparr>)"
  by (simp add: put_addr_def sbind_Inr [OF at_addr_Some])

lemma on_valmap_Some:
  assumes "a < length (m_scopes m)" "m_scopes m ! a = Some sc" "f (sc_valmap sc) = Inr (vm, st, None)"
  shows "on_valmap n (Some a) f m = Inr (st, m\<lparr> m_scopes := (m_scopes m)[a := Some (sc\<lparr> sc_valmap := vm \<rparr>)] \<rparr>)"
  unfolding on_valmap_def
  by (simp add: sbind_step at_addr_Some assms scope_put_Some)

lemma valmap_get_entry:
  assumes "valmap_ok vm"
  obtains "valmap_abs vm x = None" "valmap_get vm x = Inr None"
  | j e where "valmap_abs vm x = Some (ve_value e, ve_is_const e)" "valmap_get vm x = Inr (Some j)" "vm_array vm ! j = Some e"
proof -
  obtain j where j: "vm_array vm ! j = table_map ve_key (vm_array vm) x"
    "valmap_get vm x = Inr (if valmap_abs vm x = None then None else Some j)"
    using valmap_get_ok [OF assms] by metis
  show ?thesis
    using that j by (cases "table_map ve_key (vm_array vm) x") (auto simp: valmap_abs_def)
qed

text \<open>The pointer that a name resolves to.\<close>

definition resolved :: "val_t frame list \<Rightarrow> string \<Rightarrow> machine \<Rightarrow> entry_ptr option \<Rightarrow> bool" where
  "resolved E x m r \<longleftrightarrow>
     (case (env_lookup E x, r) of
        (None, None) \<Rightarrow> True
      | (Some (v, c), Some p) \<Rightarrow> entry_at p m = Inr (v, m)
      | _ \<Rightarrow> False)"

lemma resolve_upto_env:
  "env_of m a E \<Longrightarrow> a < k \<Longrightarrow> \<exists>r. resolve_upto k (Some a) x m = Inr (r, m) \<and> resolved E x m r"
proof (induction k arbitrary: a E)
  case (Suc k)
  obtain sc E' where top: "a < length (m_scopes m)" "m_scopes m ! a = Some sc" "valmap_ok (sc_valmap sc)"
    "E = frame_of sc # E'" "sc_parent sc = None \<and> E' = [] \<or> (\<exists>p. sc_parent sc = Some p \<and> p < a \<and> env_of m p E')"
    using Suc.prems(1) by (elim env_of_top)
  note at = at_addr_Some [of a m_scopes m, OF top(1,2)]
  show ?case
  proof (cases rule: valmap_get_entry [OF top(3), of x])
    case 1
    show ?thesis
    proof (cases "sc_parent sc")
      case None
      with 1 top(4,5) show ?thesis by (simp add: sbind_step at resolved_def frame_of_def)
    next
      case (Some p)
      with top(5) Suc.prems(2) obtain r where "resolve_upto k (Some p) x m = Inr (r, m)" "resolved E' x m r"
        using Suc.IH [of p E'] by auto
      with 1 top(4) Some show ?thesis by (simp add: sbind_step at resolved_def frame_of_def)
    qed
  next
    case (2 j e)
    then have "entry_at \<lparr> ep_scope = Some a, ep_array_id = vm_array_id (sc_valmap sc), ep_index = j \<rparr> m = Inr (ve_value e, m)"
      by (simp add: entry_at_def sbind_step at)
    with 2 top(4) show ?thesis by (simp add: sbind_step at resolved_def frame_of_def)
  qed
qed simp

lemma resolve_env:
  assumes "env_of m a E"
  obtains r where "scope_resolve_identifier (Some a) x m = Inr (r, m)" "resolved E x m r"
  using resolve_upto_env [OF assms, of "Suc a" x] by (auto simp: scope_resolve_identifier_def walk_bound_def)

text \<open>
  What the operations change: the tables of the scopes up to the address, nothing else.
\<close>

fun table_only :: "scope option \<Rightarrow> scope option \<Rightarrow> bool" where
  "table_only None y = (y = None)"
| "table_only (Some sc) y = (\<exists>vm. y = Some (sc\<lparr> sc_valmap := vm \<rparr>))"

lemma table_only_refl [simp]: "table_only x x"
proof (cases x)
  case (Some sc)
  then show ?thesis by (auto intro: exI [of _ "sc_valmap sc"])
qed simp

lemma table_only_trans: "table_only x y \<Longrightarrow> table_only y z \<Longrightarrow> table_only x z"
  by (cases x) auto

definition scopes_only :: "addr \<Rightarrow> machine \<Rightarrow> machine \<Rightarrow> bool" where
  "scopes_only a m m' \<longleftrightarrow> m' = m\<lparr> m_scopes := m_scopes m' \<rparr> \<and> length (m_scopes m') = length (m_scopes m) \<and>
     (\<forall>b > a. m_scopes m' ! b = m_scopes m ! b) \<and> (\<forall>b < length (m_scopes m). table_only (m_scopes m ! b) (m_scopes m' ! b))"

lemma with_scopes_trans:
  "m2 = m1\<lparr> m_scopes := h2 \<rparr> \<Longrightarrow> m1 = m\<lparr> m_scopes := h1 \<rparr> \<Longrightarrow> m2 = m\<lparr> m_scopes := h2 \<rparr>"
  by simp

lemma scopes_only_put:
  "a < length (m_scopes m) \<Longrightarrow> m_scopes m ! a = Some sc \<Longrightarrow> scopes_only a m (m\<lparr> m_scopes := (m_scopes m)[a := Some (sc\<lparr> sc_valmap := vm \<rparr>)] \<rparr>)"
  by (auto simp: scopes_only_def nth_list_update)

lemma scopes_onlyD:
  assumes "scopes_only a m m'"
  shows "m' = m\<lparr> m_scopes := m_scopes m' \<rparr>" "length (m_scopes m') = length (m_scopes m)"
    "a < b \<Longrightarrow> m_scopes m' ! b = m_scopes m ! b" "b < length (m_scopes m) \<Longrightarrow> table_only (m_scopes m ! b) (m_scopes m' ! b)"
  using assms unfolding scopes_only_def by blast+

lemma scopes_only_trans:
  assumes "scopes_only p m1 m2" "scopes_only a m m1" "p < a"
  shows "scopes_only a m m2"
  unfolding scopes_only_def
proof (intro conjI allI impI)
  note d1 = scopes_onlyD [OF assms(1)] and d = scopes_onlyD [OF assms(2)]
  show "m2 = m\<lparr> m_scopes := m_scopes m2 \<rparr>" using d1(1) d(1) by (rule with_scopes_trans)
  show "length (m_scopes m2) = length (m_scopes m)" using d1(2) d(2) by (rule trans)
  show "m_scopes m2 ! b = m_scopes m ! b" if "a < b" for b
    using d1(3) [of b] d(3) [of b] that assms(3) by (metis order_less_trans)
  show "table_only (m_scopes m ! b) (m_scopes m2 ! b)" if "b < length (m_scopes m)" for b
    using d(4) [OF that] by (rule table_only_trans) (rule d1(4), use d(2) that in simp)
qed

lemma assign_upto_env:
  "env_of m a E \<Longrightarrow> a < k \<Longrightarrow> \<exists>m'. assign_upto k n (Some a) x v m = Inr (assign_status (env_lookup E x), m') \<and>
     env_of m' a (env_assign E x v) \<and> scopes_only a m m'"
proof (induction k arbitrary: a E m)
  case (Suc k)
  obtain sc E' where top: "a < length (m_scopes m)" "m_scopes m ! a = Some sc" "valmap_ok (sc_valmap sc)" "\<not> allow_redecl sc"
    "E = frame_of sc # E'" "sc_parent sc = None \<and> E' = [] \<or> (\<exists>p. sc_parent sc = Some p \<and> p < a \<and> env_of m p E')"
    using Suc.prems(1) by (elim env_of_top)
  obtain vm where vm: "valmap_ok vm" "valmap_abs vm = spec_set OW_NO_CREATE True (valmap_abs (sc_valmap sc)) x v False"
    "valmap_set_no_create (sc_valmap sc) x v False False = Inr (vm, spec_status OW_NO_CREATE True (valmap_abs (sc_valmap sc) x), None)"
    using vm.assign_law [OF top(3), of x v] by auto
  let ?sc = "sc\<lparr> sc_valmap := vm \<rparr>" and ?m = "m\<lparr> m_scopes := (m_scopes m)[a := Some (sc\<lparr> sc_valmap := vm \<rparr>)] \<rparr>"
  note on = on_valmap_Some [OF top(1,2), of "\<lambda>vm. valmap_set_no_create vm x v False False", OF vm(3)]
  have at: "scope_at (Some a) ?m = Inr (?sc, ?m)" using top(1) by (simp add: at_addr_Some)
  have here: "env_of ?m a (frame_of ?sc # E')"
    using Suc.prems(1) top vm(1) by (intro env_of_put [where sc = sc]) auto
  show ?case
  proof (cases "valmap_abs (sc_valmap sc) x = None \<and> sc_parent sc \<noteq> None")
    case True
    then obtain p where p: "sc_parent sc = Some p" "p < a" "env_of m p E'" using top(6) by auto
    have "env_of ?m p E'" using p(3) by (rule env_of_cong) (use p(2) in auto)
    then obtain m' where m': "assign_upto k n (Some p) x v ?m = Inr (assign_status (env_lookup E' x), m')"
      "env_of m' p (env_assign E' x v)" "scopes_only p ?m m'"
      using Suc.IH [of ?m p E'] p(2) Suc.prems(2) by auto
    have sc': "m_scopes m' ! a = Some ?sc" "a < length (m_scopes m')"
      using m'(3) p(2) top(1) by (auto simp: scopes_only_def)
    have same: "frame_of ?sc = frame_of sc"
      using True vm(2) by (simp add: frame_of_def spec_set_def spec_status_def)
    have "env_of m' a (frame_of ?sc # env_assign E' x v)"
      using sc' vm(1) top(4) p m'(2) by (intro env_of_below) auto
    moreover have "scopes_only a m m'"
      using m'(3) scopes_only_put [OF top(1,2)] p(2) by (rule scopes_only_trans)
    ultimately show ?thesis
      using True p m'(1) top(5) same on at
      by (simp add: sbind_step spec_status_def) (simp add: frame_of_def)
  next
    case False
    have "env_assign E x v = frame_of ?sc # E' \<and> spec_status OW_NO_CREATE True (valmap_abs (sc_valmap sc) x) = assign_status (env_lookup E x)"
      using False top(5,6) vm(2)
      by (auto simp: frame_of_def spec_set_def spec_status_def spec_put_def assign_status_def fun_eq_iff split: option.splits)
    with False here on at show ?thesis
      by (auto simp: sbind_step spec_status_def scopes_only_put [OF top(1,2)] split: option.splits if_splits)
  qed
qed simp

lemma assign_env:
  assumes "env_of m a E"
  obtains m' where "scope_assign_identifier n (Some a) x v m = Inr (assign_status (env_lookup E x), m')"
    "env_of m' a (env_assign E x v)" "scopes_only a m m'"
  using assign_upto_env [OF assms, of "Suc a" n x v] by (auto simp: scope_assign_identifier_def walk_bound_def)

text \<open>A declaration, and the replacement in the scope of a loop.\<close>

fun env_declare :: "'v frame list \<Rightarrow> string \<Rightarrow> 'v \<Rightarrow> bool \<Rightarrow> 'v frame list" where
  "env_declare [] x v c = []"
| "env_declare ((f, r) # E) x v c = (if f x = None then (f(x \<mapsto> (v, c)), r) # E else (f, r) # E)"

fun env_replace :: "'v frame list \<Rightarrow> string \<Rightarrow> 'v \<Rightarrow> bool \<Rightarrow> 'v frame list" where
  "env_replace [] x v c = []"
| "env_replace ((f, r) # E) x v c = (spec_put f x v c, r) # E"

lemma declare_env:
  assumes "env_of m a E"
  obtains m' where "scope_declare_identifier n (Some a) x v c m =
      Inr (if fst (hd E) x = None then VAL_SET_OK else VAL_SET_EXISTS, m')"
    "env_of m' a (env_declare E x v c)" "scopes_only a m m'"
proof -
  obtain sc E' where top: "a < length (m_scopes m)" "m_scopes m ! a = Some sc" "valmap_ok (sc_valmap sc)" "\<not> allow_redecl sc"
    "E = frame_of sc # E'"
    using assms by (elim env_of_top) auto
  obtain vm where vm: "valmap_ok vm" "valmap_abs vm = spec_set OW_NO_OVERWRITE True (valmap_abs (sc_valmap sc)) x v c"
    "valmap_set_no_overwrite (sc_valmap sc) x v c True = Inr (vm, spec_status OW_NO_OVERWRITE True (valmap_abs (sc_valmap sc) x), None)"
    using vm.declare_law [OF top(3), of x v c] by auto
  let ?m = "m\<lparr> m_scopes := (m_scopes m)[a := Some (sc\<lparr> sc_valmap := vm \<rparr>)] \<rparr>"
  have here: "env_of ?m a (frame_of (sc\<lparr> sc_valmap := vm \<rparr>) # E')"
    using assms top vm(1) by (intro env_of_put [where sc = sc]) auto
  show ?thesis
  proof (rule that)
    show "scope_declare_identifier n (Some a) x v c m = Inr (if fst (hd E) x = None then VAL_SET_OK else VAL_SET_EXISTS, ?m)"
      using top(4,5) on_valmap_Some [OF top(1,2), of "\<lambda>vm. valmap_set_no_overwrite vm x v c True", OF vm(3)]
      by (simp add: scope_declare_identifier_def sbind_step at_addr_Some [of a m_scopes m, OF top(1,2)] frame_of_def spec_status_def
          split: option.splits)
    have "env_declare E x v c = frame_of (sc\<lparr> sc_valmap := vm \<rparr>) # E'"
      using top(5) vm(2) by (auto simp: frame_of_def spec_set_def spec_status_def spec_put_def split: option.splits)
    with here show "env_of ?m a (env_declare E x v c)" by simp
  qed (rule scopes_only_put [OF top(1,2)])
qed

lemma replace_env:
  assumes "env_of m a E"
  obtains m' where "on_valmap n (Some a) (\<lambda>vm. valmap_set_default vm x v c False) m = Inr (VAL_SET_OK, m')"
    "env_of m' a (env_replace E x v c)" "scopes_only a m m'"
proof -
  obtain sc E' where top: "a < length (m_scopes m)" "m_scopes m ! a = Some sc" "valmap_ok (sc_valmap sc)" "\<not> allow_redecl sc"
    "E = frame_of sc # E'"
    using assms by (elim env_of_top) auto
  obtain vm where vm: "valmap_ok vm" "valmap_abs vm = spec_put (valmap_abs (sc_valmap sc)) x v c"
    "valmap_set_default (sc_valmap sc) x v c False = Inr (vm, VAL_SET_OK, None)"
    using vm.replace_law [OF top(3), of x v c] by auto
  let ?m = "m\<lparr> m_scopes := (m_scopes m)[a := Some (sc\<lparr> sc_valmap := vm \<rparr>)] \<rparr>"
  have "env_of ?m a (frame_of (sc\<lparr> sc_valmap := vm \<rparr>) # E')"
    using assms top vm(1) by (intro env_of_put [where sc = sc]) auto
  moreover have "env_replace E x v c = frame_of (sc\<lparr> sc_valmap := vm \<rparr>) # E'"
    using top(5) vm(2) by (simp add: frame_of_def)
  ultimately show ?thesis
    using on_valmap_Some [OF top(1,2), of "\<lambda>vm. valmap_set_default vm x v c False", OF vm(3)]
    by (intro that [of ?m]) (simp_all add: scopes_only_put [OF top(1,2)])
qed

section \<open>Nodes on environments\<close>

lemma eval_identifier_env:
  assumes "env_of m a E"
  shows "eval_identifier (Some a) l x m =
    (case env_lookup E x of Some (v, c) \<Rightarrow> Inr (v, m) | None \<Rightarrow> error_at l (''use of undeclared identifier '' @ quoted x) m)"
proof -
  obtain r where "scope_resolve_identifier (Some a) x m = Inr (r, m)" "resolved E x m r"
    using assms by (rule resolve_env)
  then show ?thesis
    by (auto simp: eval_identifier_def sbind_step resolved_def split: option.splits)
qed

definition var_decl_env :: "'v frame list \<Rightarrow> string \<Rightarrow> 'v \<Rightarrow> bool \<Rightarrow> 'v frame list" where
  "var_decl_env E x v c = (if snd (hd E) then env_replace E x v c else env_declare E x v c)"

text \<open>After the value has been computed.\<close>

lemma eval_var_decl_env:
  assumes "env_of m a E" and "(case e of None \<Rightarrow> sret null_val | Some e \<Rightarrow> ev (Some a) e) m0 = Inr (v, m)"
  obtains (redeclared) m' where "\<not> snd (hd E)" "fst (hd E) x \<noteq> None"
      "eval_var_decl n ev (Some a) l x c e m0 = error_at l (''cannot redeclare identifier '' @ quoted x) m'"
  | (declared) m' w where "snd (hd E) \<or> fst (hd E) x = None" "eval_var_decl n ev (Some a) l x c e m0 = Inr (w, m')"
      "val_data w = VAL_NULL" "self_ptr w = None" "env_of m' a (var_decl_env E x v c)" "scopes_only a m m'"
proof -
  obtain sc E' where top: "a < length (m_scopes m)" "m_scopes m ! a = Some sc" "E = frame_of sc # E'"
    using assms(1) by (elim env_of_top) auto
  have reuse: "snd (hd E) \<longleftrightarrow> sc_mode sc = SC_MODE_REUSE \<and> unique_id sc = prev_unique_id sc"
    using top(3) by (simp add: frame_of_def)
  have step: "eval_var_decl n ev (Some a) l x c e m0 =
      (if snd (hd E) then sbind (on_valmap n (Some a) (\<lambda>vm. valmap_set_default vm x v c False)) (\<lambda>_. sret BLAZE_NULL) m
       else sbind (scope_declare_identifier n (Some a) x v c) (\<lambda>status.
         if status = VAL_SET_EXISTS then error_at l (''cannot redeclare identifier '' @ quoted x) else sret null_val) m)"
    unfolding eval_var_decl_def reuse
    by (rule trans, rule sbind_Inr, rule assms(2)) (simp add: sbind_step at_addr_Some [of a m_scopes m, OF top(1,2)])
  show ?thesis
  proof (cases "snd (hd E)")
    case True
    obtain m' where "on_valmap n (Some a) (\<lambda>vm. valmap_set_default vm x v c False) m = Inr (VAL_SET_OK, m')"
      "env_of m' a (env_replace E x v c)" "scopes_only a m m'"
      using assms(1) by (rule replace_env)
    with True step show ?thesis
      by (intro declared [of BLAZE_NULL m']) (simp_all add: sbind_step BLAZE_NULL_def val_init_def var_decl_env_def)
  next
    case False
    obtain m' where "scope_declare_identifier n (Some a) x v c m = Inr (if fst (hd E) x = None then VAL_SET_OK else VAL_SET_EXISTS, m')"
      "env_of m' a (env_declare E x v c)" "scopes_only a m m'"
      using assms(1) by (rule declare_env)
    with False step show ?thesis
      by (cases "fst (hd E) x") (auto simp: sbind_step null_val_def var_decl_env_def intro: declared redeclared)
  qed
qed

end
