(* ===== verification/Block_Semantics.thy ===== *)
theory Block_Semantics
  imports Scope_Env
begin

text \<open>
  A reference semantics for the part of the language without strings, arrays and functions of the
  program: integers, Booleans, null and the floating-point quotients, variables and constants,
  blocks, conditionals, loops, and printing. The state is a stack of maps and the output so far;
  there are no hash tables, no heap, no scopes to be freed, and the built-in functions are not in
  the maps.
\<close>

section \<open>The fragment\<close>

definition builtin_names :: "string list" where
  "builtin_names = [''println'', ''print'', ''vector'', ''array_filter'', ''read'', ''exit'']"

text \<open>
  The arguments of a call are expressions without assignments: an assignment may move the table
  that holds the function being called.
\<close>

fun pure_expr :: "ast_node \<Rightarrow> bool" where
  "pure_expr (NODE_INT_LIT l i) = True"
| "pure_expr (NODE_IDENTIFIER l x) = (x \<notin> set builtin_names)"
| "pure_expr (NODE_BINARY_EXPR l op a b) = ((\<forall>c. op \<noteq> OP_RAW c) \<and> pure_expr a \<and> pure_expr b)"
| "pure_expr _ = False"

fun in_fragment :: "ast_node \<Rightarrow> bool" where
  "in_fragment (NODE_INT_LIT l i) = True"
| "in_fragment (NODE_IDENTIFIER l x) = (x \<notin> set builtin_names)"
| "in_fragment (NODE_BINARY_EXPR l op a b) = ((\<forall>c. op \<noteq> OP_RAW c) \<and> in_fragment a \<and> in_fragment b)"
| "in_fragment (NODE_VAR_DECL l x c v) = (x \<notin> set builtin_names \<and> (case v of None \<Rightarrow> True | Some e \<Rightarrow> in_fragment e))"
| "in_fragment (NODE_ASSIGNMENT l a v) = ((case a of NODE_IDENTIFIER l x \<Rightarrow> x \<notin> set builtin_names | _ \<Rightarrow> False) \<and> in_fragment v)"
| "in_fragment (NODE_EXPR_CALL l f args) = (f \<in> {''println'', ''print''} \<and> args \<noteq> [] \<and> (\<forall>e \<in> set args. pure_expr e))"
| "in_fragment (NODE_BLOCK l ns) = (\<forall>e \<in> set ns. in_fragment e)"
| "in_fragment (NODE_ROOT l ns) = (\<forall>e \<in> set ns. in_fragment e)"
| "in_fragment (NODE_IF_STMT l c t e) = (in_fragment c \<and> in_fragment t \<and> (case e of None \<Rightarrow> True | Some b \<Rightarrow> in_fragment b))"
| "in_fragment (NODE_LOOP_STMT l c x b) =
     ((case c of None \<Rightarrow> True | Some e \<Rightarrow> in_fragment e) \<and> (case x of None \<Rightarrow> True | Some y \<Rightarrow> y \<notin> set builtin_names) \<and> in_fragment b)"
| "in_fragment _ = False"

section \<open>Values\<close>

text \<open>An error at a position; a node without a position cannot report one.\<close>

definition error_from :: "string option \<Rightarrow> nat option \<Rightarrow> nat option \<Rightarrow> string \<Rightarrow> fault" where
  "error_from filename line column msg =
     (if filename = None \<or> line = None \<or> column = None
      then Undefined ''location of an error read from a node that has none''
      else Runtime_error line column msg)"

definition error_of :: "loc \<Rightarrow> string \<Rightarrow> fault" where
  "error_of l msg = error_from (lc_filename l) (lc_line_start l) (lc_column_start l) msg"

lemma error_at_apply: "error_at l msg m = Inl (error_of l msg)"
  by (simp add: error_at_def runtime_error_def error_of_def error_from_def)

lemma runtime_error_apply: "runtime_error f a b msg m = Inl (error_from f a b msg)"
  by (simp add: runtime_error_def error_from_def)

definition number_of :: "val_data \<Rightarrow> int" where
  "number_of d = (case d of VAL_INTEGER i \<Rightarrow> i | VAL_NULL \<Rightarrow> 0 | VAL_BOOLEAN b \<Rightarrow> (if b then 1 else 0) | _ \<Rightarrow> 1)"

text \<open>Values that are integers, floating-point numbers, null or Boolean.\<close>

fun simple :: "val_data \<Rightarrow> bool" where
  "simple (VAL_INTEGER i) = True"
| "simple (VAL_FLOAT x) = True"
| "simple VAL_NULL = True"
| "simple (VAL_BOOLEAN b) = True"
| "simple _ = False"

text \<open>
  Comparisons are between the numbers of the two values; \<^verbatim>\<open>===\<close> and \<^verbatim>\<open>!==\<close> also
  want the types to be equal.
\<close>

fun compare_op :: "ast_bin_operator \<Rightarrow> val_data \<Rightarrow> val_data \<Rightarrow> bool option" where
  "compare_op OP_CMP_LT d e = Some (number_of d < number_of e)"
| "compare_op OP_CMP_GT d e = Some (number_of d > number_of e)"
| "compare_op OP_CMP_GE d e = Some (number_of d \<ge> number_of e)"
| "compare_op OP_CMP_LE d e = Some (number_of d \<le> number_of e)"
| "compare_op OP_CMP_EQ d e = Some (number_of d = number_of e)"
| "compare_op OP_CMP_EQ_S d e = Some (number_of d = number_of e \<and> val_type_number d = val_type_number e)"
| "compare_op OP_CMP_NE d e = Some (number_of d \<noteq> number_of e)"
| "compare_op OP_CMP_NE_S d e = Some (number_of d \<noteq> number_of e \<and> val_type_number d = val_type_number e)"
| "compare_op _ d e = None"

definition checked :: "int \<Rightarrow> val_data res" where
  "checked i = (if in_llong i then Inr (VAL_INTEGER i) else Inl (Undefined ''signed integer overflow''))"

fun arithmetic :: "ast_bin_operator \<Rightarrow> int \<Rightarrow> int \<Rightarrow> loc \<Rightarrow> val_data res" where
  "arithmetic OP_PLUS a b l = checked (a + b)"
| "arithmetic OP_MINUS a b l = checked (a - b)"
| "arithmetic OP_TIMES a b l = checked (a * b)"
| "arithmetic OP_DIVIDE a b l =
     (if b = 0 then Inl (error_of l (''cannot divide '' @ fmt_d a @ '' by zero'')) else Inr (VAL_FLOAT (fl_div a b)))"
| "arithmetic OP_MODULUS a b l =
     (if b = 0 then Inl (error_of l (''cannot divide '' @ fmt_d a @ '' by zero''))
      else if b = -1 \<and> a = llong_min then Inl (Undefined ''signed integer overflow'')
      else Inr (VAL_INTEGER (c_rem a b)))"
| "arithmetic op a b l = Inl (Fatal_error (''unsupported int operator '' @ op_shown op))"

definition binary_op :: "ast_bin_operator \<Rightarrow> val_data \<Rightarrow> val_data \<Rightarrow> loc \<Rightarrow> loc \<Rightarrow> val_data res" where
  "binary_op op d e l lright =
     (case compare_op op d e of
        Some b \<Rightarrow> Inr (VAL_BOOLEAN b)
      | None \<Rightarrow>
          (case (d, e) of
             (VAL_INTEGER a, VAL_INTEGER b) \<Rightarrow> arithmetic op a b lright
           | _ \<Rightarrow> Inl (error_of l (''unsupported binary operation (lhs: '' @ val_type_to_str d @ ''('' @ digits 10 (val_type_number d)
                    @ ''), rhs: '' @ val_type_to_str e @ ''('' @ digits 10 (val_type_number e) @ ''))''))))"

definition truthy :: "val_data \<Rightarrow> bool" where
  "truthy d \<longleftrightarrow> d \<noteq> VAL_NULL \<and> d \<noteq> VAL_BOOLEAN False \<and> d \<noteq> VAL_INTEGER 0"

definition shown :: "val_data \<Rightarrow> string" where
  "shown d =
     (case d of
        VAL_INTEGER i \<Rightarrow> esc ''1;33'' @ fmt_d i @ esc ''0''
      | VAL_FLOAT x \<Rightarrow> esc ''1;33'' @ fmt_Lf x @ esc ''0''
      | VAL_BOOLEAN b \<Rightarrow> esc ''36'' @ (if b then ''true'' else ''false'') @ esc ''0''
      | _ \<Rightarrow> esc ''2'' @ ''null'' @ esc ''0'')"

fun shown_list :: "val_data list \<Rightarrow> string" where
  "shown_list [] = []"
| "shown_list [d] = shown d"
| "shown_list (d # ds) = shown d @ '' '' @ shown_list ds"

section \<open>Statements\<close>

type_synonym rstate = "val_data frame list \<times> string"
type_synonym 'a rrun = "(rstate, 'a) st"
type_synonym ref_evaluator = "ast_node \<Rightarrow> val_data rrun"

definition on_frames :: "(val_data frame list \<Rightarrow> val_data frame list) \<Rightarrow> unit rrun" where
  "on_frames f = smod (\<lambda>(E, out). (f E, out))"

definition emit :: "string \<Rightarrow> unit rrun" where
  "emit s = smod (\<lambda>(E, out). (E, out @ s))"

fun ref_all :: "ref_evaluator \<Rightarrow> ast_node list \<Rightarrow> val_data list rrun" where
  "ref_all ev [] = sret []"
| "ref_all ev (e # es) = sbind (ev e) (\<lambda>d. sbind (ref_all ev es) (\<lambda>ds. sret (d # ds)))"

definition ref_identifier :: "loc \<Rightarrow> string \<Rightarrow> val_data rrun" where
  "ref_identifier l x =
     sbind (sget (\<lambda>(E, out). env_lookup E x)) (\<lambda>r.
     case r of None \<Rightarrow> sthrow (error_of l (''use of undeclared identifier '' @ quoted x)) | Some (d, c) \<Rightarrow> sret d)"

definition ref_var_decl :: "ref_evaluator \<Rightarrow> loc \<Rightarrow> string \<Rightarrow> bool \<Rightarrow> ast_node option \<Rightarrow> val_data rrun" where
  "ref_var_decl ev l x c v =
     sbind (case v of None \<Rightarrow> sret VAL_NULL | Some e \<Rightarrow> ev e) (\<lambda>d.
     sbind (sget (\<lambda>(E, out). \<not> snd (hd E) \<and> fst (hd E) x \<noteq> None)) (\<lambda>known.
     if known then sthrow (error_of l (''cannot redeclare identifier '' @ quoted x))
     else sbind (on_frames (\<lambda>E. var_decl_env E x d c)) (\<lambda>_. sret VAL_NULL)))"

definition ref_assignment :: "ref_evaluator \<Rightarrow> loc \<Rightarrow> loc \<Rightarrow> string \<Rightarrow> ast_node \<Rightarrow> val_data rrun" where
  "ref_assignment ev l la x v =
     sbind (ev v) (\<lambda>d.
     sbind (sget (\<lambda>(E, out). env_lookup E x)) (\<lambda>r.
     case r of
       None \<Rightarrow> sthrow (error_from (lc_filename l) (lc_line_start la) (lc_column_start la) (''use of undeclared identifier '' @ quoted x))
     | Some (w, c) \<Rightarrow>
         if c then sthrow (error_from (lc_filename l) (lc_line_start la) (lc_column_start la) (''cannot assign to constant '' @ quoted x))
         else sbind (on_frames (\<lambda>E. env_assign E x d)) (\<lambda>_. sret d)))"

text \<open>In a new frame, which is taken away afterwards.\<close>

definition ref_scoped :: "'a rrun \<Rightarrow> val_data rrun" where
  "ref_scoped c =
     sbind (on_frames (\<lambda>E. (\<lambda>_. None, False) # E)) (\<lambda>_.
     sbind c (\<lambda>_.
     sbind (on_frames tl) (\<lambda>_. sret VAL_NULL)))"

definition ref_block :: "ref_evaluator \<Rightarrow> ast_node list \<Rightarrow> val_data rrun" where
  "ref_block ev ns = ref_scoped (ref_all ev ns)"

definition ref_if :: "ref_evaluator \<Rightarrow> ast_node \<Rightarrow> ast_node \<Rightarrow> ast_node option \<Rightarrow> val_data rrun" where
  "ref_if ev c t e =
     sbind (ev c) (\<lambda>d.
     if truthy d then sbind (ev t) (\<lambda>_. sret VAL_NULL)
     else (case e of None \<Rightarrow> sret VAL_NULL | Some b \<Rightarrow> sbind (ev b) (\<lambda>_. sret VAL_NULL)))"

text \<open>One round; the body of a loop has no frame of its own if it is a block.\<close>

definition set_replaces :: "bool \<Rightarrow> unit rrun" where
  "set_replaces b = on_frames (\<lambda>E. (fst (hd E), b) # tl E)"

definition ref_round :: "ref_evaluator \<Rightarrow> string option \<Rightarrow> ast_node \<Rightarrow> int \<Rightarrow> int rrun" where
  "ref_round ev x body i =
     sbind (set_replaces (i \<noteq> 0)) (\<lambda>_.
     sbind (case body of NODE_BLOCK l ns \<Rightarrow> sbind (ref_all ev ns) (\<lambda>_. sret VAL_NULL) | _ \<Rightarrow> ev body) (\<lambda>_.
     if \<not> in_llong (i + 1) then sthrow (Undefined ''signed integer overflow'')
     else
     sbind (set_replaces False) (\<lambda>_.
     sbind (case x of None \<Rightarrow> sret () | Some y \<Rightarrow> on_frames (\<lambda>E. env_replace E y (VAL_INTEGER (i + 1)) True)) (\<lambda>_.
     sret (i + 1)))))"

definition ref_loop :: "nat \<Rightarrow> ref_evaluator \<Rightarrow> loc \<Rightarrow> ast_node option \<Rightarrow> string option \<Rightarrow> ast_node \<Rightarrow> val_data rrun" where
  "ref_loop n ev l c x body =
     sbind (case c of None \<Rightarrow> sret (VAL_BOOLEAN True) | Some e \<Rightarrow> ev e) (\<lambda>count.
     sbind (case count of
              VAL_BOOLEAN b \<Rightarrow> sret ()
            | VAL_INTEGER k \<Rightarrow> if k < 0 then sthrow (error_of l ''the iteration count must not be a negative number'') else sret ()
            | d \<Rightarrow> sthrow (error_of l (''type '' @ quoted (val_type_to_str d) @ '' is not iterable''))) (\<lambda>_.
     ref_scoped
       (sbind (case x of None \<Rightarrow> sret () | Some y \<Rightarrow> on_frames (\<lambda>E. env_declare E y (VAL_INTEGER 0) True)) (\<lambda>_.
        loop_rounds n (loop_goes_on count) (ref_round ev x body) 0))))"

definition ref_print :: "ref_evaluator \<Rightarrow> string \<Rightarrow> ast_node list \<Rightarrow> val_data rrun" where
  "ref_print ev f args =
     sbind (ref_all ev args) (\<lambda>ds.
     sbind (emit (shown_list ds @ (if f = ''println'' then [newline] else []))) (\<lambda>_. sret VAL_NULL))"

definition ref_body :: "nat \<Rightarrow> ref_evaluator \<Rightarrow> ref_evaluator" where
  "ref_body n ev node =
     (case node of
        NODE_INT_LIT l i \<Rightarrow> sret (VAL_INTEGER i)
      | NODE_IDENTIFIER l x \<Rightarrow> ref_identifier l x
      | NODE_BINARY_EXPR l op a b \<Rightarrow> sbind (ev a) (\<lambda>d. sbind (ev b) (\<lambda>e. slift (binary_op op d e l (node_loc b))))
      | NODE_VAR_DECL l x c v \<Rightarrow> ref_var_decl ev l x c v
      | NODE_ASSIGNMENT l a v \<Rightarrow> ref_assignment ev l (node_loc a) (identifier_symbol a) v
      | NODE_EXPR_CALL l f args \<Rightarrow> ref_print ev f args
      | NODE_BLOCK l ns \<Rightarrow> ref_block ev ns
      | NODE_ROOT l ns \<Rightarrow> sbind (ref_all ev ns) (\<lambda>ds. sret (if ds = [] then VAL_NULL else last ds))
      | NODE_IF_STMT l c t e \<Rightarrow> ref_if ev c t e
      | NODE_LOOP_STMT l c x b \<Rightarrow> ref_loop n ev l c x b
      | _ \<Rightarrow> sthrow (Fatal_error ''outside the fragment''))"

text \<open>The fuel bounds the depth of the tree and the rounds of a loop.\<close>

fun ref_eval :: "nat \<Rightarrow> ref_evaluator" where
  "ref_eval 0 node = sthrow Out_of_fuel"
| "ref_eval (Suc n) node = ref_body n (ref_eval n) node"

text \<open>A program starts with the three constants in its one frame.\<close>

definition ref_run :: "nat \<Rightarrow> ast_node \<Rightarrow> string res" where
  "ref_run n node =
     rbind (ref_eval n node ([([''true'' \<mapsto> (VAL_BOOLEAN True, True), ''false'' \<mapsto> (VAL_BOOLEAN False, True),
         ''null'' \<mapsto> (VAL_NULL, True)], False)], []))
       (\<lambda>(d, E, out). Inr out)"

end
