(* ===== verification/Block_Refinement.thy ===== *)
theory Block_Refinement
  imports Block_Semantics
begin

text \<open>
  The evaluator implements the reference semantics of blocks: what the reference prints, or the
  error it ends with, is what the run of the program through the symbol tables, the scopes and the
  table of values prints or ends with.
\<close>

section \<open>Monadic facts\<close>

lemma val_at_cong: "m_tbl m = m_tbl m' \<Longrightarrow> val_at p m' = Inr (v, m') \<Longrightarrow> val_at p m = Inr (v, m)"
  by (auto simp: val_at_def sbind_def undefined_step_def split: val_ptr.splits if_splits)

lemma fn_at_cong: "m_fns m = m_fns m' \<Longrightarrow> fn_at p m' = Inr (f, m') \<Longrightarrow> fn_at p m = Inr (f, m)"
  by (auto simp: at_addr_def split: option.splits if_splits)

lemma scopes_only_trans2: "scopes_only a m1 m2 \<Longrightarrow> scopes_only a m m1 \<Longrightarrow> scopes_only a m m2"
  unfolding scopes_only_def
proof (elim conjE, intro conjI allI impI)
  assume a: "m2 = m1\<lparr> m_scopes := m_scopes m2 \<rparr>" "m1 = m\<lparr> m_scopes := m_scopes m1 \<rparr>"
    "length (m_scopes m2) = length (m_scopes m1)" "length (m_scopes m1) = length (m_scopes m)"
    "\<forall>b>a. m_scopes m2 ! b = m_scopes m1 ! b" "\<forall>b>a. m_scopes m1 ! b = m_scopes m ! b"
    "\<forall>b<length (m_scopes m1). table_only (m_scopes m1 ! b) (m_scopes m2 ! b)"
    "\<forall>b<length (m_scopes m). table_only (m_scopes m ! b) (m_scopes m1 ! b)"
  show "m2 = m\<lparr> m_scopes := m_scopes m2 \<rparr>" using a(1,2) by (rule with_scopes_trans)
  show "length (m_scopes m2) = length (m_scopes m)" using a(3,4) by (rule trans)
  show "m_scopes m2 ! b = m_scopes m ! b" if "a < b" for b using a(5,6) that by metis
  show "table_only (m_scopes m ! b) (m_scopes m2 ! b)" if "b < length (m_scopes m)" for b
    using a(4,7,8) that by (metis table_only_trans)
qed

section \<open>The relation of states\<close>

definition plain :: "val_t \<Rightarrow> bool" where
  "plain v \<longleftrightarrow> self_ptr v = None \<and> simple (val_data v)"

definition val_rel :: "val_t \<Rightarrow> val_data \<Rightarrow> bool" where
  "val_rel v d \<longleftrightarrow> val_data v = d \<and> plain v"

text \<open>Where the scopes were, only their tables have changed.\<close>

definition scopes_kept :: "nat \<Rightarrow> machine \<Rightarrow> machine \<Rightarrow> bool" where
  "scopes_kept N m m' \<longleftrightarrow> length (m_scopes m) \<le> length (m_scopes m') \<and>
     (\<forall>b < N. table_only (m_scopes m ! b) (m_scopes m' ! b))"

lemma scopes_kept_refl [simp]: "scopes_kept N m m"
  by (simp add: scopes_kept_def)

lemma scopes_kept_trans: "scopes_kept N m m1 \<Longrightarrow> scopes_kept N m1 m2 \<Longrightarrow> scopes_kept N m m2"
  unfolding scopes_kept_def by (meson le_trans table_only_trans)

lemma scopes_kept_less: "scopes_kept M m m' \<Longrightarrow> N \<le> M \<Longrightarrow> scopes_kept N m m'"
  by (auto simp: scopes_kept_def)

lemma scopes_kept_put:
  "scopes_kept N m m' \<Longrightarrow> N \<le> a \<Longrightarrow> scopes_kept N m (m'\<lparr> m_scopes := (m_scopes m')[a := x] \<rparr>)"
  by (simp add: scopes_kept_def)

lemma scopes_only_kept: "scopes_only a m m' \<Longrightarrow> N \<le> length (m_scopes m) \<Longrightarrow> scopes_kept N m m'"
  unfolding scopes_kept_def using scopes_onlyD(2,4) [of a m m'] by (metis order_less_le_trans order_refl)

text \<open>
  \<open>base\<close> is the machine when the program starts, \<open>bv\<close> the values of the built-in functions.
\<close>

locale started =
  fixes base :: machine and bv :: "string \<Rightarrow> val_t option"
  assumes bv_names: "bv x \<noteq> None \<longleftrightarrow> x \<in> set builtin_names"
    and bv_kept: "bv x = Some v \<Longrightarrow> nofree v"
    and listed: "map fst (builtin_functions base) = builtin_names"
    and bv_at: "(x, b, p) \<in> set (builtin_functions base) \<Longrightarrow> \<exists>q v. p = Some q \<and> bv x = Some v \<and> val_at q base = Inr (v, base)"
    and println_fn: "\<exists>v f. bv ''println'' = Some v \<and> val_data v = VAL_FUNCTION f \<and> fn_at f base = Inr (FN_BUILT_IN (Some FN_println), base)"
    and print_fn: "\<exists>v f. bv ''print'' = Some v \<and> val_data v = VAL_FUNCTION f \<and> fn_at f base = Inr (FN_BUILT_IN (Some FN_print), base)"
    and no_error: "eval_fn_error base = None"
    and bv_fn: "bv x = Some v \<Longrightarrow> \<exists>a b. val_data v = VAL_FUNCTION (Some a) \<and> a < length (m_fns base) \<and> m_fns base ! a = Some (FN_BUILT_IN b)"
    and bv_inj: "bv x = Some v \<Longrightarrow> bv y = Some w \<Longrightarrow> val_data v = val_data w \<Longrightarrow> x = y"
    and cells_kept: "v \<in> set (tbl_values (m_tbl base)) \<Longrightarrow> nofree v"
begin

definition name_rel :: "string \<Rightarrow> (val_t \<times> bool) option \<Rightarrow> (val_data \<times> bool) option \<Rightarrow> bool" where
  "name_rel x p q \<longleftrightarrow>
     (case bv x of
        Some b \<Rightarrow> p = Some (b, True) \<and> q = None
      | None \<Rightarrow> (case p of None \<Rightarrow> q = None | Some (v, c) \<Rightarrow> q = Some (val_data v, c) \<and> plain v))"

definition frame_rel :: "val_t frame \<Rightarrow> val_data frame \<Rightarrow> bool" where
  "frame_rel f g \<longleftrightarrow> snd f = snd g \<and> (\<forall>x. name_rel x (fst f x) (fst g x))"

definition running :: "machine \<Rightarrow> bool" where
  "running m \<longleftrightarrow> m_tbl m = m_tbl base \<and> m_fns m = m_fns base \<and> builtin_functions m = builtin_functions base \<and> eval_fn_error m = None"

definition state_rel :: "machine \<Rightarrow> addr \<Rightarrow> rstate \<Rightarrow> bool" where
  "state_rel m a R \<longleftrightarrow> running m \<and> m_out m = snd R \<and> (\<exists>E. env_of m a E \<and> list_all2 frame_rel E (fst R))"

lemma sbind_fuel: "sbind rc rf R \<noteq> Inl Out_of_fuel \<Longrightarrow> rc R \<noteq> Inl Out_of_fuel"
  by (auto simp: sbind_def)

text \<open>
  \<open>c\<close> does what \<open>rc\<close> does, unless \<open>rc\<close> runs out of fuel.
\<close>

definition sim :: "nat \<Rightarrow> addr \<Rightarrow> ('a \<Rightarrow> 'b \<Rightarrow> bool) \<Rightarrow> 'b rrun \<Rightarrow> 'a run \<Rightarrow> bool" where
  "sim N a Q rc c \<longleftrightarrow> (\<forall>m R. state_rel m a R \<longrightarrow> N \<le> length (m_scopes m) \<longrightarrow> rc R \<noteq> Inl Out_of_fuel \<longrightarrow>
     (case rc R of
        Inl e \<Rightarrow> c m = Inl e
      | Inr (d, R') \<Rightarrow> \<exists>v m'. c m = Inr (v, m') \<and> Q v d \<and> state_rel m' a R' \<and> scopes_kept N m m'))"

lemma sim_ret: "Q v d \<Longrightarrow> sim N a Q (sret d) (sret v)"
  by (auto simp: sim_def)

lemma sim_throw: "(\<And>m. c m = Inl e) \<Longrightarrow> sim N a Q (sthrow e) c"
  by (simp add: sim_def)

lemma sim_bind:
  assumes "sim N a Q rc c" and "\<And>v d. Q v d \<Longrightarrow> sim N a P (rf d) (f v)"
  shows "sim N a P (sbind rc rf) (sbind c f)"
  unfolding sim_def
proof (intro allI impI)
  fix m :: machine and R
  assume s: "state_rel m a R" "N \<le> length (m_scopes m)" and ok: "sbind rc rf R \<noteq> Inl Out_of_fuel"
  then have first: "case rc R of Inl e \<Rightarrow> c m = Inl e
    | Inr (d, R1) \<Rightarrow> \<exists>v m1. c m = Inr (v, m1) \<and> Q v d \<and> state_rel m1 a R1 \<and> scopes_kept N m m1"
    using assms(1) sbind_fuel [OF ok] unfolding sim_def by blast
  show "case sbind rc rf R of Inl e \<Rightarrow> sbind c f m = Inl e
    | Inr (d, R2) \<Rightarrow> \<exists>v m2. sbind c f m = Inr (v, m2) \<and> P v d \<and> state_rel m2 a R2 \<and> scopes_kept N m m2"
  proof (cases "rc R")
    case (Inl e)
    with first show ?thesis by (simp add: sbind_def)
  next
    case (Inr r)
    then obtain d R1 v m1 where r: "rc R = Inr (d, R1)" "c m = Inr (v, m1)" "Q v d" "state_rel m1 a R1" "scopes_kept N m m1"
      using first by (cases r) auto
    have "N \<le> length (m_scopes m1)" using r(5) s(2) by (simp add: scopes_kept_def)
    moreover have "rf d R1 \<noteq> Inl Out_of_fuel" using ok r(1) by (simp add: sbind_def)
    ultimately have "case rf d R1 of Inl e \<Rightarrow> f v m1 = Inl e
      | Inr (d', R2) \<Rightarrow> \<exists>v' m2. f v m1 = Inr (v', m2) \<and> P v' d' \<and> state_rel m2 a R2 \<and> scopes_kept N m1 m2"
      using assms(2) [OF r(3)] r(4) unfolding sim_def by blast
    then show ?thesis
      using r(1,2,5) by (auto simp: sbind_def split: sum.splits intro: scopes_kept_trans)
  qed
qed

lemma sim_mono: "sim N a Q rc c \<Longrightarrow> (\<And>v d. Q v d \<Longrightarrow> P v d) \<Longrightarrow> sim N a P rc c"
  unfolding sim_def by (intro allI impI, elim allE impE, assumption+) (auto split: sum.splits)

text \<open>Computations that leave the state as it is.\<close>

definition pure_sim :: "addr \<Rightarrow> ('a \<Rightarrow> 'b \<Rightarrow> bool) \<Rightarrow> 'b rrun \<Rightarrow> 'a run \<Rightarrow> bool" where
  "pure_sim a Q rc c \<longleftrightarrow> (\<forall>m R. state_rel m a R \<longrightarrow> rc R \<noteq> Inl Out_of_fuel \<longrightarrow>
     (case rc R of Inl e \<Rightarrow> c m = Inl e | Inr (d, R') \<Rightarrow> R' = R \<and> (\<exists>v. c m = Inr (v, m) \<and> Q v d)))"

lemma pure_sim_sim: "pure_sim a Q rc c \<Longrightarrow> sim N a Q rc c"
  unfolding pure_sim_def sim_def by (intro allI impI, elim allE impE, assumption+) (auto split: sum.splits)

lemma pure_sim_ret: "Q v d \<Longrightarrow> pure_sim a Q (sret d) (sret v)"
  by (auto simp: pure_sim_def)

lemma pure_sim_bind:
  assumes "pure_sim a Q rc c" and "\<And>v d. Q v d \<Longrightarrow> pure_sim a P (rf d) (f v)"
  shows "pure_sim a P (sbind rc rf) (sbind c f)"
  unfolding pure_sim_def
proof (intro allI impI)
  fix m :: machine and R
  assume s: "state_rel m a R" and ok: "sbind rc rf R \<noteq> Inl Out_of_fuel"
  then have first: "case rc R of Inl e \<Rightarrow> c m = Inl e | Inr (d, R1) \<Rightarrow> R1 = R \<and> (\<exists>v. c m = Inr (v, m) \<and> Q v d)"
    using assms(1) sbind_fuel [OF ok] unfolding pure_sim_def by blast
  show "case sbind rc rf R of Inl e \<Rightarrow> sbind c f m = Inl e
    | Inr (d, R2) \<Rightarrow> R2 = R \<and> (\<exists>v. sbind c f m = Inr (v, m) \<and> P v d)"
  proof (cases "rc R")
    case (Inr r)
    then obtain d v where r: "rc R = Inr (d, R)" "c m = Inr (v, m)" "Q v d"
      using first by (cases r) auto
    have "rf d R \<noteq> Inl Out_of_fuel" using ok r(1) by (simp add: sbind_def)
    then have "case rf d R of Inl e \<Rightarrow> f v m = Inl e | Inr (d', R2) \<Rightarrow> R2 = R \<and> (\<exists>v'. f v m = Inr (v', m) \<and> P v' d')"
      using assms(2) [OF r(3)] s unfolding pure_sim_def by blast
    then show ?thesis using r(1,2) by (auto simp: sbind_def split: sum.splits)
  qed (use first in \<open>simp add: sbind_def\<close>)
qed

section \<open>Environments\<close>

lemma name_rel_iff:
  "bv x = None \<Longrightarrow> name_rel x p q \<longleftrightarrow> (case p of None \<Rightarrow> q = None | Some (v, c) \<Rightarrow> q = Some (val_data v, c) \<and> plain v)"
  by (simp add: name_rel_def)

lemma frame_rel_at:
  assumes "frame_rel (f, r) (g, r')"
  shows "bv x = None \<Longrightarrow> case f x of None \<Rightarrow> g x = None | Some (v, c) \<Rightarrow> g x = Some (val_data v, c) \<and> plain v" "r' = r"
  using assms unfolding frame_rel_def by (simp_all add: name_rel_iff [symmetric])

lemma lookup_rel:
  assumes "list_all2 frame_rel E G" "bv x = None"
  shows "case env_lookup E x of None \<Rightarrow> env_lookup G x = None | Some (v, c) \<Rightarrow> env_lookup G x = Some (val_data v, c) \<and> plain v"
  using assms(1)
proof (induction E G rule: list_all2_induct)
  case (Cons f E g G)
  obtain f' r g' r' where "f = (f', r)" "g = (g', r')" by (cases f, cases g)
  with Cons frame_rel_at(1) [of f' r g' r' x] assms(2) show ?case by (auto split: option.splits)
qed simp

lemma frame_rel_upd:
  assumes "frame_rel (f, r) (g, r')" "bv x = None" "plain v"
  shows "frame_rel (f(x \<mapsto> (v, c)), r) (g(x \<mapsto> (val_data v, c)), r')"
  using assms by (auto simp: frame_rel_def name_rel_iff)

lemma assign_rel:
  assumes "list_all2 frame_rel E G" "bv x = None" "plain v"
  shows "list_all2 frame_rel (env_assign E x v) (env_assign G x (val_data v))"
  using assms(1)
proof (induction E G rule: list_all2_induct)
  case (Cons f E g G)
  obtain f' r g' r' where fg: "f = (f', r)" "g = (g', r')" by (cases f, cases g)
  note fr = Cons(1) [unfolded fg]
  show ?case
    using Cons frame_rel_at(1) [OF fr assms(2)] frame_rel_upd [OF fr assms(2,3), of False]
    by (auto simp: fg split: option.splits)
qed simp

lemma declare_rel:
  assumes "list_all2 frame_rel E G" "bv x = None" "plain v"
  shows "list_all2 frame_rel (env_declare E x v c) (env_declare G x (val_data v) c)"
    "list_all2 frame_rel (env_replace E x v c) (env_replace G x (val_data v) c)"
    "list_all2 frame_rel (var_decl_env E x v c) (var_decl_env G x (val_data v) c)"
proof -
  show d: "list_all2 frame_rel (env_declare E x v c) (env_declare G x (val_data v) c)"
    and r: "list_all2 frame_rel (env_replace E x v c) (env_replace G x (val_data v) c)"
  proof (atomize (full), cases E)
    case (Cons f E')
    then obtain g G' where G: "G = g # G'" "frame_rel f g" "list_all2 frame_rel E' G'"
      using assms(1) by (auto simp: list_all2_Cons1)
    obtain f' r g' r' where fg: "f = (f', r)" "g = (g', r')" by (cases f, cases g)
    note fr = G(2) [unfolded fg]
    show "list_all2 frame_rel (env_declare E x v c) (env_declare G x (val_data v) c) \<and>
        list_all2 frame_rel (env_replace E x v c) (env_replace G x (val_data v) c)"
      using G Cons frame_rel_at(1) [OF fr assms(2)] frame_rel_upd [OF fr assms(2,3)]
      by (auto simp: fg spec_put_def split: option.splits)
  qed (use assms(1) in simp)
  have "E = [] \<and> G = [] \<or> snd (hd E) = snd (hd G)"
    using assms(1) by (cases E; cases G) (auto simp: frame_rel_def)
  then show "list_all2 frame_rel (var_decl_env E x v c) (var_decl_env G x (val_data v) c)"
    using d r by (auto simp: var_decl_env_def)
qed

lemma state_rel_after:
  assumes "state_rel m a R" "scopes_only a m m'" "env_of m' a E" "list_all2 frame_rel E G"
  shows "state_rel m' a (G, snd R)"
proof -
  obtain h where "m' = m\<lparr> m_scopes := h \<rparr>" using scopes_onlyD(1) [OF assms(2)] by blast
  with assms show ?thesis by (auto simp: state_rel_def running_def)
qed

section \<open>Expressions and declarations\<close>

lemma pure_identifier:
  assumes "bv x = None"
  shows "pure_sim a val_rel (ref_identifier l x) (eval_identifier (Some a) l x)"
  unfolding pure_sim_def
proof (intro allI impI)
  fix m :: machine and R
  assume "state_rel m a R"
  then obtain E where E: "env_of m a E" "list_all2 frame_rel E (fst R)" by (auto simp: state_rel_def)
  note at = eval_identifier_env [OF E(1), of l x]
  show "case ref_identifier l x R of Inl e \<Rightarrow> eval_identifier (Some a) l x m = Inl e
      | Inr (d, R') \<Rightarrow> R' = R \<and> (\<exists>v. eval_identifier (Some a) l x m = Inr (v, m) \<and> val_rel v d)"
    using lookup_rel [OF E(2) assms]
    by (auto simp: at ref_identifier_def sbind_def split_def error_at_apply val_rel_def split: option.splits)
qed

lemma sim_var_decl:
  assumes "bv x = None" and e: "case v of None \<Rightarrow> True | Some e \<Rightarrow> sim N a val_rel (re e) (ev (Some a) e)"
  shows "sim N a val_rel (ref_var_decl re l x c v) (eval_var_decl n ev (Some a) l x c v)"
  unfolding sim_def
proof (intro allI impI)
  fix m :: machine and R
  assume m: "state_rel m a R" "N \<le> length (m_scopes m)" and ok: "ref_var_decl re l x c v R \<noteq> Inl Out_of_fuel"
  let ?rv = "case v of None \<Rightarrow> sret VAL_NULL | Some e \<Rightarrow> re e" and ?v = "case v of None \<Rightarrow> sret null_val | Some e \<Rightarrow> ev (Some a) e"
  have "sim N a val_rel ?rv ?v"
    using e by (cases v) (auto intro: sim_ret simp: val_rel_def null_val_def plain_def)
  then have first: "case ?rv R of Inl e \<Rightarrow> ?v m = Inl e
    | Inr (d, R1) \<Rightarrow> \<exists>v m1. ?v m = Inr (v, m1) \<and> val_rel v d \<and> state_rel m1 a R1 \<and> scopes_kept N m m1"
    using m sbind_fuel [OF ok [unfolded ref_var_decl_def]] unfolding sim_def by blast
  show "case ref_var_decl re l x c v R of Inl e \<Rightarrow> eval_var_decl n ev (Some a) l x c v m = Inl e
    | Inr (d, R') \<Rightarrow> \<exists>w m'. eval_var_decl n ev (Some a) l x c v m = Inr (w, m') \<and> val_rel w d \<and> state_rel m' a R' \<and> scopes_kept N m m'"
  proof (cases "?rv R")
    case (Inl e)
    with first have "?v m = Inl e" by simp
    with Inl show ?thesis by (simp add: ref_var_decl_def eval_var_decl_def sbind_Inl)
  next
    case (Inr r)
    then obtain d E1 out1 w m1 where r: "?rv R = Inr (d, (E1, out1))" "?v m = Inr (w, m1)" "val_rel w d" "state_rel m1 a (E1, out1)" "scopes_kept N m m1"
      using first by (cases r) auto
    then obtain E where E: "env_of m1 a E" "list_all2 frame_rel E E1" by (auto simp: state_rel_def)
    obtain f q F where hd: "E = (f, q) # F" using env_of_nonempty [OF E(1)] by (cases E) auto
    obtain g q' G where hd0: "E1 = (g, q') # G" "frame_rel (f, q) (g, q')"
      using E(2) by (auto simp: hd list_all2_Cons1)
    then have hd1: "E1 = (g, q) # G" "frame_rel (f, q) (g, q)" using frame_rel_at(2) [OF hd0(2)] by simp_all
    have fg: "f x = None \<longleftrightarrow> g x = None" using frame_rel_at(1) [OF hd1(2) assms(1)] by (auto split: option.splits)
    have ref: "ref_var_decl re l x c v R =
        (if \<not> q \<and> g x \<noteq> None then Inl (error_of l (''cannot redeclare identifier '' @ quoted x))
         else Inr (VAL_NULL, (var_decl_env E1 x d c, out1)))"
      unfolding ref_var_decl_def by (simp add: sbind_Inr [of ?rv, OF r(1)] hd1(1)) (simp add: sbind_def on_frames_def hd1(1))
    show ?thesis
    proof (cases rule: eval_var_decl_env [where e = v and ev = ev and v = w and n = n and l = l and x = x and c = c, OF E(1) r(2)])
      case (1 m')
      then show ?thesis using fg by (simp add: ref hd error_at_apply)
    next
      case (2 m' u)
      have N: "N \<le> length (m_scopes m1)" using m(2) r(5) by (simp add: scopes_kept_def)
      have "list_all2 frame_rel (var_decl_env E x w c) (var_decl_env E1 x d c)"
        using declare_rel(3) [OF E(2) assms(1), of w c] r(3) by (simp add: val_rel_def)
      then have "state_rel m' a (var_decl_env E1 x d c, out1)"
        using state_rel_after [OF r(4) 2(6,5)] by simp
      with 2 show ?thesis
        using fg scopes_kept_trans [OF r(5) scopes_only_kept [OF 2(6) N]]
        by (auto simp: ref hd val_rel_def plain_def)
    qed
  qed
qed

lemma identifier_loc: "node_loc (NODE_IDENTIFIER l x) = l"
  by (simp add: node_loc_def)

lemma sim_assignment:
  assumes "bv x = None" and "sim N a val_rel (re v) (ev (Some a) v)"
  shows "sim N a val_rel (ref_assignment re l la x v) (eval_assignment n ev (Some a) l (NODE_IDENTIFIER la x) v)"
  unfolding ref_assignment_def eval_assignment_def Let_def identifier_loc identifier_symbol.simps
proof (rule sim_bind, rule assms(2))
  fix w d assume w: "val_rel w d"
  show "sim N a val_rel
     (sbind (sget (\<lambda>(E, out). env_lookup E x)) (\<lambda>r. case r of
        None \<Rightarrow> sthrow (error_from (lc_filename l) (lc_line_start la) (lc_column_start la) (''use of undeclared identifier '' @ quoted x))
      | Some (w, c) \<Rightarrow>
          if c then sthrow (error_from (lc_filename l) (lc_line_start la) (lc_column_start la) (''cannot assign to constant '' @ quoted x))
          else sbind (on_frames (\<lambda>E. env_assign E x d)) (\<lambda>_. sret d)))
     (sbind (scope_assign_identifier n (Some a) x w) (\<lambda>status.
        if status = VAL_SET_NOT_FOUND
        then runtime_error (lc_filename l) (lc_line_start la) (lc_column_start la) (''use of undeclared identifier '' @ quoted x)
        else if status = VAL_SET_IS_CONST
        then runtime_error (lc_filename l) (lc_line_start la) (lc_column_start la) (''cannot assign to constant '' @ quoted x)
        else sret w))" (is "sim N a val_rel ?rc ?c")
    unfolding sim_def
  proof (intro allI impI)
    fix m :: machine and R
    assume m: "state_rel m a R" "N \<le> length (m_scopes m)"
    then obtain E where E: "env_of m a E" "list_all2 frame_rel E (fst R)" by (auto simp: state_rel_def)
    obtain m' where m': "scope_assign_identifier n (Some a) x w m = Inr (assign_status (env_lookup E x), m')"
      "env_of m' a (env_assign E x w)" "scopes_only a m m'"
      using E(1) by (rule assign_env)
    have "list_all2 frame_rel (env_assign E x w) (env_assign (fst R) x d)"
      using assign_rel [OF E(2) assms(1), of w] w by (simp add: val_rel_def)
    then have after: "state_rel m' a (env_assign (fst R) x d, snd R)" by (rule state_rel_after [OF m(1) m'(3,2)])
    show "case ?rc R of Inl e \<Rightarrow> ?c m = Inl e
      | Inr (d, R') \<Rightarrow> \<exists>v m'. ?c m = Inr (v, m') \<and> val_rel v d \<and> state_rel m' a R' \<and> scopes_kept N m m'"
      using lookup_rel [OF E(2) assms(1)] after w scopes_only_kept [OF m'(3) m(2)]
      by (auto simp: sbind_step m'(1) sbind_def [of "sget f" for f] on_frames_def sbind_def [of "smod f" for f] split_def
          assign_status_def runtime_error_apply split: option.splits)
  qed
qed

section \<open>Operators\<close>

lemma op_numbers:
  assumes "\<forall>c. op \<noteq> OP_RAW c"
  shows "(op_number OP_CMP_LT \<le> op_number op \<and> op_number op \<le> op_number OP_CMP_NE_S) \<longleftrightarrow> compare_op op d e \<noteq> None"
  using assms by (cases op) auto

lemma val_to_int_number: "val_to_int v = number_of (val_data v)"
  by (simp add: val_to_int_def number_of_def)

lemma simple_no_string: "simple d \<Longrightarrow> val_type_number d \<noteq> 2"
  by (cases d) auto

lemma cmp_generic_simple:
  assumes "simple (val_data v)" "simple (val_data w)" "compare_op op (val_data v) (val_data w) = Some b"
  shows "eval_binexp_cmp_generic op v w l = sret (val_init (VAL_BOOLEAN b))"
  using assms
  by (cases op) (auto simp: eval_binexp_cmp_generic_def simple_no_string val_to_int_number same_type_def)

lemma int_op_arithmetic:
  assumes "compare_op op d e = None" "\<forall>c. op \<noteq> OP_RAW c"
  shows "eval_binexp_int op i j l m = (case arithmetic op i j l of Inl e \<Rightarrow> Inl e | Inr d \<Rightarrow> Inr (val_init d, m))"
  using assms
  by (cases op) (auto simp: eval_binexp_int_def int_result_def checked_def undefined_step_def error_at_apply)

lemma pure_binary_op:
  assumes "\<forall>c. op \<noteq> OP_RAW c" "val_rel v d" "val_rel w e"
  shows "pure_sim a val_rel (slift (binary_op op d e l lr))
    (if op_number OP_CMP_LT \<le> op_number op \<and> op_number op \<le> op_number OP_CMP_NE_S
     then eval_binexp_cmp_generic op v w ll
     else (case (val_data v, val_data w) of
             (VAL_INTEGER a, VAL_INTEGER b) \<Rightarrow> eval_binexp_int op a b lr
           | (dl, dr) \<Rightarrow>
               if val_type_number dl = 2 \<or> val_type_number dr = 2
               then eval_binexp_string op v w ll
               else error_at l (''unsupported binary operation (lhs: '' @ val_type_to_str dl @ ''('' @ digits 10 (val_type_number dl)
                      @ ''), rhs: '' @ val_type_to_str dr @ ''('' @ digits 10 (val_type_number dr) @ ''))'')))"
proof -
  have vw: "val_data v = d" "val_data w = e" "simple d" "simple e" using assms(2,3) by (auto simp: val_rel_def plain_def)
  show ?thesis
  proof (cases "compare_op op d e")
    case (Some b)
    then show ?thesis
      using cmp_generic_simple [of v w op b ll] vw
      unfolding op_numbers [OF assms(1), of d e]
      by (auto simp: pure_sim_def binary_op_def val_rel_def plain_def val_init_def)
  next
    case None
    have int: "pure_sim a val_rel (slift (arithmetic op i j lr)) (eval_binexp_int op i j lr)" for i j
    proof -
      have "simple x" if "arithmetic op i j lr = Inr x" for x
        using that None assms(1) by (cases op) (auto simp: checked_def split: if_splits)
      then show ?thesis
        by (auto simp: pure_sim_def int_op_arithmetic [OF None assms(1)] slift_def val_rel_def plain_def val_init_def split: sum.splits)
    qed
    show ?thesis
      using None vw int simple_no_string [of d] simple_no_string [of e]
      unfolding op_numbers [OF assms(1), of d e]
      by (cases d; cases e) (auto simp: binary_op_def pure_sim_def error_at_apply)
  qed
qed

lemma sim_binexp:
  assumes "\<forall>c. op \<noteq> OP_RAW c" "sim N a val_rel (re x) (ev (Some a) x)" "sim N a val_rel (re y) (ev (Some a) y)"
  shows "sim N a val_rel (sbind (re x) (\<lambda>d. sbind (re y) (\<lambda>e. slift (binary_op op d e l (node_loc y))))) (eval_binexp ev (Some a) l op x y)"
  unfolding eval_binexp_def
  by (intro sim_bind [OF assms(2)] sim_bind [OF assms(3)] pure_sim_sim pure_binary_op assms(1))

lemma pure_binexp:
  assumes "\<forall>c. op \<noteq> OP_RAW c" "pure_sim a val_rel (re x) (ev (Some a) x)" "pure_sim a val_rel (re y) (ev (Some a) y)"
  shows "pure_sim a val_rel (sbind (re x) (\<lambda>d. sbind (re y) (\<lambda>e. slift (binary_op op d e l (node_loc y))))) (eval_binexp ev (Some a) l op x y)"
  unfolding eval_binexp_def
  by (intro pure_sim_bind [OF assms(2)] pure_sim_bind [OF assms(3)] pure_binary_op assms(1))

section \<open>Printing\<close>

definition args_rel :: "val_t list \<Rightarrow> val_data list \<Rightarrow> bool" where
  "args_rel vs ds \<longleftrightarrow> list_all2 val_rel vs ds"

lemma pure_args:
  assumes "\<And>e. e \<in> set es \<Longrightarrow> pure_sim a val_rel (re e) (ev (Some a) e)"
  shows "pure_sim a args_rel (ref_all re es) (eval_args ev (Some a) es)"
  using assms
proof (induction es)
  case (Cons e es)
  have rest: "pure_sim a args_rel (ref_all re es) (eval_args ev (Some a) es)" using Cons by simp
  show ?case
    unfolding ref_all.simps eval_args.simps
    by (rule pure_sim_bind [OF Cons.prems], simp, rule pure_sim_bind [OF rest], rule pure_sim_ret) (simp add: args_rel_def)
qed (simp add: pure_sim_ret args_rel_def)

lemma print_val_shown:
  assumes "val_rel v d"
  shows "(case val_data v of VAL_STRING s \<Rightarrow> sbind (str_at s) print_out | _ \<Rightarrow> print_val_internal (Suc n) v False) = print_out (shown d)"
  using assms by (cases d) (auto simp: val_rel_def plain_def print_val_body_def shown_def)

lemma print_args_shown:
  assumes "args_rel vs ds"
  shows "print_args (Suc n) vs m = Inr ((), m\<lparr> m_out := m_out m @ shown_list ds \<rparr>)"
  using assms unfolding args_rel_def
proof (induction vs ds arbitrary: m rule: list_all2_induct)
  case (Cons v vs d ds)
  have "shown_list (d # ds) = shown d @ (if vs = [] then [] else '' '' @ shown_list ds)"
    using Cons(2) by (cases ds) auto
  then show ?case
    using Cons by (simp add: print_val_shown print_out_def sbind_def)
qed simp

text \<open>A name of a built-in function is found at the top.\<close>

lemma lookup_builtin:
  assumes "list_all2 frame_rel E G" "E \<noteq> []" "bv x = Some b"
  shows "env_lookup E x = Some (b, True)"
proof -
  obtain f r E' g r' G' where fg: "E = (f, r) # E'" "G = (g, r') # G'" "frame_rel (f, r) (g, r')"
    using assms(1,2) by (cases E; cases G) auto
  have "name_rel x (f x) (g x)" using fg(3) by (simp add: frame_rel_def)
  then show ?thesis using fg(1) assms(3) by (simp add: name_rel_def)
qed

lemma sim_print:
  assumes f: "f \<in> {''println'', ''print''}" and "es \<noteq> []"
    and args: "\<And>e. e \<in> set es \<Longrightarrow> pure_sim a val_rel (re e) (ev (Some a) e)"
  shows "sim N a val_rel (ref_print re f es) (eval_expr_call (Suc n) ev (Some a) l f es)"
  unfolding sim_def
proof (intro allI impI)
  fix m :: machine and R
  assume m: "state_rel m a R" "N \<le> length (m_scopes m)" and ok: "ref_print re f es R \<noteq> Inl Out_of_fuel"
  obtain E where E: "env_of m a E" "list_all2 frame_rel E (fst R)" using m(1) by (auto simp: state_rel_def)
  obtain b fp bi where b: "bv f = Some b" "val_data b = VAL_FUNCTION fp" "fn_at fp base = Inr (FN_BUILT_IN (Some bi), base)"
    "bi = (if f = ''println'' then FN_println else FN_print)"
    using f println_fn print_fn by auto
  have run: "m_fns m = m_fns base" "eval_fn_error m = None" using m(1) by (simp_all add: state_rel_def running_def)
  obtain r where r: "scope_resolve_identifier (Some a) f m = Inr (r, m)" "resolved E f m r"
    using E(1) by (rule resolve_env)
  then obtain p where p: "r = Some p" "entry_at p m = Inr (b, m)"
    using lookup_builtin [OF E(2) env_of_nonempty [OF E(1)] b(1)] by (cases r) (auto simp: resolved_def)
  have fn: "fn_of_entry p m = Inr (FN_BUILT_IN (Some bi), m)"
    using fn_at_cong [OF run(1) b(3)] b(2) p(2) by (simp add: fn_of_entry_def sbind_step fn_ptr_def)
  have pa: "case ref_all re es R of Inl e \<Rightarrow> eval_args ev (Some a) es m = Inl e
    | Inr (ds, R') \<Rightarrow> R' = R \<and> (\<exists>vs. eval_args ev (Some a) es m = Inr (vs, m) \<and> args_rel vs ds)"
    using pure_args [of es a re ev, OF args] m(1) sbind_fuel [OF ok [unfolded ref_print_def]] unfolding pure_sim_def by blast
  have call: "eval_expr_call (Suc n) ev (Some a) l f es m = sbind (eval_args ev (Some a) es) (\<lambda>args.
      sbind (fn_of_entry p) (\<lambda>fn. case fn of
           FN_BUILT_IN b \<Rightarrow>
             sbind (call_builtin (Suc n) ev (Some a) b args) (\<lambda>ret.
             sbind (sget eval_fn_error) (\<lambda>err.
             case err of None \<Rightarrow> sret ret | Some msg \<Rightarrow> error_at l msg))
         | FN_USER_CUSTOM body params _ \<Rightarrow> call_user (Suc n) ev (Some a) l f p body params args)) m"
    using b(2) by (simp add: eval_expr_call_def sbind_step r(1) p)
  show "case ref_print re f es R of Inl e \<Rightarrow> eval_expr_call (Suc n) ev (Some a) l f es m = Inl e
    | Inr (d, R') \<Rightarrow> \<exists>v m'. eval_expr_call (Suc n) ev (Some a) l f es m = Inr (v, m') \<and> val_rel v d \<and> state_rel m' a R' \<and> scopes_kept N m m'"
  proof (cases "ref_all re es R")
    case (Inl e)
    with pa have "eval_args ev (Some a) es m = Inl e" by simp
    with Inl show ?thesis by (simp add: call ref_print_def sbind_Inl)
  next
    case (Inr q)
    then obtain ds vs where q: "ref_all re es R = Inr (ds, R)" "eval_args ev (Some a) es m = Inr (vs, m)" "args_rel vs ds"
      using pa by (cases q) auto
    have ne: "vs \<noteq> []" using q(2) \<open>es \<noteq> []\<close> by (cases es) (auto simp: sbind_eq_Inr)
    define t where "t = shown_list ds @ (if f = ''println'' then [newline] else [])"
    let ?m = "m\<lparr> m_out := m_out m @ t \<rparr>"
    have "call_builtin (Suc n) ev (Some a) (Some bi) vs m = Inr (null_val, ?m)"
      using ne b(4) by (simp add: call_builtin_def builtin_println_def builtin_print_def sbind_step print_args_shown [OF q(3)] print_out_def t_def)
    then have "eval_expr_call (Suc n) ev (Some a) l f es m = Inr (null_val, ?m)"
      using run(2) by (simp add: call sbind_step q(2) fn)
    moreover have "ref_print re f es R = Inr (VAL_NULL, (fst R, snd R @ t))"
      by (simp add: ref_print_def sbind_step q(1) emit_def t_def split_def)
    moreover have "env_of ?m a E" using E(1) by (rule env_of_cong) auto
    then have "state_rel ?m a (fst R, snd R @ t)"
      using m(1) E(2) by (auto simp: state_rel_def running_def)
    moreover have "scopes_kept N m ?m" by (simp add: scopes_kept_def)
    ultimately show ?thesis by (simp add: val_rel_def null_val_def plain_def)
  qed
qed

section \<open>Conditionals\<close>

lemma sim_if:
  assumes "sim N a val_rel (re c) (ev (Some a) c)" "sim N a val_rel (re t) (ev (Some a) t)"
    and e: "case e of None \<Rightarrow> True | Some b \<Rightarrow> sim N a val_rel (re b) (ev (Some a) b)"
  shows "sim N a val_rel (ref_if re c t e) (eval_if_stmt ev (Some a) c t e)"
  unfolding ref_if_def eval_if_stmt_def
proof (rule sim_bind, rule assms(1))
  fix v d assume "val_rel v d"
  then have d: "val_is_truthy v = truthy d" by (simp add: val_rel_def val_is_truthy_def truthy_def)
  have nul: "sim N a val_rel (sret VAL_NULL) (sret BLAZE_NULL)"
    by (rule sim_ret) (simp add: val_rel_def BLAZE_NULL_def val_init_def plain_def)
  have "sim N a val_rel (sbind (re b) (\<lambda>_. sret VAL_NULL)) (sbind (ev (Some a) b) (\<lambda>_. sret BLAZE_NULL))"
    if "sim N a val_rel (re b) (ev (Some a) b)" for b
    by (rule sim_bind [OF that nul])
  then show "sim N a val_rel
      (if truthy d then sbind (re t) (\<lambda>_. sret VAL_NULL) else case e of None \<Rightarrow> sret VAL_NULL | Some b \<Rightarrow> sbind (re b) (\<lambda>_. sret VAL_NULL))
      (if val_is_truthy v then sbind (ev (Some a) t) (\<lambda>_. sret BLAZE_NULL)
       else case e of None \<Rightarrow> sret BLAZE_NULL | Some e \<Rightarrow> sbind (ev (Some a) e) (\<lambda>_. sret BLAZE_NULL))"
    using assms(2) e nul by (auto simp: d split: option.splits)
qed

lemma sim_children:
  assumes "\<And>e. e \<in> set es \<Longrightarrow> sim N a val_rel (re e) (ev (Some a) e)"
  shows "sim N a (\<lambda>_ _. True) (ref_all re es) (eval_children ev (Some a) es)"
  using assms
proof (induction es)
  case (Cons e es)
  have rest: "sim N a (\<lambda>_ _. True) (ref_all re es) (eval_children ev (Some a) es)" using Cons by simp
  have "sim N a (\<lambda>_ _. True) (sbind (ref_all re es) (\<lambda>ds. sret (d # ds))) (sbind (eval_children ev (Some a) es) sret)" for d
    by (rule sim_bind [OF rest]) (simp add: sim_ret)
  then show ?case
    unfolding ref_all.simps eval_children.simps by (intro sim_bind [OF Cons.prems]) simp_all
qed (simp add: sim_ret)

lemma sim_last:
  assumes "\<And>e. e \<in> set es \<Longrightarrow> sim N a val_rel (re e) (ev (Some a) e)" and "val_rel v0 d0"
  shows "sim N a val_rel (sbind (ref_all re es) (\<lambda>ds. sret (if ds = [] then d0 else last ds))) (eval_last ev (Some a) es v0)"
  using assms
proof (induction es arbitrary: v0 d0)
  case (Cons e es)
  have "sim N a val_rel (sbind (ref_all re es) (\<lambda>ds. sret (if ds = [] then d else last ds))) (eval_last ev (Some a) es v)"
    if "val_rel v d" for v d
    by (rule Cons.IH) (use Cons.prems(1) that in simp_all)
  moreover have "sbind (ref_all re (e # es)) (\<lambda>ds. sret (if ds = [] then d0 else last ds))
      = sbind (re e) (\<lambda>d. sbind (ref_all re es) (\<lambda>ds. sret (if ds = [] then d else last ds)))"
    by (auto simp: sbind_def fun_eq_iff split: sum.split)
  ultimately show ?case
    unfolding eval_last.simps by (simp only:) (rule sim_bind [OF Cons.prems(1)], simp)
next
  case Nil
  have "sbind (ref_all re []) (\<lambda>ds. sret (if ds = [] then d0 else last ds)) = sret d0" by (simp add: fun_eq_iff)
  with Nil.prems(2) show ?case by (simp only: eval_last.simps sim_ret)
qed

section \<open>Inner scopes\<close>

lemma add_scope: "m_scopes_update (\<lambda>h. h @ [x]) m = m\<lparr> m_scopes := m_scopes m @ [x] \<rparr>"
  by simp

text \<open>The names of the built-in functions among the first ones of the list.\<close>

lemma declare_builtins_env:
  assumes "env_of m a ((f, r) # E)" "m_tbl m = m_tbl base"
    and "set bs \<subseteq> set (builtin_functions base)" "distinct (map fst bs)" "\<forall>x \<in> fst ` set bs. f x = None"
  shows "\<exists>m'. declare_builtins n (Some a) bs m = Inr ((), m') \<and> scopes_only a m m' \<and>
    env_of m' a ((\<lambda>x. if x \<in> fst ` set bs then map_option (\<lambda>b. (b, True)) (bv x) else f x, r) # E)"
  using assms
proof (induction bs arbitrary: m f)
  case Nil
  then show ?case by (auto simp: scopes_only_def)
next
  case (Cons b bs)
  obtain x bi p where b: "b = (x, bi, p)" by (cases b)
  obtain q v where v: "p = Some q" "bv x = Some v" "val_at q base = Inr (v, base)"
    using bv_at [of x bi p] Cons.prems(3) b by auto
  have at: "val_at q m = Inr (v, m)" using v(3) Cons.prems(2) by (rule val_at_cong [rotated])
  have fx: "f x = None" using Cons.prems(5) b by simp
  obtain m1 where m1: "scope_declare_identifier n (Some a) x v True m = Inr (VAL_SET_OK, m1)"
    "env_of m1 a (env_declare ((f, r) # E) x v True)" "scopes_only a m m1"
    using declare_env [OF Cons.prems(1), of n x v True] fx by auto
  have tbl: "m_tbl m1 = m_tbl base"
    using scopes_onlyD(1) [OF m1(3)] Cons.prems(2) by (metis machine.select_convs(5) machine.update_convs(4) machine.surjective)
  have e1: "env_of m1 a ((f(x \<mapsto> (v, True)), r) # E)" using m1(2) fx by simp
  have none: "\<forall>y \<in> fst ` set bs. (f(x \<mapsto> (v, True))) y = None" using Cons.prems(4,5) b by auto
  obtain m' where m': "declare_builtins n (Some a) bs m1 = Inr ((), m')" "scopes_only a m1 m'"
    "env_of m' a ((\<lambda>y. if y \<in> fst ` set bs then map_option (\<lambda>b. (b, True)) (bv y) else (f(x \<mapsto> (v, True))) y, r) # E)"
    using Cons.IH [OF e1 tbl _ _ none] Cons.prems(3,4) by auto
  have same: "(\<lambda>y. if y \<in> fst ` set bs then map_option (\<lambda>b. (b, True)) (bv y) else (f(x \<mapsto> (v, True))) y)
      = (\<lambda>y. if y \<in> fst ` set (b # bs) then map_option (\<lambda>b. (b, True)) (bv y) else f y)"
    using Cons.prems(4) b v(2) by (auto simp: fun_eq_iff)
  have "scopes_only a m m'"
    using m'(2) m1(3) by (rule scopes_only_trans2)
  with m' same at m1(1) v(1) b show ?case by (simp add: sbind_step)
qed

text \<open>Entering a scope adds an empty frame, and nothing else can be seen of it.\<close>

lemma enter_scope:
  assumes "state_rel m a (G, out)"
  obtains m' sc where "scope_init n (Some a) m = Inr (Some (length (m_scopes m)), m')"
    "state_rel m' (length (m_scopes m)) ((\<lambda>_. None, False) # G, out)"
    "length (m_scopes m') = Suc (length (m_scopes m))" "scopes_kept (length (m_scopes m)) m m'"
    "m_scopes m' ! length (m_scopes m) = Some sc" "sc_parent sc = Some a"
proof -
  let ?a = "length (m_scopes m)"
  let ?m = "m\<lparr> m_scopes := m_scopes m @ [Some (new_scope (Some a))] \<rparr>"
  obtain E where E: "env_of m a E" "list_all2 frame_rel E G" and run: "running m" "m_out m = out"
    using assms by (auto simp: state_rel_def)
  have a: "a < ?a" using E(1) by (elim env_of_top) auto
  have up: "env_of ?m a E" using E(1) by (rule env_of_cong) (use a in \<open>auto simp: nth_append\<close>)
  have fresh: "frame_of (new_scope (Some a)) = (\<lambda>_. None, False)"
    by (simp add: frame_of_def new_scope_def fun_eq_iff valmap_ok_init)
  have "env_of ?m ?a (frame_of (new_scope (Some a)) # E)"
    using up a by (intro env_of.env_inner) (auto simp: nth_append new_scope_def valmap_ok_init)
  then have e0: "env_of ?m ?a ((\<lambda>_. None, False) # E)" by (simp add: fresh)
  have tbl: "m_tbl ?m = m_tbl base" using run(1) by (simp add: running_def)
  have d: "distinct (map fst (builtin_functions base))" by (simp add: listed builtin_names_def)
  have names: "fst ` set (builtin_functions base) = set builtin_names" using listed by (metis set_map)
  obtain m' where m': "declare_builtins n (Some ?a) (builtin_functions base) ?m = Inr ((), m')" "scopes_only ?a ?m m'"
    "env_of m' ?a ((\<lambda>x. if x \<in> set builtin_names then map_option (\<lambda>b. (b, True)) (bv x) else None, False) # E)"
    using declare_builtins_env [OF e0 tbl subset_refl d, of n] by (auto simp: names)
  have fr: "frame_rel (\<lambda>x. if x \<in> set builtin_names then map_option (\<lambda>b. (b, True)) (bv x) else None, False) (\<lambda>_. None, False)"
    using bv_names by (auto simp: frame_rel_def name_rel_def split: option.splits)
  obtain h where h: "m' = ?m\<lparr> m_scopes := h \<rparr>" using scopes_onlyD(1) [OF m'(2)] by blast
  have "state_rel m' ?a ((\<lambda>_. None, False) # G, out)"
    unfolding state_rel_def
  proof (intro conjI exI)
    show "running m'" "m_out m' = snd ((\<lambda>_. None, False) # G, out)" using run h by (simp_all add: running_def)
    show "env_of m' ?a ((\<lambda>x. if x \<in> set builtin_names then map_option (\<lambda>b. (b, True)) (bv x) else None, False) # E)" by (rule m'(3))
  qed (simp add: fr E(2))
  moreover have "table_only (m_scopes ?m ! ?a) (m_scopes m' ! ?a)" by (rule scopes_onlyD(4) [OF m'(2)]) simp
  then obtain vm where "m_scopes m' ! ?a = Some ((new_scope (Some a))\<lparr> sc_valmap := vm \<rparr>)" by (auto simp: nth_append)
  moreover have "length (m_scopes m') = Suc ?a" using scopes_onlyD(2) [OF m'(2)] by simp
  moreover have "scope_init n (Some a) m = Inr (Some ?a, m')"
    using run(1) m'(1) by (simp add: scope_init_def alloc_addr_def sbind_step running_def add_scope)
  moreover have "scopes_kept ?a m m'"
    unfolding scopes_kept_def
  proof (intro conjI allI impI)
    show "?a \<le> length (m_scopes m')" using scopes_onlyD(2) [OF m'(2)] by simp
    show "table_only (m_scopes m ! b) (m_scopes m' ! b)" if "b < ?a" for b
      using scopes_onlyD(4) [OF m'(2), of b] that by (simp add: nth_append)
  qed
  ultimately show ?thesis
    by (intro that [of m' "(new_scope (Some a))\<lparr> sc_valmap := vm \<rparr>"]) (simp_all, simp add: new_scope_def)
qed

text \<open>Leaving a scope frees its table, in which nothing is to be freed.\<close>

lemma valmap_free_nothing:
  assumes "\<And>e. Some e \<in> set es \<Longrightarrow> nofree (ve_value e) \<or> self_ptr (ve_value e) = None"
  shows "valmap_free sf True es m = Inr ((), m)"
  using assms
proof (induction es)
  case (Cons e es)
  then have rest: "valmap_free sf True es m = Inr ((), m)" by simp
  show ?case
  proof (cases e)
    case (Some x)
    then have "nofree (ve_value x) \<or> self_ptr (ve_value x) = None" using Cons.prems [of x] by simp
    then show ?thesis using Some rest by auto
  qed (use rest in simp)
qed simp

lemma frame_rel_entries:
  assumes "frame_rel (frame_of sc) g" "valmap_ok (sc_valmap sc)" "Some e \<in> set (vm_array (sc_valmap sc))"
  shows "nofree (ve_value e) \<or> self_ptr (ve_value e) = None"
proof -
  obtain j where "j < length (vm_array (sc_valmap sc))" "vm_array (sc_valmap sc) ! j = Some e"
    using assms(3) by (auto simp: in_set_conv_nth)
  then have "table_map ve_key (vm_array (sc_valmap sc)) (ve_key e) = Some e"
    using valmap_okD(1) [OF assms(2)] by (intro table_map_nth)
  then have "fst (frame_of sc) (ve_key e) = Some (ve_value e, ve_is_const e)"
    by (simp add: frame_of_def valmap_abs_def)
  moreover have "name_rel (ve_key e) (fst (frame_of sc) (ve_key e)) (fst g (ve_key e))"
    using assms(1) by (simp add: frame_rel_def)
  ultimately show ?thesis
    using bv_kept by (auto simp: name_rel_def plain_def split: option.splits)
qed

lemma leave_scope:
  assumes "state_rel m a' (g # G, out)" "m_scopes m ! a' = Some sc" "sc_parent sc = Some a"
  shows "scope_free (Suc n) (Some a') m = Inr ((), m\<lparr> m_scopes := (m_scopes m)[a' := None] \<rparr>)"
    and "state_rel (m\<lparr> m_scopes := (m_scopes m)[a' := None] \<rparr>) a (G, out)"
proof -
  let ?m = "m\<lparr> m_scopes := (m_scopes m)[a' := None] \<rparr>"
  obtain E where E: "env_of m a' E" "list_all2 frame_rel E (g # G)" and run: "running m" "m_out m = out"
    using assms(1) by (auto simp: state_rel_def)
  obtain E' where top: "a' < length (m_scopes m)" "valmap_ok (sc_valmap sc)" "E = frame_of sc # E'" "a < a'" "env_of m a E'"
    using E(1) assms(2,3) by (elim env_of_top) auto
  have fr: "frame_rel (frame_of sc) g" "list_all2 frame_rel E' G" using E(2) top(3) by simp_all
  have "valmap_free (scope_free n) True (vm_array (sc_valmap sc)) m = Inr ((), m)"
    by (rule valmap_free_nothing) (rule frame_rel_entries [OF fr(1) top(2)])
  then show "scope_free (Suc n) (Some a') m = Inr ((), ?m)"
    using assms(2,3) top(1)
    by (simp add: scope_free_body_def sbind_step at_addr_Some free_addr_def scope_put_Some)
  have "env_of ?m a E'" using top(5) by (rule env_of_cong) (use top(4) in auto)
  then show "state_rel ?m a (G, out)" using run fr(2) by (auto simp: state_rel_def running_def)
qed

text \<open>
  A step in a scope \<open>a'\<close> of its own, below \<open>a\<close>; it may change the marks of that scope, which
  a loop does.
\<close>

definition inner :: "addr \<Rightarrow> addr \<Rightarrow> 'b rrun \<Rightarrow> 'a run \<Rightarrow> bool" where
  "inner a a' rc c \<longleftrightarrow> (\<forall>m R sc. state_rel m a' R \<longrightarrow> m_scopes m ! a' = Some sc \<longrightarrow> sc_parent sc = Some a \<longrightarrow>
     \<not> snd (hd (fst R)) \<longrightarrow> rc R \<noteq> Inl Out_of_fuel \<longrightarrow>
     (case rc R of
        Inl e \<Rightarrow> c m = Inl e
      | Inr (d, R') \<Rightarrow> \<exists>v m' sc'. c m = Inr (v, m') \<and> state_rel m' a' R' \<and> scopes_kept a' m m' \<and>
          m_scopes m' ! a' = Some sc' \<and> sc_parent sc' = Some a))"

lemma state_rel_live: "state_rel m a R \<Longrightarrow> a < length (m_scopes m)"
  by (auto simp: state_rel_def elim: env_of_top)

lemma innerD:
  assumes "inner a a' rc c" "state_rel m a' R" "m_scopes m ! a' = Some sc" "sc_parent sc = Some a" "\<not> snd (hd (fst R))"
    "rc R \<noteq> Inl Out_of_fuel"
  shows "case rc R of
        Inl e \<Rightarrow> c m = Inl e
      | Inr (d, R') \<Rightarrow> \<exists>v m' sc'. c m = Inr (v, m') \<and> state_rel m' a' R' \<and> scopes_kept a' m m' \<and>
          m_scopes m' ! a' = Some sc' \<and> sc_parent sc' = Some a"
  using assms unfolding inner_def by blast

lemma sim_inner:
  assumes "sim (Suc a') a' Q rc c"
  shows "inner a a' rc c"
  unfolding inner_def
proof (intro allI impI)
  fix m :: machine and R sc
  assume m: "state_rel m a' R" "m_scopes m ! a' = Some sc" "sc_parent sc = Some a" and ok: "rc R \<noteq> Inl Out_of_fuel"
  have "Suc a' \<le> length (m_scopes m)" using state_rel_live [OF m(1)] by simp
  then have s: "case rc R of Inl e \<Rightarrow> c m = Inl e
    | Inr (d, R') \<Rightarrow> \<exists>v m'. c m = Inr (v, m') \<and> Q v d \<and> state_rel m' a' R' \<and> scopes_kept (Suc a') m m'"
    using assms m(1) ok unfolding sim_def by blast
  have live: "\<exists>sc'. m_scopes m' ! a' = Some sc' \<and> sc_parent sc' = Some a" if "scopes_kept (Suc a') m m'" for m'
  proof -
    have "table_only (m_scopes m ! a') (m_scopes m' ! a')" using that by (simp add: scopes_kept_def)
    then show ?thesis using m(2,3) by auto
  qed
  have less: "scopes_kept a' m m'" if "scopes_kept (Suc a') m m'" for m' using that by (rule scopes_kept_less) simp
  show "case rc R of Inl e \<Rightarrow> c m = Inl e
    | Inr (d, R') \<Rightarrow> \<exists>v m' sc'. c m = Inr (v, m') \<and> state_rel m' a' R' \<and> scopes_kept a' m m' \<and>
        m_scopes m' ! a' = Some sc' \<and> sc_parent sc' = Some a"
    using s live less by (auto split: sum.splits)
qed

lemma sim_scoped:
  assumes body: "\<And>a'. a < a' \<Longrightarrow> inner a a' rbody (body (Some a'))"
  shows "sim N a val_rel (ref_scoped rbody)
     (sbind (scope_init k (Some a)) (\<lambda>s'. sbind (body s') (\<lambda>_. sbind (scope_free (Suc n) s') (\<lambda>_. sret BLAZE_NULL))))"
    (is "sim N a val_rel _ ?c")
  unfolding sim_def
proof (intro allI impI)
  fix m :: machine and R
  assume m: "state_rel m a R" "N \<le> length (m_scopes m)" and ok: "ref_scoped rbody R \<noteq> Inl Out_of_fuel"
  obtain G out where R: "R = (G, out)" by (cases R)
  let ?a = "length (m_scopes m)" and ?R = "((\<lambda>_. None, False) # G, out)"
  have a: "a < ?a" using m(1) by (rule state_rel_live)
  obtain m1 sc where m1: "scope_init k (Some a) m = Inr (Some ?a, m1)" "state_rel m1 ?a ?R" "length (m_scopes m1) = Suc ?a"
    "scopes_kept ?a m m1" "m_scopes m1 ! ?a = Some sc" "sc_parent sc = Some a"
    using m(1) unfolding R by (rule enter_scope)
  have rc: "ref_scoped rbody R = sbind rbody (\<lambda>_. sbind (on_frames tl) (\<lambda>_. sret VAL_NULL)) ?R"
    by (simp add: ref_scoped_def R on_frames_def sbind_def)
  have c: "?c m = sbind (body (Some ?a)) (\<lambda>_. sbind (scope_free (Suc n) (Some ?a)) (\<lambda>_. sret BLAZE_NULL)) m1"
    by (simp only: sbind_step(1) [where m = "scope_init k (Some a)", OF m1(1)])
  have fuel: "rbody ?R \<noteq> Inl Out_of_fuel" by (rule sbind_fuel) (rule ok [unfolded rc])
  have "\<not> snd (hd (fst ?R))" by simp
  note step = innerD [OF body [OF a] m1(2,5,6) this fuel]
  show "case ref_scoped rbody R of Inl e \<Rightarrow> ?c m = Inl e
    | Inr (d, R') \<Rightarrow> \<exists>v m'. ?c m = Inr (v, m') \<and> val_rel v d \<and> state_rel m' a R' \<and> scopes_kept N m m'"
  proof (cases "rbody ?R")
    case (Inl e)
    with step have "body (Some ?a) m1 = Inl e" by simp
    with Inl show ?thesis unfolding rc c by (simp add: sbind_Inl)
  next
    case (Inr q)
    then obtain d G2 out2 v m2 sc2 where q: "rbody ?R = Inr (d, (G2, out2))" "body (Some ?a) m1 = Inr (v, m2)"
      "state_rel m2 ?a (G2, out2)" "scopes_kept ?a m1 m2" "m_scopes m2 ! ?a = Some sc2" "sc_parent sc2 = Some a"
      using step by (cases q) auto
    obtain g G' where G2: "G2 = g # G'" using q(3) by (cases G2) (auto simp: state_rel_def dest: env_of_nonempty)
    let ?m = "m2\<lparr> m_scopes := (m_scopes m2)[?a := None] \<rparr>"
    note leave = leave_scope [OF q(3) [unfolded G2] q(5,6)]
    have c1: "?c m = Inr (BLAZE_NULL, ?m)"
      unfolding c using leave(1) q(2) by (simp add: sbind_step)
    have rc1: "ref_scoped rbody R = Inr (VAL_NULL, (G', out2))"
      unfolding rc using q(1) by (simp add: sbind_step on_frames_def G2)
    have "scopes_kept N m m2"
      using scopes_kept_less [OF m1(4) m(2)] scopes_kept_less [OF q(4) m(2)] by (rule scopes_kept_trans)
    then have kept: "scopes_kept N m ?m" using m(2) by (rule scopes_kept_put)
    have "val_rel BLAZE_NULL VAL_NULL" by (simp add: val_rel_def BLAZE_NULL_def val_init_def plain_def)
    with leave(2) kept show ?thesis unfolding c1 rc1 sum.case prod.case by blast
  qed
qed

lemma sim_block:
  assumes "\<And>e N a. e \<in> set es \<Longrightarrow> sim N a val_rel (re e) (ev (Some a) e)"
  shows "sim N a val_rel (ref_block re es) (eval_block (Suc n) ev (Some a) es)"
  unfolding ref_block_def eval_block_def
  by (rule sim_scoped [where body = "\<lambda>s. eval_children ev s es"], rule sim_inner, rule sim_children, rule assms)

section \<open>Loops\<close>

text \<open>The marks of the scope of a loop before round \<open>i\<close>.\<close>

definition loop_scope :: "addr \<Rightarrow> int \<Rightarrow> scope \<Rightarrow> bool" where
  "loop_scope a i sc \<longleftrightarrow> sc_parent sc = Some a \<and> sc_mode sc = SC_MODE_REUSE \<and> unique_id sc = (if i = 0 then 1 else of_int i)"

lemma scope_update_rel:
  assumes "state_rel m a' ((g, q) # G, out)" "m_scopes m ! a' = Some sc"
    and "sc_parent (f sc) = sc_parent sc" "sc_valmap (f sc) = sc_valmap sc" "allow_redecl (f sc) = allow_redecl sc"
  obtains m' where "scope_update (Some a') f m = Inr ((), m')" "m_scopes m' ! a' = Some (f sc)" "scopes_kept a' m m'"
    "state_rel m' a' ((g, sc_mode (f sc) = SC_MODE_REUSE \<and> unique_id (f sc) = prev_unique_id (f sc)) # G, out)"
proof -
  let ?m = "m\<lparr> m_scopes := (m_scopes m)[a' := Some (f sc)] \<rparr>"
  have a': "a' < length (m_scopes m)" using assms(1) by (rule state_rel_live)
  obtain E where E: "env_of m a' E" "list_all2 frame_rel E ((g, q) # G)" and run: "running m" "m_out m = out"
    using assms(1) by (auto simp: state_rel_def)
  obtain E' where top: "E = frame_of sc # E'" "valmap_ok (sc_valmap sc)" "\<not> allow_redecl sc"
    using E(1) assms(2) by (elim env_of_top) auto
  have env: "env_of ?m a' (frame_of (f sc) # E')"
    using E(1) top assms by (intro env_of_put [where sc = sc]) auto
  have fr: "frame_rel (frame_of sc) (g, q)" "list_all2 frame_rel E' G" using E(2) top(1) by simp_all
  have "frame_rel (frame_of (f sc)) (g, sc_mode (f sc) = SC_MODE_REUSE \<and> unique_id (f sc) = prev_unique_id (f sc))"
    using fr(1) assms(4) by (simp add: frame_rel_def frame_of_def)
  then have "state_rel ?m a' ((g, sc_mode (f sc) = SC_MODE_REUSE \<and> unique_id (f sc) = prev_unique_id (f sc)) # G, out)"
    using env run fr(2) by (auto simp: state_rel_def running_def)
  moreover have "scope_update (Some a') f m = Inr ((), ?m)"
    using a' assms(2) by (simp add: scope_update_def sbind_step at_addr_Some scope_put_Some)
  moreover have "scopes_kept a' m ?m" by (rule scopes_kept_put) simp_all
  moreover have "m_scopes ?m ! a' = Some (f sc)" using a' by simp
  ultimately show ?thesis by (intro that [of ?m])
qed

text \<open>A round, and the rounds, in the scope \<open>a'\<close> of the loop.\<close>

definition round_ok :: "addr \<Rightarrow> addr \<Rightarrow> (int \<Rightarrow> int rrun) \<Rightarrow> (int \<Rightarrow> int run) \<Rightarrow> bool" where
  "round_ok a a' rr r \<longleftrightarrow> (\<forall>m R sc i. state_rel m a' R \<longrightarrow> m_scopes m ! a' = Some sc \<longrightarrow> loop_scope a i sc \<longrightarrow> 0 \<le> i \<longrightarrow>
     rr i R \<noteq> Inl Out_of_fuel \<longrightarrow>
     (case rr i R of
        Inl e \<Rightarrow> r i m = Inl e
      | Inr (j, R') \<Rightarrow> \<exists>m' sc'. j = i + 1 \<and> r i m = Inr (j, m') \<and> state_rel m' a' R' \<and> scopes_kept a' m m' \<and>
          m_scopes m' ! a' = Some sc' \<and> loop_scope a j sc'))"

lemma rounds_rel:
  assumes "round_ok a a' rr r"
  shows "state_rel m a' R \<Longrightarrow> m_scopes m ! a' = Some sc \<Longrightarrow> loop_scope a i sc \<Longrightarrow> 0 \<le> i \<Longrightarrow>
    loop_rounds n goes_on rr i R \<noteq> Inl Out_of_fuel \<Longrightarrow>
    (case loop_rounds n goes_on rr i R of
       Inl e \<Rightarrow> loop_rounds (Suc n) goes_on r i m = Inl e
     | Inr (u, R') \<Rightarrow> \<exists>m' sc' j. loop_rounds (Suc n) goes_on r i m = Inr ((), m') \<and> state_rel m' a' R' \<and> scopes_kept a' m m' \<and>
         m_scopes m' ! a' = Some sc' \<and> loop_scope a j sc')"
proof (induction n arbitrary: i m R sc)
  case (Suc n)
  show ?case
  proof (cases "goes_on i")
    case False
    with Suc.prems(1-3) show ?thesis by auto
  next
    case True
    have ok: "sbind (rr i) (loop_rounds n goes_on rr) R \<noteq> Inl Out_of_fuel" using Suc.prems(5) True by simp
    have step: "case rr i R of
        Inl e \<Rightarrow> r i m = Inl e
      | Inr (j, R') \<Rightarrow> \<exists>m' sc'. j = i + 1 \<and> r i m = Inr (j, m') \<and> state_rel m' a' R' \<and> scopes_kept a' m m' \<and>
          m_scopes m' ! a' = Some sc' \<and> loop_scope a j sc'"
      using assms Suc.prems(1-4) sbind_fuel [OF ok] unfolding round_ok_def by blast
    show ?thesis
    proof (cases "rr i R")
      case (Inl e)
      then have "r i m = Inl e" using step by simp
      then show ?thesis using Inl True by (simp add: sbind_Inl)
    next
      case (Inr q)
      then obtain R1 m1 sc1 where q: "rr i R = Inr (i + 1, R1)" "r i m = Inr (i + 1, m1)" "state_rel m1 a' R1" "scopes_kept a' m m1"
        "m_scopes m1 ! a' = Some sc1" "loop_scope a (i + 1) sc1"
        using step by (cases q) auto
      have ok1: "loop_rounds n goes_on rr (i + 1) R1 \<noteq> Inl Out_of_fuel" using ok q(1) by (simp add: sbind_step)
      have IH: "case loop_rounds n goes_on rr (i + 1) R1 of
          Inl e \<Rightarrow> loop_rounds (Suc n) goes_on r (i + 1) m1 = Inl e
        | Inr (u, R') \<Rightarrow> \<exists>m' sc' j. loop_rounds (Suc n) goes_on r (i + 1) m1 = Inr ((), m') \<and> state_rel m' a' R' \<and> scopes_kept a' m1 m' \<and>
            m_scopes m' ! a' = Some sc' \<and> loop_scope a j sc'"
        by (rule Suc.IH [OF q(3,5,6) _ ok1]) (use Suc.prems(4) in simp)
      have l: "loop_rounds (Suc n) goes_on rr i R = loop_rounds n goes_on rr (i + 1) R1"
        "loop_rounds (Suc (Suc n)) goes_on r i m = loop_rounds (Suc n) goes_on r (i + 1) m1"
        using True q(1,2) by (simp_all only: loop_rounds.simps if_True sbind_step)
      show ?thesis
        unfolding l using IH scopes_kept_trans [OF q(4)] by (auto simp del: loop_rounds.simps split: sum.splits)
    qed
  qed
qed simp

lemma set_replaces_apply: "set_replaces b ((g, q) # G, out) = Inr ((), ((g, b) # G, out))"
  by (simp add: set_replaces_def on_frames_def)

lemma replace_count_rel:
  assumes "state_rel m a' R" "m_scopes m ! a' = Some sc" "case x of None \<Rightarrow> True | Some y \<Rightarrow> bv y = None"
  obtains m' R' vm where
    "(case x of None \<Rightarrow> sret () | Some y \<Rightarrow> on_frames (\<lambda>E. env_replace E y (VAL_INTEGER j) True)) R = Inr ((), R')"
    "(case x of None \<Rightarrow> sret VAL_SET_OK | Some y \<Rightarrow>
       on_valmap n (Some a') (\<lambda>vm. valmap_set_default vm y (val_init (VAL_INTEGER j)) True False)) m = Inr (VAL_SET_OK, m')"
    "state_rel m' a' R'" "scopes_kept a' m m'" "m_scopes m' ! a' = Some (sc\<lparr> sc_valmap := vm \<rparr>)"
proof (cases x)
  case None
  have "sc = sc\<lparr> sc_valmap := sc_valmap sc \<rparr>" by simp
  with None show ?thesis using assms(1,2) by (intro that [of R m "sc_valmap sc"]) auto
next
  case (Some y)
  obtain E where E: "env_of m a' E" "list_all2 frame_rel E (fst R)" using assms(1) by (auto simp: state_rel_def)
  have a': "a' < length (m_scopes m)" using assms(1) by (rule state_rel_live)
  obtain m' where m': "on_valmap n (Some a') (\<lambda>vm. valmap_set_default vm y (val_init (VAL_INTEGER j)) True False) m = Inr (VAL_SET_OK, m')"
    "env_of m' a' (env_replace E y (val_init (VAL_INTEGER j)) True)" "scopes_only a' m m'"
    using E(1) by (rule replace_env)
  have "list_all2 frame_rel (env_replace E y (val_init (VAL_INTEGER j)) True) (env_replace (fst R) y (VAL_INTEGER j) True)"
    using declare_rel(2) [OF E(2), of y "val_init (VAL_INTEGER j)" True] assms(3) Some by (simp add: plain_def val_init_def)
  then have "state_rel m' a' (env_replace (fst R) y (VAL_INTEGER j) True, snd R)"
    by (rule state_rel_after [OF assms(1) m'(3,2)])
  moreover have "scopes_kept a' m m'" using m'(3) a' by (intro scopes_only_kept [of a']) simp_all
  moreover obtain vm where "m_scopes m' ! a' = Some (sc\<lparr> sc_valmap := vm \<rparr>)"
    using scopes_onlyD(4) [OF m'(3) a'] assms(2) by auto
  ultimately show ?thesis
    using m'(1) Some by (intro that [of "(env_replace (fst R) y (VAL_INTEGER j) True, snd R)" m' vm]) (simp_all add: on_frames_def split_def)
qed

lemma first_round: "((if i = 0 then 1 else of_int i) = (of_int i :: u64)) = (i \<noteq> 0)"
  by simp

lemma loop_round_ok:
  assumes x: "case x of None \<Rightarrow> True | Some y \<Rightarrow> bv y = None"
    and body: "sim (Suc a') a' Q
      (case body of NODE_BLOCK l ns \<Rightarrow> sbind (ref_all re ns) (\<lambda>_. sret VAL_NULL) | _ \<Rightarrow> re body)
      (case body of NODE_BLOCK l cs \<Rightarrow> eval_block_no_scope ev (Some a') cs | _ \<Rightarrow> ev (Some a') body)"
  shows "round_ok a a' (ref_round re x body) (loop_round n ev (Some a') x body)"
  unfolding round_ok_def
proof (intro allI impI)
  fix m :: machine and R sc i
  let ?rb = "case body of NODE_BLOCK l ns \<Rightarrow> sbind (ref_all re ns) (\<lambda>_. sret VAL_NULL) | _ \<Rightarrow> re body"
  let ?b = "case body of NODE_BLOCK l cs \<Rightarrow> eval_block_no_scope ev (Some a') cs | _ \<Rightarrow> ev (Some a') body"
  assume m: "state_rel m a' R" "m_scopes m ! a' = Some sc" "loop_scope a i sc" "0 \<le> i" and ok: "ref_round re x body i R \<noteq> Inl Out_of_fuel"
  obtain g q G out where R: "R = ((g, q) # G, out)"
    using m(1) by (cases R; cases "fst R") (auto simp: state_rel_def dest: env_of_nonempty)
  obtain m1 where m1: "scope_update (Some a') (\<lambda>sc. sc\<lparr> prev_unique_id := of_int i \<rparr>) m = Inr ((), m1)"
    "m_scopes m1 ! a' = Some (sc\<lparr> prev_unique_id := of_int i \<rparr>)" "scopes_kept a' m m1"
    "state_rel m1 a' ((g, i \<noteq> 0) # G, out)"
    by (rule scope_update_rel [OF m(1) [unfolded R] m(2), of "\<lambda>sc. sc\<lparr> prev_unique_id := of_int i \<rparr>"])
       (use m(3) in \<open>simp_all add: loop_scope_def first_round\<close>)
  have ref: "ref_round re x body i R = sbind ?rb (\<lambda>_.
     if \<not> in_llong (i + 1) then sthrow (Undefined ''signed integer overflow'')
     else
     sbind (set_replaces False) (\<lambda>_.
     sbind (case x of None \<Rightarrow> sret () | Some y \<Rightarrow> on_frames (\<lambda>E. env_replace E y (VAL_INTEGER (i + 1)) True)) (\<lambda>_.
     sret (i + 1)))) ((g, i \<noteq> 0) # G, out)"
    unfolding ref_round_def R by (rule sbind_Inr) (rule set_replaces_apply)
  have code: "loop_round n ev (Some a') x body i m = sbind ?b (\<lambda>_.
     if \<not> in_llong (i + 1) then undefined_step ''signed integer overflow''
     else
     sbind (scope_update (Some a') (\<lambda>sc. sc\<lparr> unique_id := of_int (i + 1) \<rparr>)) (\<lambda>_.
     sbind (case x of
              None \<Rightarrow> sret VAL_SET_OK
            | Some y \<Rightarrow> on_valmap n (Some a') (\<lambda>vm. valmap_set_default vm y (val_init (VAL_INTEGER (i + 1))) True False)) (\<lambda>_.
     sret (i + 1)))) m1"
    unfolding loop_round_def by (rule sbind_Inr) (rule m1(1))
  have fuel: "?rb ((g, i \<noteq> 0) # G, out) \<noteq> Inl Out_of_fuel" by (rule sbind_fuel) (rule ok [unfolded ref])
  have "Suc a' \<le> length (m_scopes m1)" using state_rel_live [OF m1(4)] by simp
  then have step: "case ?rb ((g, i \<noteq> 0) # G, out) of Inl e \<Rightarrow> ?b m1 = Inl e
    | Inr (d, R') \<Rightarrow> \<exists>v m'. ?b m1 = Inr (v, m') \<and> Q v d \<and> state_rel m' a' R' \<and> scopes_kept (Suc a') m1 m'"
    using body m1(4) fuel unfolding sim_def by blast
  show "case ref_round re x body i R of
        Inl e \<Rightarrow> loop_round n ev (Some a') x body i m = Inl e
      | Inr (j, R') \<Rightarrow> \<exists>m' sc'. j = i + 1 \<and> loop_round n ev (Some a') x body i m = Inr (j, m') \<and> state_rel m' a' R' \<and>
          scopes_kept a' m m' \<and> m_scopes m' ! a' = Some sc' \<and> loop_scope a j sc'"
  proof (cases "?rb ((g, i \<noteq> 0) # G, out)")
    case (Inl e)
    then have "?b m1 = Inl e" using step by simp
    then show ?thesis unfolding ref code using Inl by (simp add: sbind_Inl)
  next
    case (Inr p)
    then obtain d R2 v m2 where p: "?rb ((g, i \<noteq> 0) # G, out) = Inr (d, R2)" "?b m1 = Inr (v, m2)" "state_rel m2 a' R2" "scopes_kept (Suc a') m1 m2"
      using step by (cases p) auto
    obtain g2 q2 G2 out2 where R2: "R2 = ((g2, q2) # G2, out2)"
      using p(3) by (cases R2; cases "fst R2") (auto simp: state_rel_def dest: env_of_nonempty)
    have "table_only (m_scopes m1 ! a') (m_scopes m2 ! a')" using p(4) by (simp add: scopes_kept_def)
    then obtain vm where sc2: "m_scopes m2 ! a' = Some (sc\<lparr> prev_unique_id := of_int i, sc_valmap := vm \<rparr>)" using m1(2) by auto
    note ref2 = sbind_Inr [where m = "?rb" and s = "((g, i \<noteq> 0) # G, out)", OF p(1)]
    note code2 = sbind_Inr [where m = "?b" and s = m1, OF p(2)]
    show ?thesis
    proof (cases "in_llong (i + 1)")
      case False
      then show ?thesis unfolding ref code ref2 code2 by (simp add: undefined_step_def)
    next
      case True
      let ?f = "\<lambda>sc. sc\<lparr> unique_id := of_int (i + 1) \<rparr>"
      obtain m3 where m3: "scope_update (Some a') ?f m2 = Inr ((), m3)"
        "m_scopes m3 ! a' = Some (?f (sc\<lparr> prev_unique_id := of_int i, sc_valmap := vm \<rparr>))" "scopes_kept a' m2 m3"
        "state_rel m3 a' ((g2, False) # G2, out2)"
        by (rule scope_update_rel [OF p(3) [unfolded R2] sc2, of ?f]) auto
      obtain m4 R4 vm4 where m4:
        "(case x of None \<Rightarrow> sret () | Some y \<Rightarrow> on_frames (\<lambda>E. env_replace E y (VAL_INTEGER (i + 1)) True)) ((g2, False) # G2, out2) = Inr ((), R4)"
        "(case x of None \<Rightarrow> sret VAL_SET_OK | Some y \<Rightarrow>
          on_valmap n (Some a') (\<lambda>vm. valmap_set_default vm y (val_init (VAL_INTEGER (i + 1))) True False)) m3 = Inr (VAL_SET_OK, m4)"
        "state_rel m4 a' R4" "scopes_kept a' m3 m4"
        "m_scopes m4 ! a' = Some ((?f (sc\<lparr> prev_unique_id := of_int i, sc_valmap := vm \<rparr>))\<lparr> sc_valmap := vm4 \<rparr>)"
        by (rule replace_count_rel [OF m3(4,2) x])
      have r1: "ref_round re x body i R = Inr (i + 1, R4)"
        unfolding ref ref2 R2 using True m4(1) by (simp add: sbind_step set_replaces_apply)
      have c1: "loop_round n ev (Some a') x body i m = Inr (i + 1, m4)"
        unfolding code code2 using True m3(1) m4(2) by (simp add: sbind_step)
      have "scopes_kept a' m m4"
        using m1(3) scopes_kept_less [OF p(4), of a'] m3(3) m4(4) by (meson Suc_n_not_le_n nat_le_linear scopes_kept_trans)
      moreover have "loop_scope a (i + 1) ((?f (sc\<lparr> prev_unique_id := of_int i, sc_valmap := vm \<rparr>))\<lparr> sc_valmap := vm4 \<rparr>)"
        using m(3,4) by (simp add: loop_scope_def)
      ultimately show ?thesis unfolding r1 c1 sum.case prod.case using m4(3,5) by blast
    qed
  qed
qed

lemma declare_count_rel:
  assumes "state_rel m a' R" "m_scopes m ! a' = Some sc" "case x of None \<Rightarrow> True | Some y \<Rightarrow> bv y = None"
  obtains m' R' vm st where
    "(case x of None \<Rightarrow> sret () | Some y \<Rightarrow> on_frames (\<lambda>E. env_declare E y (VAL_INTEGER 0) True)) R = Inr ((), R')"
    "(case x of None \<Rightarrow> sret VAL_SET_OK | Some y \<Rightarrow>
       scope_declare_identifier n (Some a') y (val_init (VAL_INTEGER 0)) True) m = Inr (st, m')"
    "state_rel m' a' R'" "scopes_kept a' m m'" "m_scopes m' ! a' = Some (sc\<lparr> sc_valmap := vm \<rparr>)"
proof (cases x)
  case None
  have "sc = sc\<lparr> sc_valmap := sc_valmap sc \<rparr>" by simp
  with None show ?thesis using assms(1,2) by (intro that [of R VAL_SET_OK m "sc_valmap sc"]) auto
next
  case (Some y)
  obtain E where E: "env_of m a' E" "list_all2 frame_rel E (fst R)" using assms(1) by (auto simp: state_rel_def)
  have a': "a' < length (m_scopes m)" using assms(1) by (rule state_rel_live)
  obtain st m' where m': "scope_declare_identifier n (Some a') y (val_init (VAL_INTEGER 0)) True m = Inr (st, m')"
    "env_of m' a' (env_declare E y (val_init (VAL_INTEGER 0)) True)" "scopes_only a' m m'"
    using E(1) by (rule declare_env)
  have "list_all2 frame_rel (env_declare E y (val_init (VAL_INTEGER 0)) True) (env_declare (fst R) y (VAL_INTEGER 0) True)"
    using declare_rel(1) [OF E(2), of y "val_init (VAL_INTEGER 0)" True] assms(3) Some by (simp add: plain_def val_init_def)
  then have "state_rel m' a' (env_declare (fst R) y (VAL_INTEGER 0) True, snd R)"
    by (rule state_rel_after [OF assms(1) m'(3,2)])
  moreover have "scopes_kept a' m m'" using m'(3) a' by (intro scopes_only_kept [of a']) simp_all
  moreover obtain vm where "m_scopes m' ! a' = Some (sc\<lparr> sc_valmap := vm \<rparr>)"
    using scopes_onlyD(4) [OF m'(3) a'] assms(2) by auto
  ultimately show ?thesis
    using m'(1) Some by (intro that [of "(env_declare (fst R) y (VAL_INTEGER 0) True, snd R)" st m' vm]) (simp_all add: on_frames_def split_def)
qed

lemma inner_loop:
  assumes x: "case x of None \<Rightarrow> True | Some y \<Rightarrow> bv y = None" and round: "round_ok a a' rr r"
  shows "inner a a'
    (sbind (case x of None \<Rightarrow> sret () | Some y \<Rightarrow> on_frames (\<lambda>E. env_declare E y (VAL_INTEGER 0) True)) (\<lambda>_. loop_rounds n goes_on rr 0))
    (sbind (scope_update (Some a') (\<lambda>sc. sc\<lparr> allow_redecl := False, sc_mode := SC_MODE_REUSE, prev_unique_id := 0, unique_id := 1 \<rparr>)) (\<lambda>_.
     sbind (case x of None \<Rightarrow> sret VAL_SET_OK | Some y \<Rightarrow> scope_declare_identifier k (Some a') y (val_init (VAL_INTEGER 0)) True) (\<lambda>_.
     loop_rounds (Suc n) goes_on r 0)))"
    (is "inner a a' ?rc ?c")
  unfolding inner_def
proof (intro allI impI)
  fix m :: machine and R sc
  assume m: "state_rel m a' R" "m_scopes m ! a' = Some sc" "sc_parent sc = Some a" "\<not> snd (hd (fst R))" and ok: "?rc R \<noteq> Inl Out_of_fuel"
  let ?f = "\<lambda>sc. sc\<lparr> allow_redecl := False, sc_mode := SC_MODE_REUSE, prev_unique_id := 0, unique_id := 1 \<rparr>"
  obtain E where E: "env_of m a' E" "list_all2 frame_rel E (fst R)" using m(1) by (auto simp: state_rel_def)
  have redecl: "\<not> allow_redecl sc" using E(1) m(2) by (elim env_of_top) auto
  have "fst R \<noteq> []" using E env_of_nonempty by auto
  then obtain g G out where R: "R = ((g, False) # G, out)" using m(4) by (cases R; cases "fst R") auto
  obtain m1 where m1: "scope_update (Some a') ?f m = Inr ((), m1)" "m_scopes m1 ! a' = Some (?f sc)" "scopes_kept a' m m1"
    "state_rel m1 a' ((g, False) # G, out)"
    by (rule scope_update_rel [OF m(1) [unfolded R] m(2), of ?f]) (use redecl in auto)
  obtain m2 R2 vm st where m2:
    "(case x of None \<Rightarrow> sret () | Some y \<Rightarrow> on_frames (\<lambda>E. env_declare E y (VAL_INTEGER 0) True)) ((g, False) # G, out) = Inr ((), R2)"
    "(case x of None \<Rightarrow> sret VAL_SET_OK | Some y \<Rightarrow>
       scope_declare_identifier k (Some a') y (val_init (VAL_INTEGER 0)) True) m1 = Inr (st, m2)"
    "state_rel m2 a' R2" "scopes_kept a' m1 m2" "m_scopes m2 ! a' = Some ((?f sc)\<lparr> sc_valmap := vm \<rparr>)"
    by (rule declare_count_rel [OF m1(4,2) x])
  have l: "loop_scope a 0 ((?f sc)\<lparr> sc_valmap := vm \<rparr>)" using m(3) by (simp add: loop_scope_def)
  have rc: "?rc R = loop_rounds n goes_on rr 0 R2" unfolding R by (simp only: sbind_step m2(1))
  have c: "?c m = loop_rounds (Suc n) goes_on r 0 m2" by (simp only: sbind_step m1(1) m2(2))
  note step = rounds_rel [OF round m2(3,5) l order_refl ok [unfolded rc]]
  have "scopes_kept a' m m2" using m1(3) m2(4) by (rule scopes_kept_trans)
  then show "case ?rc R of Inl e \<Rightarrow> ?c m = Inl e
    | Inr (d, R') \<Rightarrow> \<exists>v m' sc'. ?c m = Inr (v, m') \<and> state_rel m' a' R' \<and> scopes_kept a' m m' \<and> m_scopes m' ! a' = Some sc' \<and> sc_parent sc' = Some a"
    using step unfolding rc c
    by (auto simp del: loop_rounds.simps simp: loop_scope_def split: sum.splits dest: scopes_kept_trans)
qed

lemma sim_loop:
  assumes x: "case x of None \<Rightarrow> True | Some y \<Rightarrow> bv y = None"
    and c: "case c of None \<Rightarrow> True | Some e \<Rightarrow> sim N a val_rel (re e) (ev (Some a) e)"
    and body: "\<And>a'. sim (Suc a') a' (\<lambda>_ _. True)
      (case body of NODE_BLOCK l ns \<Rightarrow> sbind (ref_all re ns) (\<lambda>_. sret VAL_NULL) | _ \<Rightarrow> re body)
      (case body of NODE_BLOCK l cs \<Rightarrow> eval_block_no_scope ev (Some a') cs | _ \<Rightarrow> ev (Some a') body)"
  shows "sim N a val_rel (ref_loop n re l c x body) (eval_loop_stmt (Suc n) ev (Some a) l c x body)"
proof -
  have count: "sim N a val_rel (case c of None \<Rightarrow> sret (VAL_BOOLEAN True) | Some e \<Rightarrow> re e)
      (case c of None \<Rightarrow> sret (val_init (VAL_BOOLEAN True)) | Some e \<Rightarrow> ev (Some a) e)"
    using c by (cases c) (auto intro: sim_ret simp: val_rel_def val_init_def plain_def)
  have check: "sim N a (\<lambda>_ _. True)
      (case d of VAL_BOOLEAN b \<Rightarrow> sret ()
       | VAL_INTEGER k \<Rightarrow> if k < 0 then sthrow (error_of l ''the iteration count must not be a negative number'') else sret ()
       | d \<Rightarrow> sthrow (error_of l (''type '' @ quoted (val_type_to_str d) @ '' is not iterable'')))
      (case d of VAL_BOOLEAN b \<Rightarrow> sret ()
       | VAL_INTEGER k \<Rightarrow> if k < 0 then error_at l ''the iteration count must not be a negative number'' else sret ()
       | d \<Rightarrow> error_at l (''type '' @ quoted (val_type_to_str d) @ '' is not iterable''))" for d
    by (cases d) (auto intro!: sim_ret sim_throw simp: error_at_apply)
  have rest: "sim N a val_rel
      (ref_scoped (sbind (case x of None \<Rightarrow> sret () | Some y \<Rightarrow> on_frames (\<lambda>E. env_declare E y (VAL_INTEGER 0) True)) (\<lambda>_.
        loop_rounds n (loop_goes_on d) (ref_round re x body) 0)))
      (sbind (scope_init (Suc n) (Some a)) (\<lambda>s'. sbind (sbind (scope_update s' (\<lambda>sc. sc\<lparr> allow_redecl := False, sc_mode := SC_MODE_REUSE,
            prev_unique_id := 0, unique_id := 1 \<rparr>)) (\<lambda>_.
          sbind (case x of None \<Rightarrow> sret VAL_SET_OK | Some y \<Rightarrow> scope_declare_identifier (Suc n) s' y (val_init (VAL_INTEGER 0)) True) (\<lambda>_.
          loop_rounds (Suc n) (loop_goes_on d) (loop_round (Suc n) ev s' x body) 0)))
        (\<lambda>_. sbind (scope_free (Suc n) s') (\<lambda>_. sret BLAZE_NULL))))" for d
    by (rule sim_scoped, rule inner_loop [OF x], rule loop_round_ok [OF x], rule body)
  have "sim N a val_rel (ref_loop n re l c x body)
      (sbind (case c of None \<Rightarrow> sret (val_init (VAL_BOOLEAN True)) | Some e \<Rightarrow> ev (Some a) e) (\<lambda>count.
       sbind (case val_data count of VAL_BOOLEAN b \<Rightarrow> sret ()
         | VAL_INTEGER k \<Rightarrow> if k < 0 then error_at l ''the iteration count must not be a negative number'' else sret ()
         | d \<Rightarrow> error_at l (''type '' @ quoted (val_type_to_str d) @ '' is not iterable'')) (\<lambda>_.
       sbind (scope_init (Suc n) (Some a)) (\<lambda>s'. sbind (sbind (scope_update s' (\<lambda>sc. sc\<lparr> allow_redecl := False, sc_mode := SC_MODE_REUSE,
            prev_unique_id := 0, unique_id := 1 \<rparr>)) (\<lambda>_.
          sbind (case x of None \<Rightarrow> sret VAL_SET_OK | Some y \<Rightarrow> scope_declare_identifier (Suc n) s' y (val_init (VAL_INTEGER 0)) True) (\<lambda>_.
          loop_rounds (Suc n) (loop_goes_on (val_data count)) (loop_round (Suc n) ev s' x body) 0)))
        (\<lambda>_. sbind (scope_free (Suc n) s') (\<lambda>_. sret BLAZE_NULL))))))"
    unfolding ref_loop_def
  proof (rule sim_bind [OF count])
    fix v d assume "val_rel v d"
    then have d: "val_data v = d" by (simp add: val_rel_def)
    show "sim N a val_rel
        (sbind (case d of VAL_BOOLEAN b \<Rightarrow> sret ()
           | VAL_INTEGER k \<Rightarrow> if k < 0 then sthrow (error_of l ''the iteration count must not be a negative number'') else sret ()
           | d \<Rightarrow> sthrow (error_of l (''type '' @ quoted (val_type_to_str d) @ '' is not iterable''))) (\<lambda>_.
         ref_scoped (sbind (case x of None \<Rightarrow> sret () | Some y \<Rightarrow> on_frames (\<lambda>E. env_declare E y (VAL_INTEGER 0) True)) (\<lambda>_.
           loop_rounds n (loop_goes_on d) (ref_round re x body) 0))))
        (sbind (case val_data v of VAL_BOOLEAN b \<Rightarrow> sret ()
           | VAL_INTEGER k \<Rightarrow> if k < 0 then error_at l ''the iteration count must not be a negative number'' else sret ()
           | d \<Rightarrow> error_at l (''type '' @ quoted (val_type_to_str d) @ '' is not iterable'')) (\<lambda>_.
         sbind (scope_init (Suc n) (Some a)) (\<lambda>s'. sbind (sbind (scope_update s' (\<lambda>sc. sc\<lparr> allow_redecl := False, sc_mode := SC_MODE_REUSE,
              prev_unique_id := 0, unique_id := 1 \<rparr>)) (\<lambda>_.
            sbind (case x of None \<Rightarrow> sret VAL_SET_OK | Some y \<Rightarrow> scope_declare_identifier (Suc n) s' y (val_init (VAL_INTEGER 0)) True) (\<lambda>_.
            loop_rounds (Suc n) (loop_goes_on (val_data v)) (loop_round (Suc n) ev s' x body) 0)))
          (\<lambda>_. sbind (scope_free (Suc n) s') (\<lambda>_. sret BLAZE_NULL)))))"
      unfolding d by (rule sim_bind, rule check, rule rest)
  qed
  then show ?thesis by (simp only: eval_loop_stmt_def sbind_assoc)
qed

section \<open>All nodes\<close>

lemma not_builtin: "x \<notin> set builtin_names \<Longrightarrow> bv x = None"
  using bv_names [of x] by auto

lemma eval_int_sret: "eval_int i = sret (val_init (VAL_INTEGER i))"
  by (simp add: eval_int_def val_create_def)

lemma sim_eval_int: "sim N a val_rel (sret (VAL_INTEGER i)) (eval_int i)"
  unfolding eval_int_sret by (rule sim_ret) (simp add: val_rel_def val_init_def plain_def)

lemma pure_eval: "pure_expr node \<Longrightarrow> pure_sim a val_rel (ref_eval n node) (eval (Suc n) (Some a) node)"
proof (induction n arbitrary: node)
  case 0
  then show ?case by (simp add: pure_sim_def)
next
  case (Suc n)
  show ?case
  proof (cases node)
    case (NODE_INT_LIT l i)
    show ?thesis
      unfolding NODE_INT_LIT ref_eval.simps(2) [of n] eval.simps(2) [of "Suc n"] ref_body_def eval_body_def ast_node.case eval_int_sret
      by (rule pure_sim_ret) (simp add: val_rel_def val_init_def plain_def)
  next
    case (NODE_IDENTIFIER l x)
    with Suc.prems show ?thesis
      unfolding NODE_IDENTIFIER ref_eval.simps(2) [of n] eval.simps(2) [of "Suc n"] ref_body_def eval_body_def ast_node.case by (intro pure_identifier not_builtin) simp
  next
    case (NODE_BINARY_EXPR l op x y)
    with Suc.prems have "\<forall>c. op \<noteq> OP_RAW c" "pure_expr x" "pure_expr y" by simp_all
    then show ?thesis
      unfolding NODE_BINARY_EXPR ref_eval.simps(2) [of n] eval.simps(2) [of "Suc n"] ref_body_def eval_body_def ast_node.case by (intro pure_binexp Suc.IH)
  qed (use Suc.prems in simp_all)
qed

lemma sim_eval: "in_fragment node \<Longrightarrow> sim N a val_rel (ref_eval n node) (eval (Suc n) (Some a) node)"
proof (induction n arbitrary: N a node)
  case 0
  then show ?case by (simp add: sim_def)
next
  case (Suc n)
  note IH = Suc.IH
  show ?case
  proof (cases node)
    case (NODE_INT_LIT l i)
    show ?thesis unfolding NODE_INT_LIT ref_eval.simps(2) [of n] eval.simps(2) [of "Suc n"] ref_body_def eval_body_def ast_node.case by (rule sim_eval_int)
  next
    case (NODE_IDENTIFIER l x)
    with Suc.prems show ?thesis
      unfolding NODE_IDENTIFIER ref_eval.simps(2) [of n] eval.simps(2) [of "Suc n"] ref_body_def eval_body_def ast_node.case by (intro pure_sim_sim pure_identifier not_builtin) simp
  next
    case (NODE_BINARY_EXPR l op x y)
    with Suc.prems have "\<forall>c. op \<noteq> OP_RAW c" "in_fragment x" "in_fragment y" by simp_all
    then show ?thesis
      unfolding NODE_BINARY_EXPR ref_eval.simps(2) [of n] eval.simps(2) [of "Suc n"] ref_body_def eval_body_def ast_node.case by (intro sim_binexp IH)
  next
    case (NODE_VAR_DECL l x c v)
    have "case v of None \<Rightarrow> True | Some e \<Rightarrow> sim N a val_rel (ref_eval n e) (eval (Suc n) (Some a) e)"
      using Suc.prems NODE_VAR_DECL by (cases v) (simp_all del: eval.simps add: IH)
    moreover have "bv x = None" using Suc.prems NODE_VAR_DECL by (intro not_builtin) simp
    ultimately show ?thesis
      unfolding NODE_VAR_DECL ref_eval.simps(2) [of n] eval.simps(2) [of "Suc n"] ref_body_def eval_body_def ast_node.case by (intro sim_var_decl)
  next
    case (NODE_ASSIGNMENT l b v)
    then obtain la x where b: "b = NODE_IDENTIFIER la x" "x \<notin> set builtin_names" "in_fragment v"
      using Suc.prems by (cases b) auto
    show ?thesis
      unfolding NODE_ASSIGNMENT ref_eval.simps(2) [of n] eval.simps(2) [of "Suc n"] ref_body_def eval_body_def ast_node.case b(1) identifier_loc identifier_symbol.simps
      by (intro sim_assignment not_builtin b(2) IH b(3))
  next
    case (NODE_EXPR_CALL l f es)
    with Suc.prems have "f \<in> {''println'', ''print''}" "es \<noteq> []" "\<forall>e \<in> set es. pure_expr e" by simp_all
    then show ?thesis
      unfolding NODE_EXPR_CALL ref_eval.simps(2) [of n] eval.simps(2) [of "Suc n"] ref_body_def eval_body_def ast_node.case by (intro sim_print pure_eval) simp_all
  next
    case (NODE_BLOCK l es)
    with Suc.prems have "\<forall>e \<in> set es. in_fragment e" by simp
    then show ?thesis
      unfolding NODE_BLOCK ref_eval.simps(2) [of n] eval.simps(2) [of "Suc n"] ref_body_def eval_body_def ast_node.case by (intro sim_block IH) simp
  next
    case (NODE_ROOT l es)
    with Suc.prems have "\<forall>e \<in> set es. in_fragment e" by simp
    then show ?thesis
      unfolding NODE_ROOT ref_eval.simps(2) [of n] eval.simps(2) [of "Suc n"] ref_body_def eval_body_def ast_node.case
      by (intro sim_last IH) (simp_all add: val_rel_def null_val_def plain_def)
  next
    case (NODE_IF_STMT l c t e)
    have "case e of None \<Rightarrow> True | Some b \<Rightarrow> sim N a val_rel (ref_eval n b) (eval (Suc n) (Some a) b)"
      using Suc.prems NODE_IF_STMT by (cases e) (simp_all del: eval.simps add: IH)
    moreover have "in_fragment c" "in_fragment t" using Suc.prems NODE_IF_STMT by simp_all
    ultimately show ?thesis
      unfolding NODE_IF_STMT ref_eval.simps(2) [of n] eval.simps(2) [of "Suc n"] ref_body_def eval_body_def ast_node.case by (intro sim_if IH)
  next
    case (NODE_LOOP_STMT l c x b)
    have "case c of None \<Rightarrow> True | Some e \<Rightarrow> sim N a val_rel (ref_eval n e) (eval (Suc n) (Some a) e)"
      using Suc.prems NODE_LOOP_STMT by (cases c) (simp_all del: eval.simps add: IH)
    moreover have "case x of None \<Rightarrow> True | Some y \<Rightarrow> bv y = None"
      using Suc.prems NODE_LOOP_STMT not_builtin by (cases x) auto
    moreover have b: "in_fragment b" using Suc.prems NODE_LOOP_STMT by simp
    have "sim (Suc a') a' (\<lambda>_ _. True)
        (case b of NODE_BLOCK l ns \<Rightarrow> sbind (ref_all (ref_eval n) ns) (\<lambda>_. sret VAL_NULL) | _ \<Rightarrow> ref_eval n b)
        (case b of NODE_BLOCK l cs \<Rightarrow> eval_block_no_scope (eval (Suc n)) (Some a') cs | _ \<Rightarrow> eval (Suc n) (Some a') b)" for a'
    proof (cases "\<exists>l ns. b = NODE_BLOCK l ns")
      case True
      then obtain l ns where ns: "b = NODE_BLOCK l ns" by auto
      with b have "\<forall>e \<in> set ns. in_fragment e" by simp
      then show ?thesis
        unfolding ns ast_node.case eval_block_no_scope_def
        by (intro sim_bind [OF sim_children] sim_ret IH) simp_all
    next
      case False
      have "sim (Suc a') a' (\<lambda>_ _. True) (ref_eval n b) (eval (Suc n) (Some a') b)"
        by (rule sim_mono [OF IH [OF b]]) simp
      with False show ?thesis by (auto split: ast_node.splits)
    qed
    ultimately show ?thesis
      unfolding NODE_LOOP_STMT ref_eval.simps(2) [of n] eval.simps(2) [of "Suc n"] ref_body_def eval_body_def ast_node.case by (intro sim_loop)
  qed (use Suc.prems in simp_all)
qed

end

end
