(* ===== verification/Block_Program.thy ===== *)
theory Block_Program
  imports Block_Refinement
begin

text \<open>
  Whole programs of the fragment: what the start of a run builds, what its end frees, and the
  refinement theorem.
\<close>

section \<open>The end of a run\<close>

lemma builtin_fns_freed:
  assumes "\<And>e f. Some e \<in> set es \<Longrightarrow> val_data (ve_value e) = VAL_FUNCTION f \<Longrightarrow>
      \<exists>a b. f = Some a \<and> a < length (m_fns m) \<and> m_fns m ! a = Some (FN_BUILT_IN b)"
    and "\<And>e e' f. Some e \<in> set es \<Longrightarrow> Some e' \<in> set es \<Longrightarrow> val_data (ve_value e) = VAL_FUNCTION f \<Longrightarrow>
      val_data (ve_value e') = VAL_FUNCTION f \<Longrightarrow> ve_key e = ve_key e'"
    and "distinct (map ve_key (entries es))"
  shows "\<exists>es' h. valmap_free_builtin_fns es m = Inr (es', m\<lparr> m_fns := h \<rparr>) \<and> set es' \<subseteq> insert None (set es)"
  using assms
proof (induction es arbitrary: m)
  case Nil
  have "m = m\<lparr> m_fns := m_fns m \<rparr>" by simp
  then show ?case by (auto intro: exI [of _ "m_fns m"])
next
  case (Cons e es)
  have IH: "\<exists>es' h. valmap_free_builtin_fns es m' = Inr (es', m'\<lparr> m_fns := h \<rparr>) \<and> set es' \<subseteq> insert None (set es)"
    if live: "\<And>e f. Some e \<in> set es \<Longrightarrow> val_data (ve_value e) = VAL_FUNCTION f \<Longrightarrow>
      \<exists>a b. f = Some a \<and> a < length (m_fns m') \<and> m_fns m' ! a = Some (FN_BUILT_IN b)" for m'
  proof (rule Cons.IH)
    show "\<exists>a b. f = Some a \<and> a < length (m_fns m') \<and> m_fns m' ! a = Some (FN_BUILT_IN b)"
      if "Some x \<in> set es" "val_data (ve_value x) = VAL_FUNCTION f" for x f by (rule live [OF that])
    show "ve_key x = ve_key y"
      if "Some x \<in> set es" "Some y \<in> set es" "val_data (ve_value x) = VAL_FUNCTION f" "val_data (ve_value y) = VAL_FUNCTION f" for x y f
      using that by (intro Cons.prems(2)) simp_all
    show "distinct (map ve_key (entries es))" using Cons.prems(3) by (cases e) simp_all
  qed
  have rest: "\<exists>a b. f = Some a \<and> a < length (m_fns m) \<and> m_fns m ! a = Some (FN_BUILT_IN b)"
    if "Some x \<in> set es" "val_data (ve_value x) = VAL_FUNCTION f" for x f
    using that by (intro Cons.prems(1)) simp_all
  have tail: "\<exists>es' h. valmap_free_builtin_fns es m = Inr (es', m\<lparr> m_fns := h \<rparr>) \<and> set es' \<subseteq> insert None (set es)"
    by (rule IH) (rule rest)
  show ?case
  proof (cases e)
    case None
    obtain es' h where "valmap_free_builtin_fns es m = Inr (es', m\<lparr> m_fns := h \<rparr>)" "set es' \<subseteq> insert None (set es)"
      using tail by auto
    then show ?thesis using None by (auto simp: sbind_step)
  next
    case (Some x)
    show ?thesis
    proof (cases "\<exists>f. val_data (ve_value x) = VAL_FUNCTION f")
      case False
      obtain es' h where "valmap_free_builtin_fns es m = Inr (es', m\<lparr> m_fns := h \<rparr>)" "set es' \<subseteq> insert None (set es)"
        using tail by auto
      with False show ?thesis using Some by (cases "val_data (ve_value x)") (auto simp: sbind_step)
    next
      case True
      then obtain a b where a: "val_data (ve_value x) = VAL_FUNCTION (Some a)" "a < length (m_fns m)" "m_fns m ! a = Some (FN_BUILT_IN b)"
        using Cons.prems(1) [of x] Some by auto
      let ?m = "m\<lparr> m_fns := (m_fns m)[a := None] \<rparr>"
      have other: "a' \<noteq> a" if "Some e' \<in> set es" "val_data (ve_value e') = VAL_FUNCTION (Some a')" for e' a'
      proof
        assume "a' = a"
        then have "ve_key e' = ve_key x" using Cons.prems(2) [of e' x "Some a"] that a(1) Some by simp
        moreover have "ve_key x \<notin> ve_key ` set (entries es)" using Cons.prems(3) Some by simp
        moreover have "e' \<in> set (entries es)" using that(1) by simp
        ultimately show False by (metis image_eqI)
      qed
      have live': "\<exists>a b. f = Some a \<and> a < length (m_fns ?m) \<and> m_fns ?m ! a = Some (FN_BUILT_IN b)"
        if "Some x \<in> set es" "val_data (ve_value x) = VAL_FUNCTION f" for x f
      proof -
        note x = that
        obtain a' b' where "f = Some a'" "a' < length (m_fns m)" "m_fns m ! a' = Some (FN_BUILT_IN b')"
          using rest [OF x] by auto
        with other [of x a'] x show ?thesis by (intro exI [of _ a'] exI [of _ b']) simp
      qed
      have "\<exists>es' h. valmap_free_builtin_fns es ?m = Inr (es', ?m\<lparr> m_fns := h \<rparr>) \<and> set es' \<subseteq> insert None (set es)"
        by (rule IH) (rule live')
      then obtain es' h where "valmap_free_builtin_fns es ?m = Inr (es', ?m\<lparr> m_fns := h \<rparr>)" "set es' \<subseteq> insert None (set es)"
        by blast
      moreover have "fn_at (Some a) m = Inr (FN_BUILT_IN b, m)" using a by (simp add: at_addr_def)
      moreover have "free_addr m_fns m_fns_update (Some a) m = Inr ((), ?m)"
        using a by (simp add: free_addr_def put_addr_def at_addr_def sbind_def)
      ultimately show ?thesis using Some a(1) by (auto simp: sbind_step)
    qed
  qed
qed

lemma free_cells_nothing:
  "(\<And>v. v \<in> set (tbl_values (m_tbl m)) \<Longrightarrow> nofree v) \<Longrightarrow> i + k \<le> length (tbl_values (m_tbl m)) \<Longrightarrow>
   free_cells sf (tbl_generation (m_tbl m)) i k m = Inr ((), m)"
proof (induction k arbitrary: i)
  case (Suc k)
  let ?v = "tbl_values (m_tbl m) ! i" and ?p = "Cell (tbl_generation (m_tbl m)) i"
  have at: "val_at ?p m = Inr (?v, m)" using Suc.prems(2) by (simp add: val_at_def sbind_def)
  have "nofree ?v" using Suc.prems by (intro Suc.prems(1) nth_mem) simp
  then have "val_free_force_no_root sf ?p m = Inr ((), m)"
    by (simp add: val_free_force_no_root_def val_free_inner_def sbind_step at)
  then show ?case using Suc by (simp add: sbind_step at)
qed simp

context started
begin

lemma frame_rel_entry:
  assumes "frame_rel (frame_of sc) g" "valmap_ok (sc_valmap sc)" "Some e \<in> set (vm_array (sc_valmap sc))"
  shows "bv (ve_key e) = Some (ve_value e) \<or> bv (ve_key e) = None \<and> plain (ve_value e)"
proof -
  obtain j where "j < length (vm_array (sc_valmap sc))" "vm_array (sc_valmap sc) ! j = Some e"
    using assms(3) by (auto simp: in_set_conv_nth)
  then have "table_map ve_key (vm_array (sc_valmap sc)) (ve_key e) = Some e"
    using valmap_okD(1) [OF assms(2)] by (intro table_map_nth)
  then have "fst (frame_of sc) (ve_key e) = Some (ve_value e, ve_is_const e)"
    by (simp add: frame_of_def valmap_abs_def)
  moreover have "name_rel (ve_key e) (fst (frame_of sc) (ve_key e)) (fst g (ve_key e))"
    using assms(1) by (simp add: frame_rel_def)
  ultimately show ?thesis by (auto simp: name_rel_def split: option.splits)
qed

lemma end_of_run:
  assumes "state_rel m a ([g], out)"
  obtains m' where "sbind (scope_free (Suc n) (Some a)) (\<lambda>_. val_alloc_tbl_global_free k) m = Inr ((), m')" "m_out m' = out"
proof -
  obtain E where E: "env_of m a E" "list_all2 frame_rel E [g]" and run: "running m" "m_out m = out"
    using assms by (auto simp: state_rel_def)
  obtain sc where top: "a < length (m_scopes m)" "m_scopes m ! a = Some sc" "valmap_ok (sc_valmap sc)" "sc_parent sc = None"
    and fr: "frame_rel (frame_of sc) g"
    using E by (elim env_of_top) (auto dest: env_of_nonempty simp: list_all2_Cons2)
  let ?es = "vm_array (sc_valmap sc)"
  note entry = frame_rel_entry [OF fr top(3)]
  have fns: "m_fns m = m_fns base" and tbl: "m_tbl m = m_tbl base" using run by (simp_all add: running_def)
  have fn_entry: "bv (ve_key e) = Some (ve_value e)" if "Some e \<in> set ?es" "val_data (ve_value e) = VAL_FUNCTION f" for e f
    using entry [OF that(1)] that(2) by (auto simp: plain_def)
  obtain es' h where es': "valmap_free_builtin_fns ?es m = Inr (es', m\<lparr> m_fns := h \<rparr>)" "set es' \<subseteq> insert None (set ?es)"
  proof -
    have "\<exists>es' h. valmap_free_builtin_fns ?es m = Inr (es', m\<lparr> m_fns := h \<rparr>) \<and> set es' \<subseteq> insert None (set ?es)"
    proof (rule builtin_fns_freed)
      show "\<exists>a b. f = Some a \<and> a < length (m_fns m) \<and> m_fns m ! a = Some (FN_BUILT_IN b)"
        if "Some e \<in> set ?es" "val_data (ve_value e) = VAL_FUNCTION f" for e f
        using bv_fn [OF fn_entry [OF that]] that(2) fns by auto
      show "ve_key e = ve_key e'"
        if "Some e \<in> set ?es" "Some e' \<in> set ?es" "val_data (ve_value e) = VAL_FUNCTION f" "val_data (ve_value e') = VAL_FUNCTION f" for e e' f
        using bv_inj [OF fn_entry [OF that(1,3)] fn_entry [OF that(2,4)]] that(3,4) by simp
      show "distinct (map ve_key (entries ?es))" by (rule reachable_distinct [OF valmap_okD(1) [OF top(3)]])
    qed
    then show ?thesis using that by auto
  qed
  let ?m = "m\<lparr> m_fns := h \<rparr>"
  have "valmap_free (scope_free n) True es' ?m = Inr ((), ?m)"
  proof (rule valmap_free_nothing)
    fix e assume "Some e \<in> set es'"
    then have "Some e \<in> set ?es" using es'(2) by auto
    then show "nofree (ve_value e) \<or> self_ptr (ve_value e) = None" by (rule frame_rel_entries [OF fr top(3)])
  qed
  then have free: "scope_free (Suc n) (Some a) m = Inr ((), ?m\<lparr> m_scopes := (m_scopes m)[a := None] \<rparr>)"
    using top by (simp add: scope_free_body_def sbind_step at_addr_Some es'(1) free_addr_def scope_put_Some [of a ?m])
  let ?e = "?m\<lparr> m_scopes := (m_scopes m)[a := None] \<rparr>"
  have cells: "free_cells (scope_free k) (tbl_generation (m_tbl ?e)) 0 (length (tbl_values (m_tbl ?e))) ?e = Inr ((), ?e)"
    by (rule free_cells_nothing) (use tbl cells_kept in auto)
  have "val_alloc_tbl_global_free k ?e = Inr ((), ?e)"
    unfolding val_alloc_tbl_global_free_def val_alloc_tbl_free_def using cells by (simp add: sbind_def)
  with free have "sbind (scope_free (Suc n) (Some a)) (\<lambda>_. val_alloc_tbl_global_free k) m = Inr ((), ?e)"
    by (simp add: sbind_step)
  then show ?thesis by (rule that) (use run in simp)
qed

end

section \<open>The start of a run\<close>

definition builtin_cell :: "nat \<Rightarrow> nat \<Rightarrow> nat \<Rightarrow> val_t" where
  "builtin_cell g i a = \<lparr> nofree = True, self_ptr = Some (Cell g i), val_data = VAL_FUNCTION (Some a) \<rparr>"

text \<open>The values that creating the built-in functions from cell \<open>i\<close> and object \<open>a\<close> on makes.\<close>

fun installed :: "nat \<Rightarrow> nat \<Rightarrow> nat \<Rightarrow> (string \<times> builtin \<times> val_ptr option) list \<Rightarrow> (string \<times> val_t) list" where
  "installed g i a [] = []"
| "installed g i a ((x, b, p) # bs) = (x, builtin_cell g i a) # installed g (Suc i) (Suc a) bs"

fun installed_fns :: "nat \<Rightarrow> nat \<Rightarrow> (string \<times> builtin \<times> val_ptr option) list \<Rightarrow> (string \<times> builtin \<times> val_ptr option) list" where
  "installed_fns g i [] = []"
| "installed_fns g i ((x, b, p) # bs) = (x, b, Some (Cell g i)) # installed_fns g (Suc i) bs"

lemma create_one:
  assumes "tbl_head (m_tbl m) = []" "length (tbl_values (m_tbl m)) < tbl_capacity (m_tbl m) - 1"
  defines "g \<equiv> tbl_generation (m_tbl m)" and "i \<equiv> length (tbl_values (m_tbl m))" and "a \<equiv> length (m_fns m)"
  shows "sbind (val_create_heap (VAL_FUNCTION None)) (\<lambda>p.
     sbind (val_at p) (\<lambda>v.
     let v' = v\<lparr> nofree := True \<rparr> in
     sbind (val_put p v') (\<lambda>_.
     sbind (fn_put (case val_data v of VAL_FUNCTION f \<Rightarrow> f | _ \<Rightarrow> None) (Some (FN_BUILT_IN (Some b)))) (\<lambda>_. c p v')))) m
   = c (Cell g i) (builtin_cell g i a)
       (m\<lparr> m_fns := m_fns m @ [Some (FN_BUILT_IN (Some b))],
          m_tbl := (m_tbl m)\<lparr> tbl_values := tbl_values (m_tbl m) @ [builtin_cell g i a] \<rparr> \<rparr>)"
  using assms(1,2)
  unfolding val_create_heap_def val_create_def val_init_heap_def val_alloc_def val_alloc_tbl_resize_def Let_def
  by (cases m) (simp add: sbind_def alloc_addr_def val_init_def val_at_def val_put_def put_addr_def at_addr_def builtin_cell_def
      g_def i_def a_def)

text \<open>The machine with the functions and the values of the built-in functions, and other scopes.\<close>

definition installed_in :: "machine \<Rightarrow> (string \<times> builtin \<times> val_ptr option) list \<Rightarrow> machine" where
  "installed_in m bs =
     m\<lparr> m_fns := m_fns m @ map (\<lambda>(x, b, p). Some (FN_BUILT_IN (Some b))) bs,
        m_tbl := (m_tbl m)\<lparr> tbl_values := tbl_values (m_tbl m) @
          map snd (installed (tbl_generation (m_tbl m)) (length (tbl_values (m_tbl m))) (length (m_fns m)) bs) \<rparr> \<rparr>"

lemma installed_names: "map fst (installed g i a bs) = map fst bs"
  by (induction bs arbitrary: i a) auto

lemma create_builtins_env:
  assumes "env_of m s ((f, r) # E)" "tbl_head (m_tbl m) = []"
    and "length (tbl_values (m_tbl m)) + length bs < tbl_capacity (m_tbl m)"
    and "distinct (map fst bs)" "\<forall>x \<in> fst ` set bs. f x = None"
  defines "inst \<equiv> installed (tbl_generation (m_tbl m)) (length (tbl_values (m_tbl m))) (length (m_fns m)) bs"
  shows "\<exists>m'. create_builtins n (Some s) bs m = Inr (installed_fns (tbl_generation (m_tbl m)) (length (tbl_values (m_tbl m))) bs, m') \<and>
     m' = (installed_in m bs)\<lparr> m_scopes := m_scopes m' \<rparr> \<and>
     env_of m' s ((\<lambda>x. case map_of inst x of Some v \<Rightarrow> Some (v, True) | None \<Rightarrow> f x, r) # E)"
  using assms(1-5) unfolding assms(6)
proof (induction bs arbitrary: m f)
  case Nil
  have "m = (installed_in m [])\<lparr> m_scopes := m_scopes m \<rparr>" by (simp add: installed_in_def)
  with Nil show ?case by auto
next
  case (Cons e bs)
  obtain x b p where e: "e = (x, b, p)" by (cases e)
  let ?g = "tbl_generation (m_tbl m)" and ?i = "length (tbl_values (m_tbl m))" and ?a = "length (m_fns m)"
  let ?v = "builtin_cell ?g ?i ?a"
  let ?m = "m\<lparr> m_fns := m_fns m @ [Some (FN_BUILT_IN (Some b))], m_tbl := (m_tbl m)\<lparr> tbl_values := tbl_values (m_tbl m) @ [?v] \<rparr> \<rparr>"
  have "env_of ?m s ((f, r) # E)" using Cons.prems(1) by (rule env_of_cong) auto
  moreover have "f x = None" using Cons.prems(5) e by simp
  ultimately obtain m1 where m1: "scope_declare_identifier n (Some s) x ?v True ?m = Inr (VAL_SET_OK, m1)"
    "env_of m1 s ((f(x \<mapsto> (?v, True)), r) # E)" "scopes_only s ?m m1"
    using declare_env [of ?m s "(f, r) # E" n x ?v True] by auto
  obtain h where h: "m1 = ?m\<lparr> m_scopes := h \<rparr>" using scopes_onlyD(1) [OF m1(3)] by blast
  have none: "\<forall>y \<in> fst ` set bs. (f(x \<mapsto> (?v, True))) y = None" using Cons.prems(4,5) e by auto
  obtain m' where m': "create_builtins n (Some s) bs m1 = Inr (installed_fns ?g (Suc ?i) bs, m')"
    "m' = (installed_in m1 bs)\<lparr> m_scopes := m_scopes m' \<rparr>"
    "env_of m' s ((\<lambda>y. case map_of (installed ?g (Suc ?i) (Suc ?a) bs) y of Some v \<Rightarrow> Some (v, True) | None \<Rightarrow> (f(x \<mapsto> (?v, True))) y, r) # E)"
    using Cons.IH [OF m1(2) _ _ _ none] Cons.prems(2-4) h by auto
  have "create_builtins n (Some s) (e # bs) m = Inr ((x, b, Some (Cell ?g ?i)) # installed_fns ?g (Suc ?i) bs, m')"
    using Cons.prems(2,3) unfolding e create_builtins.simps
    by (subst create_one) (simp_all add: sbind_step m1(1) m'(1))
  moreover have "m' = (installed_in m (e # bs))\<lparr> m_scopes := m_scopes m' \<rparr>"
    by (subst m'(2)) (simp add: h e installed_in_def)
  moreover have "(\<lambda>y. case map_of (installed ?g (Suc ?i) (Suc ?a) bs) y of Some v \<Rightarrow> Some (v, True) | None \<Rightarrow> (f(x \<mapsto> (?v, True))) y)
      = (\<lambda>y. case map_of (installed ?g ?i ?a (e # bs)) y of Some v \<Rightarrow> Some (v, True) | None \<Rightarrow> f y)"
  proof
    fix y
    have "x \<notin> fst ` set (installed ?g (Suc ?i) (Suc ?a) bs)"
      using Cons.prems(4) e installed_names [of ?g "Suc ?i" "Suc ?a" bs] by (metis distinct.simps(2) fst_conv list.simps(9) set_map)
    then have "map_of (installed ?g (Suc ?i) (Suc ?a) bs) x = None" by (simp add: map_of_eq_None_iff)
    then show "(case map_of (installed ?g (Suc ?i) (Suc ?a) bs) y of Some v \<Rightarrow> Some (v, True) | None \<Rightarrow> (f(x \<mapsto> (?v, True))) y)
      = (case map_of (installed ?g ?i ?a (e # bs)) y of Some v \<Rightarrow> Some (v, True) | None \<Rightarrow> f y)"
      by (auto simp: e split: option.split)
  qed
  ultimately show ?case using m'(3) by (auto simp: e)
qed

text \<open>The machine after \<^verbatim>\<open>scope_create_global\<close>, and the values of the built-in functions in it.\<close>

definition builtin_table :: "(string \<times> builtin \<times> val_ptr option) list" where
  "builtin_table =
     [(''println'', FN_println, None), (''print'', FN_print, None), (''vector'', FN_array, None),
      (''array_filter'', FN_array_filter, None), (''read'', FN_read, None), (''exit'', FN_exit, None)]"

definition start_run :: "nat \<Rightarrow> addr option run" where
  "start_run n = sbind val_alloc_tbl_global_init (\<lambda>_. scope_create_global n)"

definition started_machine :: "nat \<Rightarrow> environment \<Rightarrow> machine" where
  "started_machine n env = (case start_run n (initial_machine env) of Inr (s, m) \<Rightarrow> m | Inl e \<Rightarrow> initial_machine env)"

definition builtin_value :: "string \<Rightarrow> val_t option" where
  "builtin_value = map_of (installed 0 0 0 builtin_table)"

definition constant_names :: "string \<Rightarrow> (val_t \<times> bool) option" where
  "constant_names = [''true'' \<mapsto> (true_val, True), ''false'' \<mapsto> (false_val, True), ''null'' \<mapsto> (null_val, True)]"

lemma start_of_run:
  "\<exists>m. start_run n (initial_machine env) = Inr (Some 0, m) \<and>
     m = (installed_in (initial_machine env) builtin_table)\<lparr> m_scopes := m_scopes m, builtin_functions := installed_fns 0 0 builtin_table \<rparr> \<and>
     env_of m 0 [(\<lambda>x. case builtin_value x of Some v \<Rightarrow> Some (v, True) | None \<Rightarrow> constant_names x, False)]"
proof -
  let ?first = "initial_machine env"
  let ?one = "?first\<lparr> m_scopes := [Some (new_scope None)] \<rparr>"
  have m0: "m_tbl ?first = val_alloc_tbl_init" "m_scopes ?first = []" "m_fns ?first = []" "builtin_functions ?first = builtin_table"
    by (simp_all add: initial_machine_def builtin_table_def)
  have init: "val_alloc_tbl_global_init ?first = Inr ((), ?first)"
    by (simp add: val_alloc_tbl_global_init_def initial_machine_def)
  have new: "scope_init n None ?first = Inr (Some 0, ?one)"
    using m0(2) by (cases ?first) (simp add: scope_init_def alloc_addr_def sbind_def)
  have "frame_of (new_scope None) = (\<lambda>_. None, False)"
    by (simp add: frame_of_def new_scope_def fun_eq_iff valmap_ok_init)
  moreover have "env_of ?one 0 [frame_of (new_scope None)]"
    by (rule env_of.env_global) (simp_all add: new_scope_def valmap_ok_init)
  ultimately have e1: "env_of ?one 0 [(\<lambda>_. None, False)]" by simp
  obtain m2 where m2: "scope_declare_identifier n (Some 0) ''true'' true_val True ?one = Inr (VAL_SET_OK, m2)"
    "env_of m2 0 [([''true'' \<mapsto> (true_val, True)], False)]" "scopes_only 0 ?one m2"
    using declare_env [OF e1, of n "''true''" true_val True] by auto
  obtain m3 where m3: "scope_declare_identifier n (Some 0) ''false'' false_val True m2 = Inr (VAL_SET_OK, m3)"
    "env_of m3 0 [([''true'' \<mapsto> (true_val, True), ''false'' \<mapsto> (false_val, True)], False)]" "scopes_only 0 m2 m3"
    using declare_env [OF m2(2), of n "''false''" false_val True] by auto
  obtain m4 where m4: "scope_declare_identifier n (Some 0) ''null'' null_val True m3 = Inr (VAL_SET_OK, m4)"
    "env_of m4 0 [(constant_names, False)]" "scopes_only 0 m3 m4"
    using declare_env [OF m3(2), of n "''null''" null_val True] by (auto simp: constant_names_def)
  obtain h where h: "m4 = ?first\<lparr> m_scopes := h \<rparr>"
    using with_scopes_trans [OF scopes_onlyD(1) [OF m4(3)] with_scopes_trans [OF scopes_onlyD(1) [OF m3(3)] scopes_onlyD(1) [OF m2(3)]]]
    by auto
  have tbl: "m_tbl m4 = val_alloc_tbl_init" "m_fns m4 = []" "builtin_functions m4 = builtin_table" using h m0 by simp_all
  have cap: "tbl_head (m_tbl m4) = []" "length (tbl_values (m_tbl m4)) + length builtin_table < tbl_capacity (m_tbl m4)"
    "distinct (map fst builtin_table)" "\<forall>x \<in> fst ` set builtin_table. constant_names x = None"
    by (simp_all add: tbl val_alloc_tbl_init_def VAL_TBL_INIT_CAP_def builtin_table_def constant_names_def)
  have gen: "tbl_generation (m_tbl m4) = 0" "tbl_values (m_tbl m4) = []" by (simp_all add: tbl val_alloc_tbl_init_def)
  obtain m5 where m5: "create_builtins n (Some 0) builtin_table m4 = Inr (installed_fns 0 0 builtin_table, m5)"
    "m5 = (installed_in m4 builtin_table)\<lparr> m_scopes := m_scopes m5 \<rparr>"
    "env_of m5 0 [(\<lambda>x. case builtin_value x of Some v \<Rightarrow> Some (v, True) | None \<Rightarrow> constant_names x, False)]"
    using create_builtins_env [OF m4(2) cap, of n] by (auto simp: gen tbl(2) builtin_value_def)
  let ?last = "m5\<lparr> builtin_functions := installed_fns 0 0 builtin_table \<rparr>"
  have "start_run n ?first = Inr (Some 0, ?last)"
    using tbl(3) by (simp add: start_run_def scope_create_global_def sbind_step init new m2(1) m3(1) m4(1) m5(1))
  moreover have "env_of ?last 0 [(\<lambda>x. case builtin_value x of Some v \<Rightarrow> Some (v, True) | None \<Rightarrow> constant_names x, False)]"
    using m5(3) by (rule env_of_cong) auto
  moreover have "?last = (installed_in ?first builtin_table)\<lparr> m_scopes := m_scopes ?last, builtin_functions := installed_fns 0 0 builtin_table \<rparr>"
    by (subst m5(2)) (simp add: h installed_in_def)
  ultimately show ?thesis by blast
qed

lemma builtin_table_names: "map fst builtin_table = builtin_names"
  by (simp add: builtin_table_def builtin_names_def)

lemma builtin_value_cases:
  "builtin_value x = Some v \<Longrightarrow>
    x = ''println'' \<and> v = builtin_cell 0 0 0 \<or>
    x = ''print'' \<and> v = builtin_cell 0 1 1 \<or>
    x = ''vector'' \<and> v = builtin_cell 0 2 2 \<or>
    x = ''array_filter'' \<and> v = builtin_cell 0 3 3 \<or>
    x = ''read'' \<and> v = builtin_cell 0 4 4 \<or>
    x = ''exit'' \<and> v = builtin_cell 0 5 5"
  by (auto simp: builtin_value_def builtin_table_def eval_nat_numeral split: if_splits)

lemma builtin_value_fn: "builtin_value x = Some v \<Longrightarrow> \<exists>i. val_data v = VAL_FUNCTION (Some i) \<and> x = builtin_names ! i"
  by (drule builtin_value_cases) (elim disjE; simp add: builtin_cell_def builtin_names_def)

lemma installed_cells:
  "(x, b, p) \<in> set (installed_fns 0 0 builtin_table) \<Longrightarrow> \<exists>i < 6. p = Some (Cell 0 i) \<and> builtin_value x = Some (builtin_cell 0 i i)"
  by (simp add: builtin_table_def builtin_value_def, elim disjE; simp add: eval_nat_numeral)

lemma installed_length: "length (installed 0 0 0 builtin_table) = 6"
  by (simp add: builtin_table_def)

lemma installed_nth: "i < 6 \<Longrightarrow> map snd (installed 0 0 0 builtin_table) ! i = builtin_cell 0 i i"
  by (auto simp: builtin_table_def less_Suc_eq eval_nat_numeral)

lemma started_machine_fields:
  "m_fns (started_machine n env) = map (\<lambda>(x, b, p). Some (FN_BUILT_IN (Some b))) builtin_table"
  "m_tbl (started_machine n env) = val_alloc_tbl_init\<lparr> tbl_values := map snd (installed 0 0 0 builtin_table) \<rparr>"
  "builtin_functions (started_machine n env) = installed_fns 0 0 builtin_table"
  "eval_fn_error (started_machine n env) = None" "m_out (started_machine n env) = []"
proof -
  obtain m where m: "start_run n (initial_machine env) = Inr (Some 0, m)"
    "m = (installed_in (initial_machine env) builtin_table)\<lparr> m_scopes := m_scopes m, builtin_functions := installed_fns 0 0 builtin_table \<rparr>"
    using start_of_run by blast
  have s: "started_machine n env = (installed_in (initial_machine env) builtin_table)\<lparr> m_scopes := m_scopes m, builtin_functions := installed_fns 0 0 builtin_table \<rparr>"
    using m by (simp add: started_machine_def)
  show "m_fns (started_machine n env) = map (\<lambda>(x, b, p). Some (FN_BUILT_IN (Some b))) builtin_table"
    "m_tbl (started_machine n env) = val_alloc_tbl_init\<lparr> tbl_values := map snd (installed 0 0 0 builtin_table) \<rparr>"
    "builtin_functions (started_machine n env) = installed_fns 0 0 builtin_table"
    "eval_fn_error (started_machine n env) = None" "m_out (started_machine n env) = []"
    unfolding s by (simp_all add: installed_in_def initial_machine_def val_alloc_tbl_init_def)
qed

interpretation start: started "started_machine n env" builtin_value for n env
proof
  fix x
  show "builtin_value x \<noteq> None \<longleftrightarrow> x \<in> set builtin_names"
    using installed_names [of 0 0 0 builtin_table]
    by (simp add: builtin_value_def map_of_eq_None_iff flip: builtin_table_names set_map)
next
  fix x v assume "builtin_value x = Some v"
  then show "nofree v" by (auto dest!: builtin_value_cases simp: builtin_cell_def)
next
  show "map fst (builtin_functions (started_machine n env)) = builtin_names"
    by (simp add: started_machine_fields builtin_table_def builtin_names_def)
next
  fix x b p assume "(x, b, p) \<in> set (builtin_functions (started_machine n env))"
  then show "\<exists>q v. p = Some q \<and> builtin_value x = Some v \<and> val_at q (started_machine n env) = Inr (v, started_machine n env)"
    using installed_cells [of x b p] installed_nth
    by (auto simp: started_machine_fields val_at_def sbind_def val_alloc_tbl_init_def installed_length)
next
  show "\<exists>v f. builtin_value ''println'' = Some v \<and> val_data v = VAL_FUNCTION f \<and>
      fn_at f (started_machine n env) = Inr (FN_BUILT_IN (Some FN_println), started_machine n env)"
    "\<exists>v f. builtin_value ''print'' = Some v \<and> val_data v = VAL_FUNCTION f \<and>
      fn_at f (started_machine n env) = Inr (FN_BUILT_IN (Some FN_print), started_machine n env)"
    by (simp_all add: builtin_value_def builtin_table_def builtin_cell_def at_addr_def started_machine_fields)
next
  show "eval_fn_error (started_machine n env) = None" by (rule started_machine_fields)
next
  fix x v assume "builtin_value x = Some v"
  then show "\<exists>a b. val_data v = VAL_FUNCTION (Some a) \<and> a < length (m_fns (started_machine n env)) \<and>
      m_fns (started_machine n env) ! a = Some (FN_BUILT_IN b)"
    by (auto dest!: builtin_value_cases simp: builtin_cell_def started_machine_fields builtin_table_def)
next
  fix x y v w assume "builtin_value x = Some v" "builtin_value y = Some w" "val_data v = val_data w"
  then show "x = y" by (auto dest!: builtin_value_fn)
next
  fix v assume "v \<in> set (tbl_values (m_tbl (started_machine n env)))"
  then show "nofree v"
    by (auto simp: started_machine_fields builtin_table_def builtin_cell_def)
qed

lemma start_related:
  obtains m where "start_run n (initial_machine env) = Inr (Some 0, m)"
    "start.state_rel n env m 0 ([([''true'' \<mapsto> (VAL_BOOLEAN True, True), ''false'' \<mapsto> (VAL_BOOLEAN False, True),
         ''null'' \<mapsto> (VAL_NULL, True)], False)], [])"
proof -
  obtain m where m: "start_run n (initial_machine env) = Inr (Some 0, m)"
    "env_of m 0 [(\<lambda>x. case builtin_value x of Some v \<Rightarrow> Some (v, True) | None \<Rightarrow> constant_names x, False)]"
    using start_of_run by blast
  have s: "started_machine n env = m" using m(1) by (simp add: started_machine_def)
  have "start.frame_rel (\<lambda>x. case builtin_value x of Some v \<Rightarrow> Some (v, True) | None \<Rightarrow> constant_names x, False)
      ([''true'' \<mapsto> (VAL_BOOLEAN True, True), ''false'' \<mapsto> (VAL_BOOLEAN False, True), ''null'' \<mapsto> (VAL_NULL, True)], False)"
    unfolding start.frame_rel_def start.name_rel_def
  proof (intro conjI allI)
    fix x
    show "case builtin_value x of
        Some b \<Rightarrow> fst (\<lambda>x. case builtin_value x of Some v \<Rightarrow> Some (v, True) | None \<Rightarrow> constant_names x, False) x = Some (b, True) \<and>
          fst ([''true'' \<mapsto> (VAL_BOOLEAN True, True), ''false'' \<mapsto> (VAL_BOOLEAN False, True), ''null'' \<mapsto> (VAL_NULL, True)], False) x = None
      | None \<Rightarrow> (case fst (\<lambda>x. case builtin_value x of Some v \<Rightarrow> Some (v, True) | None \<Rightarrow> constant_names x, False) x of
          None \<Rightarrow> fst ([''true'' \<mapsto> (VAL_BOOLEAN True, True), ''false'' \<mapsto> (VAL_BOOLEAN False, True), ''null'' \<mapsto> (VAL_NULL, True)], False) x = None
        | Some (v, c) \<Rightarrow> fst ([''true'' \<mapsto> (VAL_BOOLEAN True, True), ''false'' \<mapsto> (VAL_BOOLEAN False, True), ''null'' \<mapsto> (VAL_NULL, True)], False) x
            = Some (val_data v, c) \<and> plain v)"
      by (cases "builtin_value x")
         (auto simp: constant_names_def true_val_def false_val_def null_val_def plain_def dest!: builtin_value_cases)
  qed simp
  moreover have "start.running n env m" "m_out m = []"
    using started_machine_fields [of n env] unfolding start.running_def by (simp_all add: s)
  ultimately have "start.state_rel n env m 0 ([([''true'' \<mapsto> (VAL_BOOLEAN True, True), ''false'' \<mapsto> (VAL_BOOLEAN False, True),
         ''null'' \<mapsto> (VAL_NULL, True)], False)], [])"
    using m(2) by (auto simp: start.state_rel_def)
  with m(1) show ?thesis by (rule that)
qed

section \<open>Programs\<close>

lemma run_tree_refines:
  assumes "in_fragment node" and ok: "ref_run n node \<noteq> Inl Out_of_fuel"
  shows "case ref_run n node of
     Inl e \<Rightarrow> run_tree (Suc n) node (initial_machine env) = Inl e
   | Inr out \<Rightarrow> \<exists>m. run_tree (Suc n) node (initial_machine env) = Inr ((), m) \<and> m_out m = out"
proof -
  let ?R = "([([''true'' \<mapsto> (VAL_BOOLEAN True, True), ''false'' \<mapsto> (VAL_BOOLEAN False, True),
         ''null'' \<mapsto> (VAL_NULL, True)], False)], []) :: rstate"
  obtain m where m: "start_run (Suc n) (initial_machine env) = Inr (Some 0, m)" "start.state_rel (Suc n) env m 0 ?R"
    by (rule start_related)
  have run: "run_tree (Suc n) node (initial_machine env) =
      sbind (eval (Suc n) (Some 0) node) (\<lambda>_. sbind (scope_free (Suc n) (Some 0)) (\<lambda>_. val_alloc_tbl_global_free (Suc n))) m"
  proof -
    have "run_tree (Suc n) node = sbind (start_run (Suc n)) (\<lambda>s. sbind (eval (Suc n) s node) (\<lambda>_.
        sbind (scope_free (Suc n) s) (\<lambda>_. val_alloc_tbl_global_free (Suc n))))"
      by (simp add: run_tree_def start_run_def sbind_assoc del: eval.simps)
    then show ?thesis by (simp only: sbind_step(1) [where m = "start_run (Suc n)", OF m(1)])
  qed
  have ref: "ref_run n node = (case ref_eval n node ?R of Inl e \<Rightarrow> Inl e | Inr (d, E, out) \<Rightarrow> Inr out)"
    by (simp add: ref_run_def rbind_def split: sum.splits prod.splits)
  have fuel: "ref_eval n node ?R \<noteq> Inl Out_of_fuel" using ok by (auto simp: ref)
  have step: "case ref_eval n node ?R of Inl e \<Rightarrow> eval (Suc n) (Some 0) node m = Inl e
    | Inr (d, R') \<Rightarrow> \<exists>v m'. eval (Suc n) (Some 0) node m = Inr (v, m') \<and> val_rel v d \<and> start.state_rel (Suc n) env m' 0 R' \<and> scopes_kept 0 m m'"
    using start.sim_eval [OF assms(1), of "Suc n" env 0 0 n] m(2) fuel unfolding start.sim_def by blast
  show ?thesis
  proof (cases "ref_eval n node ?R")
    case (Inl e)
    with step have "eval (Suc n) (Some 0) node m = Inl e" by simp
    then show ?thesis unfolding run ref using Inl by (simp add: sbind_Inl)
  next
    case (Inr r)
    then obtain d G out v m' where r: "ref_eval n node ?R = Inr (d, (G, out))" "eval (Suc n) (Some 0) node m = Inr (v, m')"
      "start.state_rel (Suc n) env m' 0 (G, out)"
      using step by (cases r) auto
    obtain E where "env_of m' 0 E" "list_all2 (start.frame_rel) E G"
      using r(3) unfolding start.state_rel_def by auto
    then obtain g where "G = [g]" by (elim env_of_top) (auto simp: list_all2_Cons1)
    then obtain me where me: "sbind (scope_free (Suc n) (Some 0)) (\<lambda>_. val_alloc_tbl_global_free (Suc n)) m' = Inr ((), me)" "m_out me = out"
      using r(3) start.end_of_run [of "Suc n" env m' 0 g out n "Suc n"] by metis
    have "run_tree (Suc n) node (initial_machine env) = Inr ((), me)"
      unfolding run by (simp only: sbind_step(1) [where m = "eval (Suc n) (Some 0) node", OF r(2)] me(1))
    then show ?thesis using me(2) by (simp add: ref r(1))
  qed
qed

text \<open>
  C1. The interpreter implements the reference semantics of blocks: if the source parses to a program
  of the fragment (integers, Booleans, null, quotients, variables, constants, assignments, blocks,
  conditionals, loops, printing) and the reference gives a result with fuel \<open>n\<close>, then
  \<^verbatim>\<open>blaze\<close>, through its symbol tables, scopes and table of values, prints exactly the
  output of the reference or ends with exactly its error, and frees everything without a fault.
\<close>

theorem blaze_refines_blocks:
  assumes "parse_source filename content = Inr node" and "in_fragment node" and "ref_run n node \<noteq> Inl Out_of_fuel"
  shows "blaze (Suc n) env filename content = ref_run n node"
  using run_tree_refines [OF assms(2,3), of env]
  by (auto simp: blaze_def assms(1) rbind_def split: sum.splits)

definition scoped_source :: string where
  "scoped_source = ''const k = 3; { var x = 2; x = x * k; println(x); }''"

definition scoped_output :: string where
  "scoped_output = esc ''1;33'' @ ''6'' @ esc ''0'' @ [newline]"

lemma scoped_reference:
  "case parse_source ''p'' scoped_source of
     Inr node \<Rightarrow> in_fragment node \<and> ref_run 6 node = Inr scoped_output
   | Inl _ \<Rightarrow> False"
  by code_simp

definition empty_env :: environment where
  "empty_env = \<lparr> env_input = [], env_getline_rest = [], env_errno_text = [] \<rparr>"

lemma blaze_refines_blocks_witness: "blaze 7 empty_env ''p'' scoped_source = Inr scoped_output"
proof -
  obtain node where node: "parse_source ''p'' scoped_source = Inr node" "in_fragment node" "ref_run 6 node = Inr scoped_output"
    using scoped_reference by (auto split: sum.splits)
  then have "ref_run 6 node \<noteq> Inl Out_of_fuel" by simp
  with blaze_refines_blocks [OF node(1,2), of 6 empty_env] node(3) show ?thesis by simp
qed
end
