(* ===== verification/Fuel.thy ===== *)
theory Fuel
  imports Eval
begin

text \<open>
  Fuel only bounds how far a run is followed: a run that does not run out of fuel has the same
  result with more. So the results of theory Eval are results of the program, not of the bound.
\<close>

section \<open>Runs that extend others\<close>

definition extends :: "'a run \<Rightarrow> 'a run \<Rightarrow> bool" where
  "extends c d \<longleftrightarrow> (\<forall>m. c m \<noteq> Inl Out_of_fuel \<longrightarrow> d m = c m)"

named_theorems extends_intros \<open>how the constructs and functions of the evaluator preserve extends\<close>

lemma extends_refl [extends_intros]: "extends c c"
  by (simp add: extends_def)

lemma extends_no_fuel [extends_intros]: "extends (sthrow Out_of_fuel) d"
  by (simp add: extends_def sthrow_def)

lemma extends_eta [extends_intros]: "extends (\<lambda>m. Inr (x, m)) (sret x)" "extends (\<lambda>m. Inl e) (sthrow e)"
  by (simp_all add: extends_def)

lemma extends_sbind [extends_intros]:
  assumes "extends c d" and "\<And>x. extends (f x) (g x)"
  shows "extends (sbind c f) (sbind d g)"
  unfolding extends_def
proof (intro allI impI)
  fix m assume "sbind c f m \<noteq> Inl Out_of_fuel"
  then show "sbind d g m = sbind c f m"
    using assms unfolding extends_def sbind_def by (cases "c m") force+
qed

lemma extends_if [extends_intros]:
  "extends c c' \<Longrightarrow> extends d d' \<Longrightarrow> extends (if b then c else d) (if b then c' else d')"
  by simp

lemma extends_Let [extends_intros]: "(\<And>x. extends (f x) (g x)) \<Longrightarrow> extends (let x = t in f x) (let x = t in g x)"
  by simp

lemma extends_option [extends_intros]:
  "extends c c' \<Longrightarrow> (\<And>x. extends (f x) (f' x)) \<Longrightarrow>
   extends (case r of None \<Rightarrow> c | Some x \<Rightarrow> f x) (case r of None \<Rightarrow> c' | Some x \<Rightarrow> f' x)"
  by (cases r) simp_all

lemma extends_fn [extends_intros]:
  "(\<And>b. extends (f b) (f' b)) \<Longrightarrow> (\<And>x y z. extends (g x y z) (g' x y z)) \<Longrightarrow>
   extends (case r of FN_BUILT_IN b \<Rightarrow> f b | FN_USER_CUSTOM x y z \<Rightarrow> g x y z)
     (case r of FN_BUILT_IN b \<Rightarrow> f' b | FN_USER_CUSTOM x y z \<Rightarrow> g' x y z)"
  by (cases r) simp_all

lemma extends_pair [extends_intros]:
  "(\<And>x y. extends (f x y) (g x y)) \<Longrightarrow> extends (case p of (x, y) \<Rightarrow> f x y) (case p of (x, y) \<Rightarrow> g x y)"
  by (cases p) simp

lemma extendsD: "extends c d \<Longrightarrow> c m \<noteq> Inl Out_of_fuel \<Longrightarrow> d m = c m"
  by (simp add: extends_def)

section \<open>Freeing\<close>

lemma extends_val_free_inner [extends_intros]:
  "(\<And>s. extends (sf s) (sf' s)) \<Longrightarrow> extends (val_free_inner sf v) (val_free_inner sf' v)"
  unfolding val_free_inner_def
  by (auto split: val_data.split intro!: extends_intros)

lemma extends_val_free_force_no_root [extends_intros]:
  "(\<And>s. extends (sf s) (sf' s)) \<Longrightarrow> extends (val_free_force_no_root sf p) (val_free_force_no_root sf' p)"
  unfolding val_free_force_no_root_def by (intro extends_intros)

lemma extends_val_alloc_free [extends_intros]:
  "(\<And>s. extends (sf s) (sf' s)) \<Longrightarrow> extends (val_alloc_free sf p b) (val_alloc_free sf' p b)"
  unfolding val_alloc_free_def
  by (auto split: val_ptr.split intro!: extends_intros)

lemma extends_valmap_free [extends_intros]:
  "(\<And>s. extends (sf s) (sf' s)) \<Longrightarrow> extends (valmap_free sf b es) (valmap_free sf' b es)"
proof (induction es)
  case (Cons e es)
  then show ?case by (cases e) (auto intro!: extends_intros)
qed (simp add: extends_refl)

lemma extends_scope_free_body [extends_intros]:
  "(\<And>s. extends (sf s) (sf' s)) \<Longrightarrow> extends (scope_free_body sf s) (scope_free_body sf' s)"
  unfolding scope_free_body_def by (intro extends_intros)

lemma extends_scope_free [extends_intros]: "n \<le> n' \<Longrightarrow> extends (scope_free n s) (scope_free n' s)"
proof (induction n arbitrary: n' s)
  case (Suc n)
  then show ?case by (cases n') (auto intro: extends_intros)
qed (simp add: extends_no_fuel)

lemma extends_free_cells [extends_intros]:
  "(\<And>s. extends (sf s) (sf' s)) \<Longrightarrow> extends (free_cells sf g i k) (free_cells sf' g i k)"
  by (induction k arbitrary: i) (auto intro!: extends_intros)

lemma extends_global_free [extends_intros]:
  "n \<le> n' \<Longrightarrow> extends (val_alloc_tbl_global_free n) (val_alloc_tbl_global_free n')"
  unfolding val_alloc_tbl_global_free_def val_alloc_tbl_free_def by (intro extends_intros)

section \<open>Scopes and copies\<close>

lemma extends_on_valmap [extends_intros]: "n \<le> n' \<Longrightarrow> extends (on_valmap n s f) (on_valmap n' s f)"
  unfolding on_valmap_def by (auto intro!: extends_intros)

lemma extends_declare [extends_intros]:
  "n \<le> n' \<Longrightarrow> extends (scope_declare_identifier n s x v c) (scope_declare_identifier n' s x v c)"
  unfolding scope_declare_identifier_def by (intro extends_intros)

lemma extends_assign [extends_intros]:
  "n \<le> n' \<Longrightarrow> extends (scope_assign_identifier n s x v) (scope_assign_identifier n' s x v)"
proof -
  assume n: "n \<le> n'"
  have "extends (assign_upto k n s x v) (assign_upto k n' s x v)" for k
    by (induction k arbitrary: s) (auto intro!: extends_intros n)
  then show ?thesis by (simp add: scope_assign_identifier_def)
qed

lemma extends_declare_builtins [extends_intros]:
  "n \<le> n' \<Longrightarrow> extends (declare_builtins n s bs) (declare_builtins n' s bs)"
proof (induction bs)
  case (Cons b bs)
  then show ?case by (cases b) (auto intro!: extends_intros)
qed (simp add: extends_refl)

lemma extends_scope_init [extends_intros]: "n \<le> n' \<Longrightarrow> extends (scope_init n p) (scope_init n' p)"
  unfolding scope_init_def by (intro extends_intros)

lemma extends_create_builtins [extends_intros]:
  "n \<le> n' \<Longrightarrow> extends (create_builtins n s bs) (create_builtins n' s bs)"
proof (induction bs)
  case (Cons b bs)
  then show ?case by (cases b) (auto simp: Let_def intro!: extends_intros)
qed (simp add: extends_refl)

lemma extends_create_global [extends_intros]:
  "n \<le> n' \<Longrightarrow> extends (scope_create_global n) (scope_create_global n')"
  unfolding scope_create_global_def by (intro extends_intros)

lemma extends_copy_deep [extends_intros]: "n \<le> n' \<Longrightarrow> extends (val_copy_deep n v) (val_copy_deep n' v)"
  unfolding val_copy_deep_def by (auto simp: Let_def split: val_data.split intro!: extends_intros)

section \<open>Printing\<close>

lemma extends_print_elements:
  "(\<And>v q. extends (pv v q) (pv' v q)) \<Longrightarrow> extends (print_elements pv ps) (print_elements pv' ps)"
  by (induction ps) (auto intro!: extends_intros)

lemma extends_print_val [extends_intros]: "n \<le> n' \<Longrightarrow> extends (print_val_internal n v q) (print_val_internal n' v q)"
proof (induction n arbitrary: n' v q)
  case (Suc n)
  then obtain k where k: "n' = Suc k" "n \<le> k" by (cases n') auto
  have "extends (print_elements (print_val_internal n) ps) (print_elements (print_val_internal k) ps)" for ps
    using Suc.IH [OF k(2)] by (rule extends_print_elements)
  then show ?case
    unfolding k(1) print_val_internal.simps print_val_body_def
    by (cases "val_data v") (simp_all add: extends_refl extends_sbind)
qed (simp add: extends_no_fuel)

lemma extends_print_args [extends_intros]: "n \<le> n' \<Longrightarrow> extends (print_args n vs) (print_args n' vs)"
  by (induction vs) (auto split: val_data.split intro!: extends_intros)

lemma extends_builtin_print [extends_intros]:
  "n \<le> n' \<Longrightarrow> extends (builtin_print n vs) (builtin_print n' vs)"
  "n \<le> n' \<Longrightarrow> extends (builtin_println n vs) (builtin_println n' vs)"
  unfolding builtin_print_def builtin_println_def by (auto intro!: extends_intros)

lemma extends_push_copies [extends_intros]: "n \<le> n' \<Longrightarrow> extends (push_copies n a vs) (push_copies n' a vs)"
  by (induction vs) (auto intro!: extends_intros)

lemma extends_builtin_array [extends_intros]: "n \<le> n' \<Longrightarrow> extends (builtin_array n vs) (builtin_array n' vs)"
  unfolding builtin_array_def by (intro extends_intros)

section \<open>The evaluator\<close>

text \<open>The parts of the evaluator, which take it as an argument.\<close>

lemma extends_children [extends_intros]:
  "(\<And>s e. extends (ev s e) (ev' s e)) \<Longrightarrow> extends (eval_children ev s cs) (eval_children ev' s cs)"
  by (induction cs) (auto intro!: extends_intros)

lemma extends_last [extends_intros]:
  "(\<And>s e. extends (ev s e) (ev' s e)) \<Longrightarrow> extends (eval_last ev s cs r) (eval_last ev' s cs r)"
  by (induction cs arbitrary: r) (auto intro!: extends_intros)

lemma extends_args [extends_intros]:
  "(\<And>s e. extends (ev s e) (ev' s e)) \<Longrightarrow> extends (eval_args ev s es) (eval_args ev' s es)"
  by (induction es) (auto intro!: extends_intros)

lemma extends_elements [extends_intros]:
  "n \<le> n' \<Longrightarrow> (\<And>s e. extends (ev s e) (ev' s e)) \<Longrightarrow> extends (eval_elements n ev s a es) (eval_elements n' ev' s a es)"
  by (induction es) (auto intro!: extends_intros)

lemma extends_loop_rounds:
  assumes "\<And>i. extends (round i) (round' i)" and "k \<le> k'"
  shows "extends (loop_rounds k p round i) (loop_rounds k' p round' i)"
  using assms(2)
proof (induction k arbitrary: k' i)
  case (Suc k)
  then show ?case by (cases k') (simp_all add: extends_sbind extends_refl extends_eta assms(1))
qed (simp add: extends_no_fuel)

lemma extends_declare_test_val [extends_intros]:
  "n \<le> n' \<Longrightarrow> extends (declare_test_val n s xs v) (declare_test_val n' s xs v)"
  by (induction xs) (auto intro!: extends_intros)

lemma extends_declare_params [extends_intros]:
  "n \<le> n' \<Longrightarrow> extends (declare_params n l x p i vs) (declare_params n' l x p i vs)"
  by (induction vs arbitrary: i) (auto intro!: extends_intros)

lemma extends_run_body [extends_intros]:
  "(\<And>s e. extends (ev s e) (ev' s e)) \<Longrightarrow> extends (run_body ev p i k r) (run_body ev' p i k r)"
  by (induction k arbitrary: i r) (auto intro!: extends_intros)

lemma extends_assignment [extends_intros]:
  "n \<le> n' \<Longrightarrow> (\<And>s e. extends (ev s e) (ev' s e)) \<Longrightarrow> extends (eval_assignment n ev s l a e) (eval_assignment n' ev' s l a e)"
  unfolding eval_assignment_def Let_def by (auto  intro!: extends_intros)

lemma extends_var_decl [extends_intros]:
  "n \<le> n' \<Longrightarrow> (\<And>s e. extends (ev s e) (ev' s e)) \<Longrightarrow> extends (eval_var_decl n ev s l x c e) (eval_var_decl n' ev' s l x c e)"
  unfolding eval_var_decl_def Let_def by (auto  intro!: extends_intros)

lemma extends_binexp [extends_intros]:
  "(\<And>s e. extends (ev s e) (ev' s e)) \<Longrightarrow> extends (eval_binexp ev s l op a b) (eval_binexp ev' s l op a b)"
  unfolding eval_binexp_def Let_def by (auto  intro!: extends_intros)

lemma extends_block [extends_intros]:
  "n \<le> n' \<Longrightarrow> (\<And>s e. extends (ev s e) (ev' s e)) \<Longrightarrow> extends (eval_block n ev s cs) (eval_block n' ev' s cs)"
  unfolding eval_block_def Let_def by (auto  intro!: extends_intros)

lemma extends_block_no_scope [extends_intros]:
  "(\<And>s e. extends (ev s e) (ev' s e)) \<Longrightarrow> extends (eval_block_no_scope ev s cs) (eval_block_no_scope ev' s cs)"
  unfolding eval_block_no_scope_def Let_def by (auto  intro!: extends_intros)

lemma extends_if_stmt [extends_intros]:
  "(\<And>s e. extends (ev s e) (ev' s e)) \<Longrightarrow> extends (eval_if_stmt ev s c t e) (eval_if_stmt ev' s c t e)"
  unfolding eval_if_stmt_def Let_def by (auto  intro!: extends_intros)

lemma extends_loop_round [extends_intros]:
  "n \<le> n' \<Longrightarrow> (\<And>s e. extends (ev s e) (ev' s e)) \<Longrightarrow> extends (loop_round n ev s x body i) (loop_round n' ev' s x body i)"
  unfolding loop_round_def Let_def by (auto split: ast_node.split intro!: extends_intros)

lemma extends_array_lit [extends_intros]:
  "n \<le> n' \<Longrightarrow> (\<And>s e. extends (ev s e) (ev' s e)) \<Longrightarrow> extends (eval_array_lit n ev s es) (eval_array_lit n' ev' s es)"
  unfolding eval_array_lit_def Let_def by (auto  intro!: extends_intros)

lemma extends_fn_decl [extends_intros]:
  "n \<le> n' \<Longrightarrow> extends (eval_fn_decl n s l f params body) (eval_fn_decl n' s l f params body)"
  unfolding eval_fn_decl_def Let_def by (auto  intro!: extends_intros)

lemma extends_filter_call [extends_intros]:
  "n \<le> n' \<Longrightarrow> (\<And>s e. extends (ev s e) (ev' s e)) \<Longrightarrow> extends (array_filter_call_fn n ev s fn p) (array_filter_call_fn n' ev' s fn p)"
  unfolding array_filter_call_fn_def Let_def by (auto  intro!: extends_intros)

lemma extends_filter_elements [extends_intros]:
  "n \<le> n' \<Longrightarrow> (\<And>s e. extends (ev s e) (ev' s e)) \<Longrightarrow> extends (filter_elements n ev s c a b i k) (filter_elements n' ev' s c a b i k)"
  by (induction k arbitrary: i) (auto intro!: extends_intros)

lemma extends_array_filter [extends_intros]:
  "n \<le> n' \<Longrightarrow> (\<And>s e. extends (ev s e) (ev' s e)) \<Longrightarrow> extends (builtin_array_filter n ev s args) (builtin_array_filter n' ev' s args)"
  unfolding builtin_array_filter_def Let_def by (auto split: list.split val_data.split intro!: extends_intros)

lemma extends_call_builtin [extends_intros]:
  "n \<le> n' \<Longrightarrow> (\<And>s e. extends (ev s e) (ev' s e)) \<Longrightarrow> extends (call_builtin n ev s b args) (call_builtin n' ev' s b args)"
  unfolding call_builtin_def Let_def by (auto split: builtin.split intro!: extends_intros)

lemma extends_call_user [extends_intros]:
  "n \<le> n' \<Longrightarrow> (\<And>s e. extends (ev s e) (ev' s e)) \<Longrightarrow> extends (call_user n ev s l x p body params args) (call_user n' ev' s l x p body params args)"
  unfolding call_user_def Let_def by (auto  intro!: extends_intros)

lemma extends_expr_call [extends_intros]:
  "n \<le> n' \<Longrightarrow> (\<And>s e. extends (ev s e) (ev' s e)) \<Longrightarrow> extends (eval_expr_call n ev s l x args) (eval_expr_call n' ev' s l x args)"
  unfolding eval_expr_call_def Let_def by (auto  intro!: extends_intros)

lemma extends_loop [extends_intros]:
  assumes "n \<le> n'" and "\<And>s e. extends (ev s e) (ev' s e)"
  shows "extends (eval_loop_stmt n ev s l c x b) (eval_loop_stmt n' ev' s l c x b)"
proof -
  have "extends (loop_rounds n p (loop_round n ev t x b) i) (loop_rounds n' p (loop_round n' ev' t x b) i)" for p t i
    by (rule extends_loop_rounds) (auto intro: extends_intros assms)
  then show ?thesis
    unfolding eval_loop_stmt_def by (auto split: val_data.split intro!: extends_intros assms)
qed

lemma extends_eval [extends_intros]: "n \<le> n' \<Longrightarrow> extends (eval n s node) (eval n' s node)"
proof (induction n arbitrary: n' s node)
  case (Suc n)
  then obtain k where "n' = Suc k" "n \<le> k" by (cases n') auto
  with Suc.IH show ?case
    by (auto simp: eval_body_def split: ast_node.split intro!: extends_intros)
qed (simp add: extends_no_fuel)

lemma extends_run_tree: "n \<le> n' \<Longrightarrow> extends (run_tree n node) (run_tree n' node)"
  unfolding run_tree_def by (intro extends_intros)

end
