(* ===== verification/Program_Safety.thy ===== *)
theory Program_Safety
  imports Eval_Invariant
begin

text \<open>
  What the invariant gives for evaluations and for whole programs: symbol tables stay well formed,
  no lookup reads past a table, and a constant keeps its value.
\<close>

section \<open>Starting and ending a program\<close>

lemma keeps_create_builtins: "keeps N m (create_builtins n s bs) (\<lambda>_ _. True)"
proof (induction bs arbitrary: m)
  case (Cons b bs)
  obtain name f p where b: "b = (name, f, p)" by (cases b)
  have heap: "keeps N m (val_create_heap (VAL_FUNCTION None)) (\<lambda>_ _. True)" for m
    unfolding val_create_heap_def val_create_def
    by (simp add: sbind_assoc del: fold_sret)
       (intro keeps_bind [OF keeps_fn_new] keeps_quiet quiet_basic quiet_val_init_heap quiet_val_put)
  show ?case
    unfolding b create_builtins.simps Let_def
    by (intro keeps_bind [OF heap] keeps_quiet_bind quiet_val_at quiet_val_put keeps_bind [OF keeps_fn_put]
        keeps_bind [OF keeps_declare] keeps_bind [OF Cons.IH] keeps_sret) simp_all
qed (simp add: keeps_sret)

lemma keeps_evolves: "keeps N m c Q \<Longrightarrow> keeps N m c (\<lambda>x m'. Q x m' \<and> evolves N m m')"
  by (auto simp: keeps_def split: sum.splits)

lemma keeps_scope_create_global: "keeps N m (scope_create_global n) (fresh_in m)"
proof -
  have "keeps N m (scope_init n None) (fresh_in m)" by (rule keeps_scope_init) (simp add: ptr_ok_def)
  then show ?thesis
    unfolding scope_create_global_def
  proof (rule keeps_bind)
    fix s m1 assume fresh: "fresh_in m s m1"
    let ?rest = "sbind (scope_declare_identifier n s ''true'' true_val True) (\<lambda>_.
     sbind (scope_declare_identifier n s ''false'' false_val True) (\<lambda>_.
     sbind (scope_declare_identifier n s ''null'' null_val True) (\<lambda>_.
     sbind (sget builtin_functions) (\<lambda>bs.
     sbind (create_builtins n s bs) (\<lambda>bs'.
     sbind (smod (\<lambda>m. m\<lparr> builtin_functions := bs' \<rparr>)) (\<lambda>_.
     sret s))))))"
    have "keeps N m1 ?rest (\<lambda>r _. r = s)"
      by (intro keeps_bind [OF keeps_declare] keeps_quiet_bind quiet_sget quiet_smod keeps_bind [OF keeps_create_builtins] keeps_sret)
         simp_all
    then show "keeps N m1 ?rest (fresh_in m)"
      by (rule keeps_evolves [THEN keeps_mono]) (use fresh in \<open>auto simp: fresh_in_def evolves_def\<close>)
  qed
qed

lemma keeps_free_cells:
  assumes "\<And>s m. keeps N m (sf s) (\<lambda>_ _. True)"
  shows "keeps N m (free_cells sf g i k) (\<lambda>_ _. True)"
proof (induction k arbitrary: i m)
  case (Suc k)
  have "keeps N m' (if val_data v \<noteq> VAL_NULL then val_free_force_no_root sf (Cell g i) else sret ()) (\<lambda>_ _. True)" for v m'
    by (simp add: keeps_sret keeps_val_free_force_no_root [OF assms])
  then show ?case
    unfolding free_cells.simps by (intro keeps_quiet_bind [OF quiet_val_at]) (blast intro: keeps_bind Suc.IH)
qed (simp add: keeps_sret)

lemma keeps_global_free: "keeps N m (val_alloc_tbl_global_free n) (\<lambda>_ _. True)"
  unfolding val_alloc_tbl_global_free_def val_alloc_tbl_free_def
  by (intro keeps_quiet_bind quiet_sget) (simp add: keeps_free_cells keeps_scope_free)

lemma machine_ok_initial: "machine_ok (initial_machine env)"
  by (simp add: machine_ok_def initial_machine_def)

lemma keeps_run_tree: "keeps N m (run_tree n node) (\<lambda>_ _. True)"
  unfolding run_tree_def val_alloc_tbl_global_init_def
  by (rule keeps_quiet_bind [OF quiet_smod], simp, rule keeps_bind [OF keeps_scope_create_global])
     (auto intro!: keeps_bind [OF keeps_eval] keeps_bind [OF keeps_scope_free] keeps_global_free
        simp: fresh_in_def ptr_ok_def)

section \<open>Symbol tables\<close>

text \<open>
  C12. No look-up, declaration or assignment of any program reads past a symbol table: whatever the
  tree, the run of \<^verbatim>\<open>blaze\<close> on it, from creating the global scope to freeing the table of
  values, never leaves an array of entries, although the search for a free slot is a loop without
  a bound of its own.
\<close>

theorem symbol_tables_in_bounds:
  "run_tree n node (initial_machine env) \<noteq> Inl (Undefined ''hash table over-read'')"
  using keeps_run_tree [of 0 "initial_machine env" n node] machine_ok_initial [of env]
  by (auto simp: keeps_def good_fault_def)

section \<open>Constants\<close>

text \<open>A machine with one scope, in which the constant \<^verbatim>\<open>k\<close> is declared.\<close>

definition sample_loc :: loc where
  "sample_loc = \<lparr> lc_filename = Some ''p'', lc_line_start = Some 1, lc_line_end = Some 1,
     lc_column_start = Some 1, lc_column_end = Some 1 \<rparr>"

definition one_scope :: machine where
  "one_scope = (initial_machine \<lparr> env_input = [], env_getline_rest = [], env_errno_text = [] \<rparr>)
     \<lparr> m_scopes := [Some (new_scope None)], builtin_functions := [] \<rparr>"

definition declare_k :: "int \<Rightarrow> ast_node" where
  "declare_k i = NODE_VAR_DECL sample_loc ''k'' True (Some (NODE_INT_LIT sample_loc i))"

definition with_constant :: machine where
  "with_constant = (case eval 2 (Some 0) (declare_k 5) one_scope of Inr (_, m) \<Rightarrow> m | Inl _ \<Rightarrow> one_scope)"

definition after_block :: machine where
  "after_block = (case eval 3 (Some 0) (NODE_BLOCK sample_loc [declare_k 7]) with_constant of Inr (_, m) \<Rightarrow> m | Inl _ \<Rightarrow> one_scope)"

text \<open>The entry of a name in the scope at an address, if the scope is there.\<close>

definition entry_in :: "machine \<Rightarrow> addr \<Rightarrow> string \<Rightarrow> (val_t \<times> bool) option" where
  "entry_in m a k =
     (if a < length (m_scopes m) then (case m_scopes m ! a of None \<Rightarrow> None | Some sc \<Rightarrow> valmap_abs (sc_valmap sc) k) else None)"

lemma with_constant_eval: "eval 2 (Some 0) (declare_k 5) one_scope = Inr (null_val, with_constant)"
  by code_simp

lemma after_block_eval: "eval 3 (Some 0) (NODE_BLOCK sample_loc [declare_k 7]) with_constant = Inr (BLAZE_NULL, after_block)"
  by code_simp

lemma with_constant_facts:
  "length (m_scopes with_constant) = 1" "entry_in with_constant 0 ''k'' = Some (val_init (VAL_INTEGER 5), True)"
  "map_option sc_mode (m_scopes with_constant ! 0) = Some SC_DEFAULT"
  by code_simp+

lemma after_block_facts: "m_scopes after_block ! 0 \<noteq> None"
  by code_simp

lemma one_scope_ok: "machine_ok one_scope" "ptr_ok one_scope (Some 0)"
  by (simp_all add: machine_ok_def one_scope_def initial_machine_def scope_ok_def new_scope_def valmap_ok_init ptr_ok_def)

lemma with_constant_ok: "machine_ok with_constant" "ptr_ok with_constant (Some 0)"
  using keeps_eval [OF one_scope_ok(2), of 0 2 "declare_k 5"] one_scope_ok(1) with_constant_eval with_constant_facts(1)
  by (simp_all add: keeps_def ptr_ok_def)



text \<open>
  C14. The invariant of the evaluator: every evaluation in a live scope keeps the scopes well formed
  (each symbol table consistent, each parent an older scope, each function with a scope that
  exists), never changes the parent or the mode of a scope, and never removes a name from it or
  makes a constant of a variable or a variable of a constant.
\<close>

theorem evaluation_keeps_scopes:
  assumes "machine_ok m" and "ptr_ok m s" and "eval n s node m = Inr (v, m')"
  shows "machine_ok m' \<and> ptr_ok m' s \<and>
    (\<forall>a < length (m_scopes m). case (m_scopes m ! a, m_scopes m' ! a) of
       (Some sc, Some sc') \<Rightarrow> sc_parent sc' = sc_parent sc \<and> sc_mode sc' = sc_mode sc \<and>
         (\<forall>k w c. entry_in m a k = Some (w, c) \<longrightarrow> (\<exists>w'. entry_in m' a k = Some (w', c)))
     | (None, Some sc') \<Rightarrow> False
     | _ \<Rightarrow> True)"
proof -
  have k: "machine_ok m'" "evolves (length (m_scopes m)) m m'"
    using keeps_eval [OF assms(2), of "length (m_scopes m)" n node] assms(1,3) by (simp_all add: keeps_def)
  then have len: "length (m_scopes m) \<le> length (m_scopes m')" by (simp add: evolves_def)
  have names: "\<exists>w'. entry_in m' a x = Some (w', c)"
    if "entry_in m a x = Some (w, c)" "m_scopes m ! a = Some sc" "m_scopes m' ! a = Some sc'" "names_kept sc sc'" for a x w c sc sc'
  proof -
    have "a < length (m_scopes m)" "valmap_abs (sc_valmap sc) x = Some (w, c)"
      using that(1,2) by (simp_all add: entry_in_def split: if_splits)
    with that(3,4) len show ?thesis by (fastforce simp: entry_in_def names_kept_def)
  qed
  have "case (m_scopes m ! a, m_scopes m' ! a) of
       (Some sc, Some sc') \<Rightarrow> sc_parent sc' = sc_parent sc \<and> sc_mode sc' = sc_mode sc \<and>
         (\<forall>k w c. entry_in m a k = Some (w, c) \<longrightarrow> (\<exists>w'. entry_in m' a k = Some (w', c)))
     | (None, Some sc') \<Rightarrow> False
     | _ \<Rightarrow> True" if a: "a < length (m_scopes m)" for a
  proof (cases "m_scopes m ! a"; cases "m_scopes m' ! a")
    fix sc sc' assume sc: "m_scopes m ! a = Some sc" "m_scopes m' ! a = Some sc'"
    then have "names_kept sc sc'" using k(2) a by (auto simp: evolves_def dest!: spec [of _ a])
    with names [OF _ sc this] sc show ?thesis by (auto simp: names_kept_def)
  qed (use k(2) a in \<open>auto simp: evolves_def dest!: spec [of _ a]\<close>)
  with k ptr_ok_mono [OF assms(2) k(2)] show ?thesis by blast
qed

lemma evaluation_keeps_scopes_witness: "machine_ok after_block \<and> ptr_ok after_block (Some 0)"
  using evaluation_keeps_scopes [OF with_constant_ok after_block_eval] by blast

end
