(* ===== verification/Block_Termination.thy ===== *)
theory Block_Termination
  imports Block_Program Fuel
begin

text \<open>
  Fuel for whole programs: more of it never changes a result, and a bound for the programs whose
  loops all have a literal count.
\<close>

section \<open>More fuel\<close>

lemma extends_blaze:
  assumes "n \<le> n'" and "blaze n env filename content \<noteq> Inl Out_of_fuel"
  shows "blaze n' env filename content = blaze n env filename content"
proof (cases "parse_source filename content")
  case (Inr node)
  then have "run_tree n node (initial_machine env) \<noteq> Inl Out_of_fuel"
    using assms(2) by (auto simp: blaze_def rbind_def)
  with extends_run_tree [OF assms(1), of node] have "run_tree n' node (initial_machine env) = run_tree n node (initial_machine env)"
    by (rule extendsD)
  then show ?thesis by (simp add: blaze_def Inr)
qed (simp add: blaze_def)

section \<open>Counted loops\<close>

fun counted :: "ast_node \<Rightarrow> bool" where
  "counted (NODE_BINARY_EXPR l op a b) = (counted a \<and> counted b)"
| "counted (NODE_VAR_DECL l x c v) = (case v of None \<Rightarrow> True | Some e \<Rightarrow> counted e)"
| "counted (NODE_ASSIGNMENT l a v) = counted v"
| "counted (NODE_EXPR_CALL l f args) = (\<forall>e \<in> set args. counted e)"
| "counted (NODE_BLOCK l ns) = (\<forall>e \<in> set ns. counted e)"
| "counted (NODE_ROOT l ns) = (\<forall>e \<in> set ns. counted e)"
| "counted (NODE_IF_STMT l c t e) = (counted c \<and> counted t \<and> (case e of None \<Rightarrow> True | Some b \<Rightarrow> counted b))"
| "counted (NODE_LOOP_STMT l c x b) = ((case c of Some (NODE_INT_LIT l' k) \<Rightarrow> True | _ \<Rightarrow> False) \<and> counted b)"
| "counted _ = True"

fun fuel_for :: "ast_node \<Rightarrow> nat" where
  "fuel_for (NODE_BINARY_EXPR l op a b) = Suc (max (fuel_for a) (fuel_for b))"
| "fuel_for (NODE_VAR_DECL l x c v) = Suc (case v of None \<Rightarrow> 0 | Some e \<Rightarrow> fuel_for e)"
| "fuel_for (NODE_ASSIGNMENT l a v) = Suc (fuel_for v)"
| "fuel_for (NODE_EXPR_CALL l f args) = Suc (foldr max (map fuel_for args) 0)"
| "fuel_for (NODE_BLOCK l ns) = Suc (foldr max (map fuel_for ns) 0)"
| "fuel_for (NODE_ROOT l ns) = Suc (foldr max (map fuel_for ns) 0)"
| "fuel_for (NODE_IF_STMT l c t e) = Suc (max (fuel_for c) (max (fuel_for t) (case e of None \<Rightarrow> 0 | Some b \<Rightarrow> fuel_for b)))"
| "fuel_for (NODE_LOOP_STMT l c x b) =
     Suc (max (case c of Some (NODE_INT_LIT l' k) \<Rightarrow> Suc (nat k) | _ \<Rightarrow> 0) (fuel_for b))"
| "fuel_for _ = 1"

lemma foldr_max_le: "foldr max (map f xs) 0 \<le> (n::nat) \<longleftrightarrow> (\<forall>x \<in> set xs. f x \<le> n)"
  by (induction xs) auto

section \<open>References that do not run out of fuel\<close>

definition ends :: "('s, 'a) st \<Rightarrow> bool" where
  "ends c \<longleftrightarrow> (\<forall>s. c s \<noteq> Inl Out_of_fuel)"

lemma ends_basic: "ends (sret x)" "e \<noteq> Out_of_fuel \<Longrightarrow> ends (sthrow e)" "ends (sget f)" "ends (smod g)"
  "r \<noteq> Inl Out_of_fuel \<Longrightarrow> ends (slift r)" "ends (\<lambda>s. Inr (x, s))" "e \<noteq> Out_of_fuel \<Longrightarrow> ends (\<lambda>s. Inl e)"
  by (auto simp: ends_def sget_def smod_def slift_def split: sum.splits)

lemma ends_sbind: "ends c \<Longrightarrow> (\<And>x. ends (f x)) \<Longrightarrow> ends (sbind c f)"
  by (auto simp: ends_def sbind_def split: sum.splits)

lemma ends_if: "ends c \<Longrightarrow> ends d \<Longrightarrow> ends (if b then c else d)"
  by simp

lemmas ends_intros = ends_basic ends_sbind ends_if

lemma error_of_fuel [simp]: "error_of l msg \<noteq> Out_of_fuel" "error_from f a b msg \<noteq> Out_of_fuel"
  by (simp_all add: error_of_def error_from_def)

lemma ends_frames: "ends (on_frames f)" "ends (emit s)" "ends (set_replaces b)" "ends (ref_identifier l x)"
  unfolding on_frames_def emit_def set_replaces_def ref_identifier_def
  by (auto intro!: ends_intros split: option.splits)

lemma binary_op_ends: "binary_op op d e l lr \<noteq> Inl Out_of_fuel"
proof -
  have "arithmetic op a b lr \<noteq> Inl Out_of_fuel" for a b
    by (cases op) (auto simp: checked_def)
  then show ?thesis by (auto simp: binary_op_def split: option.splits val_data.splits)
qed

lemma ends_all: "(\<And>e. e \<in> set es \<Longrightarrow> ends (ev e)) \<Longrightarrow> ends (ref_all ev es)"
  by (induction es) (auto intro!: ends_intros)

lemma ends_scoped: "ends c \<Longrightarrow> ends (ref_scoped c)"
  unfolding ref_scoped_def by (intro ends_intros ends_frames)

text \<open>From \<open>i\<close> on, \<open>n\<close> units of fuel suffice for fewer than \<open>n\<close> rounds.\<close>

lemma ends_rounds:
  assumes "\<And>i. ends (round i)" and "\<And>i s j t. round i s = Inr (j, t) \<Longrightarrow> j = i + 1"
    and "\<And>i. goes_on i \<Longrightarrow> i < k" and "i \<le> k" "k - i < int n"
  shows "ends (loop_rounds n goes_on round i)"
  using assms(4,5)
proof (induction n arbitrary: i)
  case (Suc n)
  have "sbind (round i) (loop_rounds n goes_on round) s \<noteq> Inl Out_of_fuel" if "goes_on i" for s
  proof (cases "round i s")
    case (Inl e)
    then show ?thesis using assms(1) by (auto simp: sbind_def ends_def)
  next
    case (Inr r)
    then obtain t where "round i s = Inr (i + 1, t)" using assms(2) by (cases r) blast
    moreover have "ends (loop_rounds n goes_on round (i + 1))" using Suc assms(3) [OF that] by simp
    ultimately show ?thesis by (simp add: sbind_def ends_def)
  qed
  then show ?case by (simp add: ends_def)
qed simp

lemma ref_round_counts: "ref_round ev x b i s = Inr (j, t) \<Longrightarrow> j = i + 1"
  unfolding ref_round_def by (auto simp: monad_inversion sret_def split: if_splits)

lemma ends_round:
  assumes "ends (ev body)" and "\<And>l ns e. body = NODE_BLOCK l ns \<Longrightarrow> e \<in> set ns \<Longrightarrow> ends (ev e)"
  shows "ends (ref_round ev x body i)"
proof -
  have "ends (case body of NODE_BLOCK l ns \<Rightarrow> sbind (ref_all ev ns) (\<lambda>_. sret VAL_NULL) | _ \<Rightarrow> ev body)"
    using assms by (cases body) (auto intro!: ends_intros ends_all)
  then show ?thesis
    unfolding ref_round_def by (auto intro!: ends_intros ends_frames split: option.split)
qed

lemma ends_loop:
  assumes "c = Some (NODE_INT_LIT l' k)" "nat k < n" "ev (NODE_INT_LIT l' k) = sret (VAL_INTEGER k)"
    and "ends (ev body)" and "\<And>l ns e. body = NODE_BLOCK l ns \<Longrightarrow> e \<in> set ns \<Longrightarrow> ends (ev e)"
  shows "ends (ref_loop n ev l c x body)"
proof -
  have "ends (loop_rounds n (loop_goes_on (VAL_INTEGER k)) (ref_round ev x body) 0)" if "0 \<le> k"
    by (rule ends_rounds [where k = k])
       (use that assms(2) in \<open>auto intro: ends_round assms(4,5) ref_round_counts simp: loop_goes_on_def\<close>)
  then show ?thesis
    unfolding ref_loop_def assms(1)
    by (auto simp: assms(3) intro!: ends_intros ends_scoped ends_frames split: option.split)
qed

lemma ends_ref_eval: "counted node \<Longrightarrow> fuel_for node \<le> n \<Longrightarrow> ends (ref_eval n node)"
proof (induction n arbitrary: node)
  case 0
  then show ?case by (cases node) auto
next
  case (Suc n)
  have IH: "ends (ref_eval n e)" if "counted e" "fuel_for e \<le> n" for e using Suc.IH that .
  have all: "ends (ref_all (ref_eval n) ns)" if "\<forall>e \<in> set ns. counted e" "foldr max (map fuel_for ns) 0 \<le> n" for ns
    using that by (auto simp: foldr_max_le intro!: ends_all IH)
  note [simp] = ref_body_def
  show ?case
  proof (cases node)
    case (NODE_LOOP_STMT l c x b)
    then obtain l' k where c: "c = Some (NODE_INT_LIT l' k)" "nat k < n" "counted b" "fuel_for b \<le> n"
      using Suc.prems by (auto split: option.splits ast_node.splits)
    have ev: "ref_eval n (NODE_INT_LIT l' k) = sret (VAL_INTEGER k)" using c(2) by (cases n) auto
    have "ends (ref_eval n e)" if "b = NODE_BLOCK l ns" "e \<in> set ns" for l ns e
    proof -
      have "foldr max (map fuel_for ns) 0 \<le> n" using c(4) that(1) by simp
      then show ?thesis using c(3) that by (auto simp: foldr_max_le intro!: IH)
    qed
    then show ?thesis
      unfolding NODE_LOOP_STMT using ends_loop [OF c(1,2) ev IH [OF c(3,4)]] by simp
  qed (use Suc.prems in \<open>auto simp: ref_print_def ref_block_def ref_if_def ref_var_decl_def ref_assignment_def binary_op_ends
      intro!: ends_intros ends_frames ends_scoped all IH split: option.splits\<close>)
qed

lemma ref_run_ends: "counted node \<Longrightarrow> ref_run (fuel_for node) node \<noteq> Inl Out_of_fuel"
  using ends_ref_eval [of node "fuel_for node"] by (auto simp: ref_run_def rbind_def ends_def split: sum.splits)

section \<open>Programs\<close>


lemma blaze_scoped: "blaze 7 env ''p'' scoped_source = Inr scoped_output"
proof -
  obtain node where node: "parse_source ''p'' scoped_source = Inr node" "in_fragment node" "ref_run 6 node = Inr scoped_output"
    using scoped_reference by (auto split: sum.splits)
  then show ?thesis using run_tree_refines [of node 6 env] by (auto simp: blaze_def)
qed


text \<open>
  C15. Programs of the fragment whose loops have literal counts end: \<^verbatim>\<open>fuel_for\<close>, computed from
  the tree alone, is an amount of fuel from which on \<^verbatim>\<open>blaze\<close> returns one and the same result,
  the one of the reference semantics.
\<close>

theorem counted_programs_end:
  assumes "parse_source filename content = Inr node" and "in_fragment node" and "counted node" and "fuel_for node < n"
  shows "blaze n env filename content = ref_run (fuel_for node) node \<and> ref_run (fuel_for node) node \<noteq> Inl Out_of_fuel"
proof -
  note ends = ref_run_ends [OF assms(3)]
  have blaze: "blaze (Suc (fuel_for node)) env filename content = ref_run (fuel_for node) node"
    using run_tree_refines [OF assms(2) ends, of env] by (auto simp: blaze_def assms(1) split: sum.splits)
  with ends assms(4) show ?thesis using extends_blaze [of "Suc (fuel_for node)" n env filename content] by simp
qed

lemma counted_sample:
  "case parse_source ''p'' ''loop (2 as i) { print(i); }'' of
     Inr node \<Rightarrow> in_fragment node \<and> counted node \<and> fuel_for node = 5 \<and>
       ref_run 5 node = Inr (esc ''1;33'' @ ''0'' @ esc ''0'' @ esc ''1;33'' @ ''1'' @ esc ''0'')
   | Inl _ \<Rightarrow> False"
  by code_simp

lemma counted_programs_end_witness:
  "blaze 1000 empty_env ''p'' ''loop (2 as i) { print(i); }'' = Inr (esc ''1;33'' @ ''0'' @ esc ''0'' @ esc ''1;33'' @ ''1'' @ esc ''0'')"
proof -
  obtain node where node: "parse_source ''p'' ''loop (2 as i) { print(i); }'' = Inr node" "in_fragment node" "counted node"
    "fuel_for node = 5" "ref_run 5 node = Inr (esc ''1;33'' @ ''0'' @ esc ''0'' @ esc ''1;33'' @ ''1'' @ esc ''0'')"
    using counted_sample by (auto split: sum.splits)
  then show ?thesis using counted_programs_end [OF node(1-3), of 1000 empty_env] by simp
qed

end
