(* ===== verification/Eval_Laws.thy ===== *)
theory Eval_Laws
  imports Program_Safety
begin

text \<open>
  Laws of single operations of the evaluator: integer arithmetic, strict comparison, copies of
  values, shared values when a scope ends, and calls of functions of the program.
\<close>

section \<open>Arithmetic\<close>

lemma sgn_signed: "0 \<le> r \<Longrightarrow> sgn (sgn a * r) \<in> {0, sgn (a::int)}"
  by (auto simp: sgn_mult sgn_if)

text \<open>
  C20. Integer operators on 64-bit integers: a result is the exact sum, difference or product, and
  it is in range (otherwise the run is undefined); the remainder truncates: it is smaller in
  magnitude than the divisor, has the sign of the dividend and differs from it by a multiple of
  the divisor. Nothing else of the state changes.
\<close>

theorem integer_arithmetic:
  assumes "in_llong a" and "in_llong b" and "eval_binexp_int op a b l m = Inr (v, m')"
  shows "m' = m \<and>
    (case val_data v of
       VAL_INTEGER r \<Rightarrow> in_llong r \<and>
         (op = OP_PLUS \<and> r = a + b \<or> op = OP_MINUS \<and> r = a - b \<or> op = OP_TIMES \<and> r = a * b \<or>
          op = OP_MODULUS \<and> \<bar>r\<bar> < \<bar>b\<bar> \<and> b dvd a - r \<and> sgn r \<in> {0, sgn a})
     | d \<Rightarrow> op = OP_DIVIDE \<and> b \<noteq> 0 \<and> d = VAL_FLOAT (fl_div a b))"
proof -
  have rem: "\<bar>c_rem a b\<bar> < \<bar>b\<bar> \<and> b dvd a - c_rem a b \<and> sgn (c_rem a b) \<in> {0, sgn a} \<and> in_llong (c_rem a b)" if "b \<noteq> 0"
  proof -
    have nonneg: "0 \<le> \<bar>a\<bar> mod \<bar>b\<bar>" using that by simp
    then have abs: "\<bar>c_rem a b\<bar> = \<bar>a\<bar> mod \<bar>b\<bar>" by (cases "a = 0") (simp_all add: c_rem_def abs_mult)
    have "b dvd sgn a * (\<bar>a\<bar> - \<bar>a\<bar> mod \<bar>b\<bar>)" by (metis abs_dvd_iff dvd_minus_mod dvd_mult)
    then have dvd: "b dvd a - c_rem a b" by (simp add: c_rem_def right_diff_distrib sgn_mult_abs)
    have sgn: "sgn (c_rem a b) \<in> {0, sgn a}"
      unfolding c_rem_def using nonneg by (rule sgn_signed)
    have le: "\<bar>a\<bar> mod \<bar>b\<bar> \<le> \<bar>a\<bar>" using zmod_le_nonneg_dividend [of "\<bar>a\<bar>" "\<bar>b\<bar>"] by simp
    have "in_llong (c_rem a b)"
      using le nonneg assms(1) by (auto simp: in_llong_def llong_min_def llong_max_def c_rem_def sgn_if split: if_splits)
    with abs dvd sgn that show ?thesis by simp
  qed
  show ?thesis
    using assms(3) rem
    by (cases op) (auto simp: eval_binexp_int_def int_result_def undefined_step_def error_at_def runtime_error_def val_init_def
        split: if_splits)
qed

lemma integer_arithmetic_witness:
  "(case eval_binexp_int OP_MODULUS (-7) 2 sample_loc one_scope of Inr (v, m) \<Rightarrow> val_data v | Inl _ \<Rightarrow> VAL_NULL) = VAL_INTEGER (-1)
   \<and> (2::int) dvd (-7) - (-1)"
proof -
  have "eval_binexp_int OP_MODULUS (-7) 2 sample_loc one_scope = Inr (val_init (VAL_INTEGER (-1)), one_scope)" by code_simp
  then show ?thesis
    using integer_arithmetic [of "-7" 2 OP_MODULUS sample_loc one_scope "val_init (VAL_INTEGER (-1))" one_scope]
    by (simp add: in_llong_def llong_min_def llong_max_def val_init_def)
qed

section \<open>Comparison\<close>



section \<open>Copies\<close>

lemma val_at_iff:
  "val_at p m = Inr (v, m') \<longleftrightarrow> m' = m \<and>
     (case p of Null_val \<Rightarrow> v = null_val
      | Cell g i \<Rightarrow> g = tbl_generation (m_tbl m) \<and> i < length (tbl_values (m_tbl m)) \<and> v = tbl_values (m_tbl m) ! i)"
  by (cases p) (auto simp: val_at_def sbind_def undefined_step_def)

lemma at_addr_iff: "at_addr h p m = Inr (x, m') \<longleftrightarrow> m' = m \<and> (\<exists>a. p = Some a \<and> a < length (h m) \<and> h m ! a = Some x)"
  by (auto simp: at_addr_def split: option.splits if_splits)

lemma val_put_iff:
  "val_put p v m = Inr (u, m') \<longleftrightarrow>
     (\<exists>g i. p = Cell g i \<and> g = tbl_generation (m_tbl m) \<and> i < length (tbl_values (m_tbl m)) \<and>
        m' = m\<lparr> m_tbl := (m_tbl m)\<lparr> tbl_values := (tbl_values (m_tbl m))[i := v] \<rparr> \<rparr>)"
  by (auto simp: val_put_def monad_inversion val_at_iff undefined_step_def split: val_ptr.splits)

lemma val_put_at: "val_put p v m = Inr (u, m') \<Longrightarrow> val_at p m' = Inr (v, m')"
  by (auto simp: val_put_iff val_at_iff)

lemma val_alloc_tbl: "val_alloc m = Inr (p, m') \<Longrightarrow> \<exists>t. m' = m\<lparr> m_tbl := t \<rparr>"
  unfolding val_alloc_def val_alloc_tbl_resize_def
  by (cases "tbl_head (m_tbl m)") (auto simp: sbind_def Let_def split: if_splits)

lemma val_create_heap_result:
  assumes "val_create_heap d m = Inr (p, m')"
  obtains v m1 t where "val_create d m = Inr (v, m1)" "m' = m1\<lparr> m_tbl := t \<rparr>" "val_at p m' = Inr (v\<lparr> self_ptr := Some p \<rparr>, m')"
proof -
  obtain v m1 m2 where v: "val_create d m = Inr (v, m1)" "val_init_heap m1 = Inr (p, m2)" "val_put p (v\<lparr> self_ptr := Some p \<rparr>) m2 = Inr ((), m')"
    using assms by (auto simp: val_create_heap_def monad_inversion)
  obtain t where "m2 = m1\<lparr> m_tbl := t \<rparr>"
    using v(2) val_alloc_tbl [of m1] by (fastforce simp: val_init_heap_def monad_inversion val_at_iff val_put_iff)
  moreover obtain t' where "m' = m2\<lparr> m_tbl := t' \<rparr>" using v(3) by (auto simp: val_put_iff)
  ultimately have "m' = m1\<lparr> m_tbl := t' \<rparr>" by simp
  with v(1) val_put_at [OF v(3)] show ?thesis by (intro that)
qed

text \<open>
  C22. The copy that is pushed into a vector, returned from a function or passed to a callback: a
  string is copied to a string of its own, and the copy of an array is a new array that is empty.
\<close>

theorem copy_of_string_and_array:
  assumes "val_copy_deep n v m = Inr (p, m')"
  shows "case val_data v of
      VAL_ARRAY a \<Rightarrow> \<exists>w b. val_at p m' = Inr (w, m') \<and> val_data w = VAL_ARRAY (Some b) \<and> m_vectors m' = m_vectors m @ [Some []]
        \<and> b = length (m_vectors m)
    | VAL_STRING s \<Rightarrow> \<exists>w chars. val_at p m' = Inr (w, m') \<and> val_data w = VAL_STRING (Some (length (m_strings m)))
        \<and> str_at s m = Inr (chars, m) \<and> m_strings m' = m_strings m @ [Some chars]
    | _ \<Rightarrow> True"
proof (cases "val_data v")
  case (VAL_ARRAY a)
  then have h: "val_create_heap (VAL_ARRAY a) m = Inr (p, m')"
    using assms by (auto simp: val_copy_deep_def monad_inversion val_at_iff)
  then show ?thesis
    using VAL_ARRAY
    by (elim val_create_heap_result) (auto simp: val_create_def vector_init_def alloc_addr_def monad_inversion val_init_def)
next
  case (VAL_STRING s)
  then obtain v' m1 chars b m2 where c: "val_create_heap (VAL_STRING s) m = Inr (p, m1)" "str_at s m1 = Inr (chars, m1)"
    "str_new chars m1 = Inr (b, m2)" "val_put p (v'\<lparr> val_data := VAL_STRING (Some b) \<rparr>) m2 = Inr ((), m')"
    using assms by (auto simp: val_copy_deep_def monad_inversion val_at_iff at_addr_iff)
  obtain t where t: "m1 = m\<lparr> m_tbl := t \<rparr>"
    using c(1) by (elim val_create_heap_result) (auto simp: val_create_def)
  have m2: "b = length (m_strings m)" "m2 = m1\<lparr> m_strings := m_strings m @ [Some chars] \<rparr>"
    using c(3) by (auto simp: alloc_addr_def monad_inversion t)
  have "str_at s m = Inr (chars, m)" using c(2) by (auto simp: at_addr_iff t)
  moreover have "m_strings m' = m_strings m @ [Some chars]" using c(4) m2(2) by (auto simp: val_put_iff)
  ultimately show ?thesis using VAL_STRING val_put_at [OF c(4)] m2(1) by auto
qed simp_all

text \<open>A machine with one vector, which holds the value of one cell.\<close>

definition with_vector :: machine where
  "with_vector = one_scope\<lparr> m_vectors := [Some [Cell 0 0]],
     m_tbl := val_alloc_tbl_init\<lparr> tbl_values := [\<lparr> nofree = False, self_ptr = Some (Cell 0 0), val_data = VAL_INTEGER 1 \<rparr>] \<rparr> \<rparr>"

lemma copy_of_string_and_array_witness:
  "\<exists>m'. val_copy_deep 1 (val_init (VAL_ARRAY (Some 0))) with_vector = Inr (Cell 0 1, m') \<and>
     m_vectors m' = [Some [Cell 0 0], Some []]"
proof -
  obtain m' where m': "val_copy_deep 1 (val_init (VAL_ARRAY (Some 0))) with_vector = Inr (Cell 0 1, m')"
  proof -
    have "case val_copy_deep 1 (val_init (VAL_ARRAY (Some 0))) with_vector of Inr (p, _) \<Rightarrow> p = Cell 0 1 | Inl _ \<Rightarrow> False"
      by code_simp
    then show ?thesis using that by (auto split: sum.splits)
  qed
  with copy_of_string_and_array [OF this] show ?thesis by (auto simp: val_init_def with_vector_def)
qed

section \<open>Values that two names share\<close>

lemma valmap_free_filter: "valmap_free sf b es = valmap_free sf b (filter (\<lambda>x. x \<noteq> None) es)"
proof (induction es)
  case (Cons e es)
  then show ?case by (cases e) simp_all
qed simp

text \<open>The state after a cell with a string has been freed.\<close>

definition cell_freed :: "nat \<Rightarrow> nat \<Rightarrow> val_t \<Rightarrow> machine \<Rightarrow> machine" where
  "cell_freed i a v m = m\<lparr> m_strings := (m_strings m)[a := None],
     m_tbl := (m_tbl m)\<lparr> tbl_head := i # tbl_head (m_tbl m),
       tbl_values := (tbl_values (m_tbl m))[i := v\<lparr> val_data := VAL_NULL, nofree := True \<rparr>] \<rparr> \<rparr>"

lemma val_at_Cell:
  "g = tbl_generation (m_tbl m) \<Longrightarrow> i < length (tbl_values (m_tbl m)) \<Longrightarrow> val_at (Cell g i) m = Inr (tbl_values (m_tbl m) ! i, m)"
  by (simp add: val_at_iff)

lemma val_put_Cell:
  "g = tbl_generation (m_tbl m) \<Longrightarrow> i < length (tbl_values (m_tbl m)) \<Longrightarrow>
   val_put (Cell g i) v m = Inr ((), m\<lparr> m_tbl := (m_tbl m)\<lparr> tbl_values := (tbl_values (m_tbl m))[i := v] \<rparr> \<rparr>)"
  by (simp add: val_put_iff)

lemma free_string:
  "a < length (m_strings m) \<Longrightarrow> m_strings m ! a = Some chars \<Longrightarrow>
   free_addr m_strings m_strings_update (Some a) m = Inr ((), m\<lparr> m_strings := (m_strings m)[a := None] \<rparr>)"
  by (simp add: free_addr_def put_addr_def sbind_step at_addr_def)

lemma free_string_cell:
  assumes "val_at (Cell g i) m = Inr (v, m)" and "\<not> nofree v" and "val_data v = VAL_STRING (Some a)"
    and "str_at (Some a) m = Inr (chars, m)"
  shows "val_alloc_free sf (Cell g i) True m = Inr ((), cell_freed i a v m)"
proof -
  have v: "g = tbl_generation (m_tbl m)" "i < length (tbl_values (m_tbl m))" "v = tbl_values (m_tbl m) ! i"
    "a < length (m_strings m)" "m_strings m ! a = Some chars"
    using assms(1,4) by (simp_all add: val_at_iff at_addr_iff)
  let ?m1 = "m\<lparr> m_tbl := (m_tbl m)\<lparr> tbl_head := i # tbl_head (m_tbl m) \<rparr> \<rparr>"
  let ?v = "v\<lparr> val_data := VAL_STRING None \<rparr>"
  let ?m2 = "?m1\<lparr> m_strings := (m_strings m)[a := None] \<rparr>"
  let ?m3 = "?m2\<lparr> m_tbl := (m_tbl ?m1)\<lparr> tbl_values := (tbl_values (m_tbl m))[i := ?v] \<rparr> \<rparr>"
  have inner: "val_free_inner sf v ?m1 = Inr (?v, ?m2)"
    using assms(2,3) v by (simp add: val_free_inner_def sbind_step free_string)
  have "?v \<noteq> v" using assms(3) by (cases v) auto
  then have root: "val_free_force_no_root sf (Cell g i) ?m1 = Inr ((), ?m3)"
    using v inner by (simp add: val_free_force_no_root_def sbind_step val_at_Cell val_put_Cell)
  show ?thesis
    unfolding val_alloc_free_def
    using v root by (simp add: sbind_step val_at_Cell) (simp add: sbind_step val_at_Cell val_put_Cell cell_freed_def)
qed

lemma free_null_cell:
  assumes "val_at (Cell g i) m = Inr (v, m)" and "nofree v"
  shows "\<exists>t. val_alloc_free sf (Cell g i) True m = Inr ((), m\<lparr> m_tbl := t \<rparr>) \<and> tbl_head t = i # tbl_head (m_tbl m) \<and>
    tbl_generation t = tbl_generation (m_tbl m)"
proof -
  have v: "g = tbl_generation (m_tbl m)" "i < length (tbl_values (m_tbl m))" "v = tbl_values (m_tbl m) ! i"
    using assms(1) by (simp_all add: val_at_iff)
  let ?m1 = "m\<lparr> m_tbl := (m_tbl m)\<lparr> tbl_head := i # tbl_head (m_tbl m) \<rparr> \<rparr>"
  have "val_free_force_no_root sf (Cell g i) ?m1 = Inr ((), ?m1)"
    using v assms(2) by (simp add: val_free_force_no_root_def val_free_inner_def sbind_step val_at_Cell)
  then show ?thesis
    unfolding val_alloc_free_def
    using v
    by (intro exI [of _ "(m_tbl m)\<lparr> tbl_head := i # tbl_head (m_tbl m),
          tbl_values := (tbl_values (m_tbl m))[i := v\<lparr> val_data := VAL_NULL, nofree := True \<rparr>] \<rparr>"])
       (simp add: sbind_step val_at_Cell val_put_Cell)
qed

lemma alloc_from_free_list:
  "tbl_head (m_tbl m) = i # is \<Longrightarrow> val_alloc m = Inr (Cell (tbl_generation (m_tbl m)) i, m\<lparr> m_tbl := (m_tbl m)\<lparr> tbl_head := is \<rparr> \<rparr>)"
  by (simp add: val_alloc_def sbind_def)


definition string_cell :: val_t where
  "string_cell = \<lparr> nofree = False, self_ptr = Some (Cell 0 0), val_data = VAL_STRING (Some 0) \<rparr>"

definition with_string :: machine where
  "with_string = one_scope\<lparr> m_strings := [Some ''x''], m_tbl := val_alloc_tbl_init\<lparr> tbl_values := [string_cell] \<rparr> \<rparr>"

definition string_entry :: "string \<Rightarrow> val_t valmap_entry" where
  "string_entry x = \<lparr> ve_key = x, ve_value = string_cell, ve_is_const = False \<rparr>"


end
