(* ===== verification/Call_Laws.thy ===== *)
theory Call_Laws
  imports Program_Safety Block_Semantics
begin

text \<open>
  Calls of functions of the program: the errors a call can end with before the function runs, what
  a second call does while the first one runs, and in which scope the function runs next time.
\<close>

section \<open>Reading the function\<close>

lemma entry_at_same: "entry_at p m = Inr (v, m') \<Longrightarrow> m' = m"
  by (auto simp: entry_at_def monad_inversion at_addr_def undefined_step_def split: option.splits if_splits)

lemma fn_at_same: "fn_at p m = Inr (f, m') \<Longrightarrow> m' = m"
  by (auto simp: at_addr_def split: option.splits if_splits)


text \<open>A machine whose one scope has a function \<^verbatim>\<open>f\<close> with a parameter.\<close>

definition function_f :: ast_node where
  "function_f = NODE_FN_DECL sample_loc ''f'' [''x''] [NODE_IDENTIFIER sample_loc ''x'']"

definition with_function :: machine where
  "with_function = (case eval 2 (Some 0) function_f one_scope of Inr (_, m) \<Rightarrow> m | Inl _ \<Rightarrow> one_scope)"

lemma with_function_eval: "eval 2 (Some 0) function_f one_scope = Inr (null_val, with_function)"
  by code_simp

lemma with_function_facts:
  "length (m_scopes with_function) = 2" "map_option sc_parent (m_scopes with_function ! 0) = Some None"
  "entry_in with_function 0 ''f'' = Some (val_init (VAL_FUNCTION (Some 0)), True)"
  "m_fns with_function = [Some (FN_USER_CUSTOM [NODE_IDENTIFIER sample_loc ''x''] [''x''] (Some 1))]"
  by code_simp+

lemma with_function_ok: "machine_ok with_function"
  using keeps_eval [OF one_scope_ok(2), of 0 2 function_f] one_scope_ok(1) with_function_eval by (simp add: keeps_def)

lemma env_of_root:
  assumes "machine_ok m" "a < length (m_scopes m)" "map_option sc_parent (m_scopes m ! a) = Some None"
  obtains sc where "m_scopes m ! a = Some sc" "env_of m a [frame_of sc]"
  using assms by (auto simp: machine_ok_def scope_ok_def intro: env_of.env_global)


section \<open>A call during a call\<close>


text \<open>The state in the middle of a call of \<^verbatim>\<open>f\<close>, and the pointer that its name resolves to.\<close>

definition during_call :: machine where
  "during_call = (case scope_declare_identifier 1 (Some 1) ''x'' (val_init (VAL_INTEGER 4)) True with_function of
     Inr (_, m) \<Rightarrow> m | Inl _ \<Rightarrow> one_scope)"

definition f_pointer :: entry_ptr where
  "f_pointer = (case scope_resolve_identifier (Some 0) ''f'' with_function of
     Inr (Some p, _) \<Rightarrow> p | _ \<Rightarrow> \<lparr> ep_scope = None, ep_array_id = 0, ep_index = 0 \<rparr>)"

lemma during_call_result:
  "case scope_declare_identifier 1 (Some 1) ''x'' (val_init (VAL_INTEGER 4)) True with_function of
     Inr (st, m) \<Rightarrow> entry_in m 1 ''x'' = Some (val_init (VAL_INTEGER 4), True) \<and>
       m_fns m = [Some (FN_USER_CUSTOM [NODE_IDENTIFIER sample_loc ''x''] [''x''] (Some 1))] \<and>
       (case entry_at f_pointer m of Inr (v, _) \<Rightarrow> v = val_init (VAL_FUNCTION (Some 0)) | Inl _ \<Rightarrow> False)
   | Inl _ \<Rightarrow> False"
  by code_simp

lemma during_call_facts:
  "\<exists>st. scope_declare_identifier 1 (Some 1) ''x'' (val_init (VAL_INTEGER 4)) True with_function = Inr (st, during_call)"
  "entry_at f_pointer during_call = Inr (val_init (VAL_FUNCTION (Some 0)), during_call)"
  "fn_at (Some 0) during_call = Inr (FN_USER_CUSTOM [NODE_IDENTIFIER sample_loc ''x''] [''x''] (Some 1), during_call)"
  "entry_in during_call 1 ''x'' = Some (val_init (VAL_INTEGER 4), True)"
proof -
  obtain st where st: "scope_declare_identifier 1 (Some 1) ''x'' (val_init (VAL_INTEGER 4)) True with_function = Inr (st, during_call)"
    using during_call_result by (auto simp: during_call_def split: sum.splits)
  then have r: "entry_in during_call 1 ''x'' = Some (val_init (VAL_INTEGER 4), True)"
    "m_fns during_call = [Some (FN_USER_CUSTOM [NODE_IDENTIFIER sample_loc ''x''] [''x''] (Some 1))]"
    "case entry_at f_pointer during_call of Inr (v, _) \<Rightarrow> v = val_init (VAL_FUNCTION (Some 0)) | Inl _ \<Rightarrow> False"
    using during_call_result by simp_all
  show "\<exists>st. scope_declare_identifier 1 (Some 1) ''x'' (val_init (VAL_INTEGER 4)) True with_function = Inr (st, during_call)"
    using st by blast
  show "entry_at f_pointer during_call = Inr (val_init (VAL_FUNCTION (Some 0)), during_call)"
    using r(3) entry_at_same [of f_pointer during_call] by (auto split: sum.splits prod.splits)
  show "fn_at (Some 0) during_call = Inr (FN_USER_CUSTOM [NODE_IDENTIFIER sample_loc ''x''] [''x''] (Some 1), during_call)"
    using r(2) by (simp add: at_addr_def)
  show "entry_in during_call 1 ''x'' = Some (val_init (VAL_INTEGER 4), True)" by (rule r(1))
qed

lemma during_call_ok: "machine_ok during_call"
  using keeps_declare [of 0 with_function 1 "Some 1" "''x''" "val_init (VAL_INTEGER 4)" True] with_function_ok during_call_facts(1)
  by (auto simp: keeps_def)


section \<open>The scope of a function after a call\<close>

lemma undefined_apply [simp]: "undefined_step msg m = Inl (Undefined msg)"
  by (simp add: undefined_step_def)

text \<open>The symbol table of a live scope takes a declaration; the scope stays where it is.\<close>

lemma declare_live:
  assumes "b < length (m_scopes m)" "m_scopes m ! b = Some sc" "valmap_ok (sc_valmap sc)" "\<not> allow_redecl sc"
  obtains st vm where "scope_declare_identifier n (Some b) x v c m = Inr (st, m\<lparr> m_scopes := (m_scopes m)[b := Some (sc\<lparr> sc_valmap := vm \<rparr>)] \<rparr>)"
    "valmap_ok vm"
proof -
  obtain vm st where vm: "valmap_set_no_overwrite (sc_valmap sc) x v c True = Inr (vm, st, None)" "valmap_ok vm"
    using vm.declare_law [OF assms(3), of x v c] by auto
  show ?thesis
    using assms(4) vm on_valmap_Some [OF assms(1,2), of "\<lambda>vm. valmap_set_no_overwrite vm x v c True", OF vm(1)]
    by (intro that) (simp_all add: scope_declare_identifier_def sbind_step at_addr_Some [of b m_scopes m, OF assms(1,2)])
qed

lemma declare_builtins_live:
  assumes "declare_builtins n (Some b) bs m = Inr (u, m')"
    and "b < length (m_scopes m)" "m_scopes m ! b = Some sc" "valmap_ok (sc_valmap sc)" "\<not> allow_redecl sc"
  shows "length (m_scopes m') = length (m_scopes m) \<and> (\<exists>vm. m_scopes m' ! b = Some (sc\<lparr> sc_valmap := vm \<rparr>))"
  using assms
proof (induction bs arbitrary: m sc)
  case Nil
  then show ?case by (auto intro: exI [of _ "sc_valmap sc"])
next
  case (Cons e bs)
  obtain x f p where e: "e = (x, f, p)" by (cases e)
  obtain v m0 where v: "val_at (the p) m = Inr (v, m0)" "sbind (scope_declare_identifier n (Some b) x v True) (\<lambda>_. declare_builtins n (Some b) bs) m0 = Inr (u, m')"
    using Cons.prems(1) by (auto simp: e monad_inversion)
  have "m0 = m" using v(1) by (auto simp: val_at_def sbind_def split: val_ptr.splits if_splits)
  obtain st vm where d: "scope_declare_identifier n (Some b) x v True m = Inr (st, m\<lparr> m_scopes := (m_scopes m)[b := Some (sc\<lparr> sc_valmap := vm \<rparr>)] \<rparr>)"
    "valmap_ok vm"
    using Cons.prems(2-5) by (elim declare_live)
  let ?m = "m\<lparr> m_scopes := (m_scopes m)[b := Some (sc\<lparr> sc_valmap := vm \<rparr>)] \<rparr>" and ?sc = "sc\<lparr> sc_valmap := vm \<rparr>"
  have "declare_builtins n (Some b) bs ?m = Inr (u, m')" using v(2) d(1) \<open>m0 = m\<close> by (simp add: sbind_def)
  then have "length (m_scopes m') = length (m_scopes ?m) \<and> (\<exists>vm'. m_scopes m' ! b = Some (?sc\<lparr> sc_valmap := vm' \<rparr>))"
    using Cons.prems(2,5) d(2) by (intro Cons.IH) simp_all
  then show ?case by simp
qed

lemma scope_init_result:
  assumes "scope_init n parent m = Inr (s, m')"
  shows "s = Some (length (m_scopes m)) \<and> length (m_scopes m') = Suc (length (m_scopes m)) \<and>
    (\<exists>sc. m_scopes m' ! length (m_scopes m) = Some sc \<and> sc_parent sc = parent)"
proof -
  let ?m = "m_scopes_update (\<lambda>h. h @ [Some (new_scope parent)]) m" and ?a = "length (m_scopes m)"
  have "scope_new (new_scope parent) m = Inr (?a, ?m)" by (simp add: alloc_addr_def sbind_def)
  then obtain u where s: "s = Some ?a" "(if parent \<noteq> None then sbind (sget builtin_functions) (declare_builtins n (Some ?a)) else sret ()) ?m = Inr (u, m')"
    using assms by (auto simp: scope_init_def monad_inversion)
  have "length (m_scopes m') = length (m_scopes ?m) \<and> (\<exists>vm. m_scopes m' ! ?a = Some ((new_scope parent)\<lparr> sc_valmap := vm \<rparr>))"
  proof (cases "parent = None")
    case True
    then show ?thesis using s(2) by (auto intro: exI [of _ "sc_valmap (new_scope None)"])
  next
    case False
    then have "declare_builtins n (Some ?a) (builtin_functions ?m) ?m = Inr (u, m')" using s(2) by (simp add: sbind_def)
    then show ?thesis by (rule declare_builtins_live) (simp_all add: new_scope_def valmap_ok_init)
  qed
  with s(1) show ?thesis by (auto simp: new_scope_def)
qed

text \<open>
  C19. Dynamic scope: after a call from scope \<open>s\<close> the function object has a new, otherwise unused
  scope, whose parent is the scope of the call, not the one the function was declared in. The next
  call sees the variables of the previous caller.
\<close>

theorem call_moves_scope:
  assumes "call_user n ev s l f p body params args m = Inr (v, m')"
  shows "\<exists>val body' params' a sc. entry_at p m' = Inr (val, m') \<and> fn_at (fn_ptr val) m' = Inr (FN_USER_CUSTOM body' params' (Some a), m')
    \<and> Suc a = length (m_scopes m') \<and> m_scopes m' ! a = Some sc \<and> sc_parent sc = s"
proof -
  obtain copy m1 s' m2 val m3 fn m4 where c: "scope_init n s m1 = Inr (s', m2)" "entry_at p m2 = Inr (val, m3)" "fn_at (fn_ptr val) m3 = Inr (fn, m4)"
    "(case fn of
        FN_USER_CUSTOM body' params' _ \<Rightarrow> sbind (fn_put (fn_ptr val) (Some (FN_USER_CUSTOM body' params' s'))) (\<lambda>_. val_at copy)
      | FN_BUILT_IN _ \<Rightarrow> undefined_step ''function object changed'') m4 = Inr (v, m')"
    using assms unfolding call_user_def
    by (auto simp: monad_inversion error_at_apply split: if_splits option.splits)
  have same: "m3 = m2" "m4 = m2" using entry_at_same [OF c(2)] fn_at_same [OF c(3)] by simp_all
  obtain body' params' t where fn: "fn = FN_USER_CUSTOM body' params' t"
    using c(4) by (cases fn) auto
  obtain k where k: "fn_ptr val = Some k" "k < length (m_fns m2)" "m_fns m2 ! k = Some fn"
    using c(3) by (auto simp: same at_addr_def split: option.splits if_splits)
  have "m' = m2\<lparr> m_fns := (m_fns m2)[k := Some (FN_USER_CUSTOM body' params' s')] \<rparr>"
    using c(4) k by (auto simp: fn same monad_inversion put_addr_def val_at_def at_addr_def split: val_ptr.splits if_splits)
  moreover obtain sc where "s' = Some (length (m_scopes m1))" "length (m_scopes m2) = Suc (length (m_scopes m1))"
    "m_scopes m2 ! length (m_scopes m1) = Some sc" "sc_parent sc = s"
    using scope_init_result [OF c(1)] by blast
  moreover have "entry_at p (m2\<lparr> m_fns := h \<rparr>) = Inr (val, m2\<lparr> m_fns := h \<rparr>)" for h
    using c(2) by (auto simp: entry_at_def monad_inversion at_addr_def sbind_def split: option.splits if_splits)
  ultimately show ?thesis using k by (simp add: at_addr_def)
qed

definition f_body :: "ast_node list" where
  "f_body = [NODE_IDENTIFIER sample_loc ''x'']"

definition after_call :: machine where
  "after_call = (case call_user 2 (eval 2) (Some 0) sample_loc ''f'' f_pointer f_body [''x''] [val_init (VAL_INTEGER 4)] with_function of
     Inr (_, m) \<Rightarrow> m | Inl _ \<Rightarrow> one_scope)"

lemma call_result:
  "case call_user 2 (eval 2) (Some 0) sample_loc ''f'' f_pointer f_body [''x''] [val_init (VAL_INTEGER 4)] with_function of
     Inr (v, m) \<Rightarrow> length (m_scopes m) = 3 | Inl _ \<Rightarrow> False"
  by code_simp

lemma after_call_facts:
  obtains v where "call_user 2 (eval 2) (Some 0) sample_loc ''f'' f_pointer f_body [''x''] [val_init (VAL_INTEGER 4)] with_function = Inr (v, after_call)"
    "length (m_scopes after_call) = 3"
  using call_result that by (auto simp: after_call_def split: sum.splits)

lemma call_moves_scope_witness:
  "\<exists>val body' params' sc. entry_at f_pointer after_call = Inr (val, after_call) \<and>
     fn_at (fn_ptr val) after_call = Inr (FN_USER_CUSTOM body' params' (Some 2), after_call) \<and>
     m_scopes after_call ! 2 = Some sc \<and> sc_parent sc = Some 0"
proof -
  obtain v where v: "call_user 2 (eval 2) (Some 0) sample_loc ''f'' f_pointer f_body [''x''] [val_init (VAL_INTEGER 4)] with_function
      = Inr (v, after_call)" "length (m_scopes after_call) = 3"
    by (rule after_call_facts)
  obtain val body' params' a sc where "entry_at f_pointer after_call = Inr (val, after_call)"
    "fn_at (fn_ptr val) after_call = Inr (FN_USER_CUSTOM body' params' (Some a), after_call)"
    "Suc a = length (m_scopes after_call)" "m_scopes after_call ! a = Some sc" "sc_parent sc = Some 0"
    using call_moves_scope [OF v(1)] by blast
  moreover from this(3) have "a = 2" using v(2) by simp
  ultimately show ?thesis by blast
qed

end
