(* ===== verification/Errmsg.thy ===== *)
theory Errmsg
  imports Lexer_Correct Parser Print_Lib
begin

text \<open>
  What a program that ends with an error tells its user (src/errmsg.c, lib/log.c, lib/utils.c): the
  text on the standard error and the exit status of each kind of fault, and the lines of the source
  that are shown for a parse error.
\<close>

section \<open>Messages\<close>

datatype error_type = ERR_SYNTAX | ERR_EVAL | ERR_COMPILE | ERR_FATAL

fun error_type_to_str :: "error_type \<Rightarrow> string" where
  "error_type_to_str ERR_SYNTAX = ''syntax error''"
| "error_type_to_str ERR_EVAL = ''error''"
| "error_type_to_str ERR_COMPILE = ''error''"
| "error_type_to_str ERR_FATAL = ''fatal''"

definition errmsg_print_msg_internal :: "error_type \<Rightarrow> string \<Rightarrow> nat \<Rightarrow> nat \<Rightarrow> string \<Rightarrow> string" where
  "errmsg_print_msg_internal type filename line_start col_start msg =
     esc ''1;31'' @ error_type_to_str type @ '':'' @ esc ''0'' @ '' '' @
     esc ''1'' @ filename @ '':'' @ digits 10 line_start @ '':'' @ digits 10 col_start @ '':'' @ esc ''0'' @ '' '' @
     msg @ [newline]"

definition errmsg_print_msg :: "error_type \<Rightarrow> string \<Rightarrow> nat \<Rightarrow> nat \<Rightarrow> string \<Rightarrow> string \<times> nat" where
  "errmsg_print_msg type filename line_start col_start msg = (errmsg_print_msg_internal type filename line_start col_start msg, 1)"

section \<open>The lines of the source\<close>

definition IS_NEWLINE :: "char \<Rightarrow> bool" where
  "IS_NEWLINE c \<longleftrightarrow> c = carriage_return \<or> c = newline"

text \<open>The integer part of \<^verbatim>\<open>log10l\<close> of a positive number.\<close>

definition log10l :: "nat \<Rightarrow> nat" where
  "log10l n = length (digits 10 n) - 1"

definition max_spaces :: "nat \<Rightarrow> nat" where
  "max_spaces line_end = 3 + log10l line_end"

text \<open>
  The marks below the line. The loop \<^verbatim>\<open>while (spaces --> -1)\<close> has one round more than
  \<^verbatim>\<open>spaces\<close>; the columns before \<open>col_start\<close> are blank.
\<close>

definition marks :: "nat \<Rightarrow> nat \<Rightarrow> nat \<Rightarrow> string" where
  "marks line_end col_start col_end =
     replicate (max_spaces line_end + 3) CHR '' '' @ esc ''1;31'' @
     map (\<lambda>column. if column \<ge> col_start then CHR ''^'' else CHR '' '') [0..<col_end] @ esc ''0'' @ [newline]"

definition row_start :: "nat \<Rightarrow> nat \<Rightarrow> string" where
  "row_start line line_end =
     replicate (max_spaces line_end - log10l line) CHR '' '' @ digits 10 line @ '' | ''"

text \<open>The loop over the source, from the character \<^verbatim>\<open>i\<close> on.\<close>

function print_src_lines :: "nat \<Rightarrow> nat \<Rightarrow> nat \<Rightarrow> nat \<Rightarrow> string \<Rightarrow> nat \<Rightarrow> bool \<Rightarrow> string" where
  "print_src_lines line_start line_end col_start col_end buf line skip =
     (case buf of
        [] \<Rightarrow> []
      | c # cs \<Rightarrow>
          if line = line_end then marks line_end col_start col_end
          else if \<not> skip \<or> line = line_start
          then row_start line line_end @ takeWhile (\<lambda>c. \<not> IS_NEWLINE c) buf @ [newline] @
            (case dropWhile (\<lambda>c. \<not> IS_NEWLINE c) buf of
               [] \<Rightarrow> []
             | d # ds \<Rightarrow> print_src_lines line_start line_end col_start col_end ds (line + 1) False)
          else print_src_lines line_start line_end col_start col_end cs (if IS_NEWLINE c then line + 1 else line) skip)"
  by pat_completeness auto
termination
proof (relation "measure (\<lambda>(_, _, _, _, buf, _). length buf)", goal_cases)
  case (2 ls le cs ce buf line skip c cs' d ds)
  then have "length (d # ds) \<le> length buf" using length_dropWhile_le by metis
  then show ?case by simp
qed simp_all

declare print_src_lines.simps [simp del]

definition errmsg_print_formatted_src_lines :: "nat \<Rightarrow> nat \<Rightarrow> nat \<Rightarrow> nat \<Rightarrow> string \<Rightarrow> string" where
  "errmsg_print_formatted_src_lines line_start line_end col_start col_end buf =
     print_src_lines line_start line_end col_start col_end (c_string buf) 1 True"

definition errmsg_print_formatted :: "nat \<Rightarrow> nat \<Rightarrow> nat \<Rightarrow> nat \<Rightarrow> string \<Rightarrow> string \<Rightarrow> error_type \<Rightarrow> string \<Rightarrow> string \<times> nat" where
  "errmsg_print_formatted line_start line_end col_start col_end buf filename type msg =
     (errmsg_print_msg_internal type filename line_start col_start msg @
      errmsg_print_formatted_src_lines line_start line_end col_start col_end buf, 1)"

section \<open>The report of a fault\<close>

definition log_error_va_list :: "string \<Rightarrow> string" where
  "log_error_va_list msg = esc ''1;31'' @ ''error:'' @ esc ''0'' @ '' '' @ msg @ [newline]"

definition fatal_error :: "string \<Rightarrow> string \<times> nat" where
  "fatal_error msg = (esc ''1;31'' @ ''fatal'' @ esc ''0'' @ '' '' @ log_error_va_list msg, 1)"

definition syntax_error :: "string \<Rightarrow> string \<times> nat" where
  "syntax_error msg = (esc ''1;31'' @ ''syntax error:'' @ esc ''0'' @ '' '' @ msg @ [newline], 255)"

text \<open>The position in front of a message, as \<^verbatim>\<open>SYNTAX_ERROR_LINE\<close> and \<^verbatim>\<open>RUNTIME_ERROR\<close> put it.\<close>

definition error_position :: "string \<Rightarrow> nat \<Rightarrow> nat \<Rightarrow> string" where
  "error_position filename line column =
     esc ''0'' @ esc ''1'' @ filename @ esc ''0'' @ '':'' @ digits 10 line @ '':'' @ digits 10 column @ '': ''"

text \<open>
  The text on the standard error and the exit status. A failed assertion, undefined behaviour and
  the end of the fuel have none.
\<close>

fun fault_report :: "string \<Rightarrow> string \<Rightarrow> fault \<Rightarrow> (string \<times> nat) option" where
  "fault_report filename buf (Fatal_error msg) = Some (fatal_error msg)"
| "fault_report filename buf (Syntax_error msg) = Some (syntax_error msg)"
| "fault_report filename buf (Syntax_error_at line column msg) = Some (syntax_error (error_position filename line column @ msg))"
| "fault_report filename buf (Parse_error line_start line_end col_start col_end msg) =
     Some (errmsg_print_formatted line_start line_end col_start col_end buf filename ERR_SYNTAX msg)"
| "fault_report filename buf (Runtime_error (Some line) (Some column) msg) =
     Some (log_error_va_list (error_position filename line column @ msg), 1)"
| "fault_report filename buf (Process_exit status) = Some ('''', status)"
| "fault_report filename buf _ = None"

section \<open>The lines shown for a token\<close>

definition breaks :: "string \<Rightarrow> nat" where
  "breaks s = length (filter IS_NEWLINE s)"

text \<open>The lines before the first one to be shown are skipped.\<close>

lemma lines_skipped:
  assumes "before = [] \<or> IS_NEWLINE (last before)" and "line + breaks before = ls" and "ls < le"
  shows "print_src_lines ls le cs ce (before @ rest) line True = print_src_lines ls le cs ce rest ls True"
  using assms(1,2)
proof (induction before arbitrary: line)
  case (Cons c before)
  have "0 < breaks (c # before)"
    using Cons.prems(1) by (auto simp: breaks_def filter_empty_conv split: if_splits intro: last_in_set)
  then have line: "line \<noteq> le" "line \<noteq> ls" using Cons.prems(2) assms(3) by linarith+
  have "print_src_lines ls le cs ce ((c # before) @ rest) line True
      = print_src_lines ls le cs ce (before @ rest) (if IS_NEWLINE c then line + 1 else line) True"
    by (subst print_src_lines.simps) (simp add: line)
  also have "\<dots> = print_src_lines ls le cs ce rest ls True"
    using Cons.prems by (intro Cons.IH) (auto simp: breaks_def split: if_splits)
  finally show ?case .
qed (simp add: breaks_def)

text \<open>Then the line is shown, and the marks if something follows its end.\<close>

lemma line_shown:
  assumes "\<forall>c \<in> set text. \<not> IS_NEWLINE c" and "tail = [] \<or> IS_NEWLINE (hd tail)"
  shows "print_src_lines ls (ls + 1) cs ce (text @ tail) ls True =
    (if text @ tail = [] then []
     else row_start ls (ls + 1) @ text @ [newline] @ (if length tail \<le> 1 then [] else marks (ls + 1) cs ce))"
proof (cases "text @ tail")
  case Nil
  then show ?thesis by (simp add: print_src_lines.simps [of _ _ _ _ "[]"])
next
  case (Cons c rest)
  have parts: "takeWhile (\<lambda>c. \<not> IS_NEWLINE c) (text @ tail) = text" "dropWhile (\<lambda>c. \<not> IS_NEWLINE c) (text @ tail) = tail"
    using assms by (cases tail; simp add: takeWhile_append dropWhile_append takeWhile_eq_Nil_iff)+
  have behind: "print_src_lines ls (ls + 1) cs ce ds (ls + 1) False = (if ds = [] then [] else marks (ls + 1) cs ce)" for ds
    by (subst print_src_lines.simps) (simp split: list.splits)
  have "print_src_lines ls (ls + 1) cs ce (text @ tail) ls True
      = row_start ls (ls + 1) @ text @ [newline] @ (case tail of [] \<Rightarrow> [] | d # ds \<Rightarrow> print_src_lines ls (ls + 1) cs ce ds (ls + 1) False)"
    by (subst print_src_lines.simps, simp only: parts) (simp add: Cons)
  then show ?thesis unfolding behind using Cons by (auto split: list.splits)
qed

text \<open>The position after a text, by its last line.\<close>

lemma pos_after_line: "\<forall>c \<in> set text. \<not> IS_NEWLINE c \<Longrightarrow> pos_after text (line, col) = (line, col + length text)"
  by (induction "text" arbitrary: col) (auto simp: IS_NEWLINE_def)

lemma pos_after_breaks:
  "before \<noteq> [] \<Longrightarrow> IS_NEWLINE (last before) \<Longrightarrow> pos_after before (line, col) = (line + breaks before, 1)"
proof (induction before arbitrary: line col)
  case (Cons c before)
  show ?case
  proof (cases "before = []")
    case True
    then show ?thesis using Cons.prems by (auto simp: IS_NEWLINE_def breaks_def)
  next
    case False
    then show ?thesis using Cons by (cases "IS_NEWLINE c") (auto simp: IS_NEWLINE_def breaks_def)
  qed
qed simp

lemma pos_after_start:
  "before = [] \<or> IS_NEWLINE (last before) \<Longrightarrow> pos_after before (1, 1) = (1 + breaks before, 1)"
  using pos_after_breaks [of before 1 1] by (cases "before = []") (auto simp: breaks_def)

lemma last_line:
  obtains before start where "pre = before @ start" and "before = [] \<or> IS_NEWLINE (last before)"
    and "\<forall>c \<in> set start. \<not> IS_NEWLINE c"
proof -
  define start where "start = rev (takeWhile (\<lambda>c. \<not> IS_NEWLINE c) (rev pre))"
  define before where "before = rev (dropWhile (\<lambda>c. \<not> IS_NEWLINE c) (rev pre))"
  have "rev pre = rev start @ rev before" by (simp add: start_def before_def)
  then have "pre = before @ start" by (metis rev_append rev_rev_ident)
  moreover have "before = [] \<or> IS_NEWLINE (last before)"
    using hd_dropWhile [of "\<lambda>c. \<not> IS_NEWLINE c" "rev pre"] by (auto simp: before_def last_rev)
  moreover have "\<forall>c \<in> set start. \<not> IS_NEWLINE c" by (auto simp: start_def dest: set_takeWhileD)
  ultimately show ?thesis by (rule that)
qed

definition spells :: "lex_token \<Rightarrow> string \<Rightarrow> bool" where
  "spells t lexeme \<longleftrightarrow>
     (if lt_type t = T_EOF then lexeme = []
      else if lt_type t = T_STRING then \<exists>q \<in> {CHR 0x22, CHR 0x27}. lexeme = q # lt_value t @ [q]
      else lexeme = lt_value t)"

lemma spells_located:
  "(if lt_type t = T_EOF then lexeme = [] \<and> post = []
    else if lt_type t = T_STRING then \<exists>q \<in> {CHR 0x22, CHR 0x27}. lexeme = q # lt_value t @ [q]
    else lexeme = lt_value t) \<Longrightarrow> spells t lexeme"
  by (auto simp: spells_def split: if_splits)

lemma no_break_in_quote: "\<not> IS_NEWLINE CHR 0x22" "\<not> IS_NEWLINE CHR 0x27"
  by (simp_all add: IS_NEWLINE_def carriage_return_def newline_def)

lemma spells_unbroken:
  "spells t lexeme \<Longrightarrow> \<forall>c \<in> set (lt_value t). \<not> IS_NEWLINE c \<Longrightarrow> \<forall>c \<in> set lexeme. \<not> IS_NEWLINE c"
  using no_break_in_quote by (auto simp: spells_def split: if_splits)

lemma column_marks:
  "map (\<lambda>column. if column \<ge> a then CHR ''^'' else CHR '' '') [0..<a + k] = replicate a CHR '' '' @ replicate k CHR ''^''"
proof -
  have "map (\<lambda>column. if column \<ge> a then CHR ''^'' else CHR '' '') [a..<a + k] = replicate k CHR ''^''"
    by (rule nth_equalityI) simp_all
  moreover have "map (\<lambda>column. if column \<ge> a then CHR ''^'' else CHR '' '') [0..<a] = replicate a CHR '' ''"
    by (rule nth_equalityI) simp_all
  ultimately show ?thesis by (simp add: upt_add_eq_append [of 0 a k])
qed

lemma digits_length_mono: "m \<le> n \<Longrightarrow> length (digits 10 m) \<le> length (digits 10 n)"
proof -
  assume mn: "m \<le> n"
  have "n < 10 ^ length (digits 10 n)" using digits_length_ge [of 10 "length (digits 10 n)" n] by (cases "10 ^ length (digits 10 n) \<le> n") simp_all
  then show ?thesis using mn digits_length [of 10 m "length (digits 10 n)"] by simp
qed

lemma row_start_length: "length (row_start n (n + 1)) = max_spaces (n + 1) + 4"
proof -
  have "length (digits 10 n) \<le> length (digits 10 (n + 1))" by (rule digits_length_mono) simp_all
  moreover obtain a b where "length (digits 10 n) = Suc a" "length (digits 10 (n + 1)) = Suc b"
    using digits_nonempty by (metis length_0_conv not0_implies_Suc)
  ultimately show ?thesis by (simp add: row_start_def max_spaces_def log10l_def)
qed


definition broken_source :: string where
  "broken_source = ''println(1);'' @ [newline] @ ''var = 3;'' @ [newline] @ ''println(2);''"

lemma broken_tokens:
  "case run_lexer ''a.bl'' broken_source of
     Inr ts \<Rightarrow> 7 < length ts \<and> lt_value (ts ! 6) = ''='' \<and> lt_type (ts ! 6) = T_ASSIGNMENT
   | Inl e \<Rightarrow> False"
  by code_simp


lemma broken_report:
  "errmsg_print_formatted_src_lines 2 3 5 6 broken_source =
     ''   2 | var = 3;'' @ [newline] @ ''      '' @ esc ''1;31'' @ ''     ^'' @ esc ''0'' @ [newline]"
  by code_simp

end
