(* ===== verification/Ast_Memory.thy ===== *)
theory Ast_Memory
  imports Ast "HOL-Library.Multiset"
begin

text \<open>
  The memory of a syntax tree (src/ast.h): which allocations a tree consists of, how a tree is
  freed (\<^verbatim>\<open>parser_ast_free\<close> in src/parser.c) and what \<^verbatim>\<open>parser_ast_deep_copy\<close> allocates and
  shares. Theory Ast has the trees without addresses.
\<close>

section \<open>Trees in memory\<close>

text \<open>
  A node is a struct in line, with a pointer to a struct of its own for its kind. Single children
  are reached by pointers, \<open>(p, node)\<close>; the children of roots, blocks, calls and functions are an
  array of nodes, which is NULL when it is empty. The first address of a node is that of the struct
  for its kind.
\<close>

type_synonym cell = nat

datatype heap_node =
    H_ROOT loc cell "cell option" "heap_node list"
  | H_INT_LIT loc cell int
  | H_BINARY_EXPR loc cell ast_bin_operator cell heap_node cell heap_node
  | H_IDENTIFIER loc cell cell string
  | H_STRING loc cell cell string
  | H_VAR_DECL loc cell cell string bool "(cell \<times> heap_node) option"
  | H_ASSIGNMENT loc cell cell heap_node cell heap_node
  | H_EXPR_CALL loc cell cell cell string "cell option" "heap_node list"
  | H_FN_DECL loc cell cell cell string "cell option" "(cell \<times> string) list" "cell option" "heap_node list"
  | H_ARRAY_LIT loc cell cell "cell option" "(cell \<times> heap_node) list"
  | H_IMPORT_STMT loc
  | H_BLOCK loc cell "cell option" "heap_node list"
  | H_IF_STMT loc cell cell heap_node cell heap_node "(cell \<times> heap_node) option"
  | H_LOOP_STMT loc cell "(cell \<times> heap_node) option" "(cell \<times> string) option" cell heap_node

text \<open>The tree without its addresses.\<close>

fun tree_of :: "heap_node \<Rightarrow> ast_node" where
  "tree_of (H_ROOT l s arr ns) = NODE_ROOT l (map tree_of ns)"
| "tree_of (H_INT_LIT l s i) = NODE_INT_LIT l i"
| "tree_of (H_BINARY_EXPR l s op p a q b) = NODE_BINARY_EXPR l op (tree_of a) (tree_of b)"
| "tree_of (H_IDENTIFIER l s c x) = NODE_IDENTIFIER l x"
| "tree_of (H_STRING l s c x) = NODE_STRING l x"
| "tree_of (H_VAR_DECL l s c x k v) = NODE_VAR_DECL l x k (map_option (\<lambda>(p, n). tree_of n) v)"
| "tree_of (H_ASSIGNMENT l s p a q b) = NODE_ASSIGNMENT l (tree_of a) (tree_of b)"
| "tree_of (H_EXPR_CALL l s i c f arr ns) = NODE_EXPR_CALL l f (map tree_of ns)"
| "tree_of (H_FN_DECL l s i c f parr ps arr ns) = NODE_FN_DECL l f (map snd ps) (map tree_of ns)"
| "tree_of (H_ARRAY_LIT l s v d es) = NODE_ARRAY_LIT l (map (\<lambda>(p, n). tree_of n) es)"
| "tree_of (H_IMPORT_STMT l) = NODE_IMPORT_STMT l"
| "tree_of (H_BLOCK l s arr ns) = NODE_BLOCK l (map tree_of ns)"
| "tree_of (H_IF_STMT l s p c q t e) = NODE_IF_STMT l (tree_of c) (tree_of t) (map_option (\<lambda>(r, n). tree_of n) e)"
| "tree_of (H_LOOP_STMT l s c x p b) = NODE_LOOP_STMT l (map_option (\<lambda>(r, n). tree_of n) c) (map_option snd x) (tree_of b)"

section \<open>Freeing\<close>

text \<open>The state is the set of the live allocations.\<close>

definition c_free :: "cell \<Rightarrow> (cell set, unit) st" where
  "c_free p = (\<lambda>live. if p \<in> live then Inr ((), live - {p}) else Inl (Undefined ''double free''))"

definition free_ptr :: "cell option \<Rightarrow> (cell set, unit) st" where
  "free_ptr p = (case p of None \<Rightarrow> sret () | Some a \<Rightarrow> c_free a)"

fun free_cells_of :: "cell list \<Rightarrow> (cell set, unit) st" where
  "free_cells_of [] = sret ()"
| "free_cells_of (p # ps) = sbind (c_free p) (\<lambda>_. free_cells_of ps)"

text \<open>
  For a loop the source frees \<^verbatim>\<open>node->if_stmt->if_block\<close>, which is the field of
  \<^verbatim>\<open>iter_varname\<close> seen through the struct of a conditional.
\<close>

fun parser_ast_free_inner :: "heap_node \<Rightarrow> (cell set, unit) st"
and free_inner_all :: "heap_node list \<Rightarrow> (cell set, unit) st"
and free_elements :: "(cell \<times> heap_node) list \<Rightarrow> (cell set, unit) st"
where
  "parser_ast_free_inner (H_ROOT l s arr ns) =
     sbind (free_inner_all ns) (\<lambda>_. sbind (free_ptr arr) (\<lambda>_. c_free s))"
| "parser_ast_free_inner (H_IDENTIFIER l s c x) = sbind (c_free c) (\<lambda>_. c_free s)"
| "parser_ast_free_inner (H_STRING l s c x) = sbind (c_free c) (\<lambda>_. c_free s)"
| "parser_ast_free_inner (H_INT_LIT l s i) = c_free s"
| "parser_ast_free_inner (H_BINARY_EXPR l s op p a q b) =
     sbind (parser_ast_free_inner a) (\<lambda>_. sbind (c_free p) (\<lambda>_.
     sbind (parser_ast_free_inner b) (\<lambda>_. sbind (c_free q) (\<lambda>_. c_free s))))"
| "parser_ast_free_inner (H_ASSIGNMENT l s p a q b) =
     sbind (parser_ast_free_inner a) (\<lambda>_. sbind (c_free p) (\<lambda>_.
     sbind (parser_ast_free_inner b) (\<lambda>_. sbind (c_free q) (\<lambda>_. c_free s))))"
| "parser_ast_free_inner (H_EXPR_CALL l s i c f arr ns) =
     sbind (free_inner_all ns) (\<lambda>_. sbind (free_ptr arr) (\<lambda>_. sbind (c_free c) (\<lambda>_. sbind (c_free i) (\<lambda>_. c_free s))))"
| "parser_ast_free_inner (H_VAR_DECL l s c x k None) = sbind (c_free c) (\<lambda>_. c_free s)"
| "parser_ast_free_inner (H_VAR_DECL l s c x k (Some (p, v))) =
     sbind (parser_ast_free_inner v) (\<lambda>_. sbind (c_free p) (\<lambda>_. sbind (c_free c) (\<lambda>_. c_free s)))"
| "parser_ast_free_inner (H_ARRAY_LIT l s v d es) =
     sbind (free_elements es) (\<lambda>_. sbind (free_ptr d) (\<lambda>_. sbind (c_free v) (\<lambda>_. c_free s)))"
| "parser_ast_free_inner (H_FN_DECL l s i c f parr ps arr ns) =
     sbind (c_free c) (\<lambda>_. sbind (c_free i) (\<lambda>_. sbind (free_cells_of (map fst ps)) (\<lambda>_. sbind (free_ptr parr) (\<lambda>_.
     sbind (free_inner_all ns) (\<lambda>_. sbind (free_ptr arr) (\<lambda>_. c_free s))))))"
| "parser_ast_free_inner (H_BLOCK l s arr ns) =
     sbind (free_inner_all ns) (\<lambda>_. sbind (free_ptr arr) (\<lambda>_. c_free s))"
| "parser_ast_free_inner (H_IF_STMT l s p c q t e) =
     sbind (parser_ast_free_inner c) (\<lambda>_. sbind (c_free p) (\<lambda>_.
     sbind (parser_ast_free_inner t) (\<lambda>_. sbind (c_free q) (\<lambda>_.
     sbind (case e of None \<Rightarrow> sret () | Some (r, b) \<Rightarrow> sbind (parser_ast_free_inner b) (\<lambda>_. c_free r)) (\<lambda>_. c_free s)))))"
| "parser_ast_free_inner (H_LOOP_STMT l s c x p b) =
     sbind (case c of None \<Rightarrow> sret () | Some (r, n) \<Rightarrow> sbind (parser_ast_free_inner n) (\<lambda>_. c_free r)) (\<lambda>_.
     sbind (case x of None \<Rightarrow> sret () | Some (v, name) \<Rightarrow> c_free v) (\<lambda>_.
     sbind (parser_ast_free_inner b) (\<lambda>_. sbind (c_free p) (\<lambda>_. c_free s))))"
| "parser_ast_free_inner (H_IMPORT_STMT l) = sthrow (Undefined ''NULL passed for a string conversion'')"
| "free_inner_all [] = sret ()"
| "free_inner_all (n # ns) = sbind (parser_ast_free_inner n) (\<lambda>_. free_inner_all ns)"
| "free_elements [] = sret ()"
| "free_elements ((p, n) # es) = sbind (parser_ast_free_inner n) (\<lambda>_. sbind (c_free p) (\<lambda>_. free_elements es))"

definition parser_ast_free :: "cell \<times> heap_node \<Rightarrow> (cell set, unit) st" where
  "parser_ast_free node = sbind (parser_ast_free_inner (snd node)) (\<lambda>_. c_free (fst node))"

section \<open>What a tree owns\<close>

text \<open>The allocations, in the order in which they are freed.\<close>

definition cells :: "cell option \<Rightarrow> cell list" where
  "cells p = (case p of None \<Rightarrow> [] | Some a \<Rightarrow> [a])"

fun owned :: "heap_node \<Rightarrow> cell list" where
  "owned (H_ROOT l s arr ns) = concat (map owned ns) @ cells arr @ [s]"
| "owned (H_INT_LIT l s i) = [s]"
| "owned (H_BINARY_EXPR l s op p a q b) = owned a @ p # owned b @ [q, s]"
| "owned (H_IDENTIFIER l s c x) = [c, s]"
| "owned (H_STRING l s c x) = [c, s]"
| "owned (H_VAR_DECL l s c x k v) = (case v of None \<Rightarrow> [] | Some (p, n) \<Rightarrow> owned n @ [p]) @ [c, s]"
| "owned (H_ASSIGNMENT l s p a q b) = owned a @ p # owned b @ [q, s]"
| "owned (H_EXPR_CALL l s i c f arr ns) = concat (map owned ns) @ cells arr @ [c, i, s]"
| "owned (H_FN_DECL l s i c f parr ps arr ns) = [c, i] @ map fst ps @ cells parr @ concat (map owned ns) @ cells arr @ [s]"
| "owned (H_ARRAY_LIT l s v d es) = concat (map (\<lambda>(p, n). owned n @ [p]) es) @ cells d @ [v, s]"
| "owned (H_IMPORT_STMT l) = []"
| "owned (H_BLOCK l s arr ns) = concat (map owned ns) @ cells arr @ [s]"
| "owned (H_IF_STMT l s p c q t e) =
     owned c @ p # owned t @ q # (case e of None \<Rightarrow> [] | Some (r, n) \<Rightarrow> owned n @ [r]) @ [s]"
| "owned (H_LOOP_STMT l s c x p b) =
     (case c of None \<Rightarrow> [] | Some (r, n) \<Rightarrow> owned n @ [r]) @ (case x of None \<Rightarrow> [] | Some (v, name) \<Rightarrow> [v]) @ owned b @ [p, s]"

text \<open>No import occurs in the tree; the parser makes none.\<close>

fun no_import :: "heap_node \<Rightarrow> bool" where
  "no_import (H_IMPORT_STMT l) = False"
| "no_import (H_ROOT l s arr ns) = (\<forall>n \<in> set ns. no_import n)"
| "no_import (H_BINARY_EXPR l s op p a q b) = (no_import a \<and> no_import b)"
| "no_import (H_VAR_DECL l s c x k v) = (case v of None \<Rightarrow> True | Some (p, n) \<Rightarrow> no_import n)"
| "no_import (H_ASSIGNMENT l s p a q b) = (no_import a \<and> no_import b)"
| "no_import (H_EXPR_CALL l s i c f arr ns) = (\<forall>n \<in> set ns. no_import n)"
| "no_import (H_FN_DECL l s i c f parr ps arr ns) = (\<forall>n \<in> set ns. no_import n)"
| "no_import (H_ARRAY_LIT l s v d es) = (\<forall>(p, n) \<in> set es. no_import n)"
| "no_import (H_BLOCK l s arr ns) = (\<forall>n \<in> set ns. no_import n)"
| "no_import (H_IF_STMT l s p c q t e) = (no_import c \<and> no_import t \<and> (case e of None \<Rightarrow> True | Some (r, n) \<Rightarrow> no_import n))"
| "no_import (H_LOOP_STMT l s c x p b) = ((case c of None \<Rightarrow> True | Some (r, n) \<Rightarrow> no_import n) \<and> no_import b)"
| "no_import _ = True"

lemma free_cells_append: "free_cells_of (xs @ ys) = sbind (free_cells_of xs) (\<lambda>_. free_cells_of ys)"
proof (induction xs)
  case Nil
  show ?case by (simp only: append_Nil free_cells_of.simps sbind_sret)
qed (simp add: sbind_assoc)

lemma free_cells_one: "c_free p = free_cells_of [p]"
  by simp

lemma free_ptr_cells: "free_ptr p = free_cells_of (cells p)"
  by (simp add: free_ptr_def cells_def split: option.splits)

lemma free_cells_append_one: "sbind (free_cells_of xs) (\<lambda>_. c_free p) = free_cells_of (xs @ [p])"
  by (simp add: free_cells_append)

lemma frees_owned:
  "no_import n \<Longrightarrow> parser_ast_free_inner n = free_cells_of (owned n)"
  "(\<forall>n \<in> set ns. no_import n) \<Longrightarrow> free_inner_all ns = free_cells_of (concat (map owned ns))"
  "(\<forall>(p, n) \<in> set es. no_import n) \<Longrightarrow> free_elements es = free_cells_of (concat (map (\<lambda>(p, n). owned n @ [p]) es))"
proof (induction n and ns and es rule: parser_ast_free_inner_free_inner_all_free_elements.induct)
qed (auto simp: free_cells_append free_ptr_cells sbind_assoc split: option.splits)

lemma free_cells_result:
  "free_cells_of ps live = (if distinct ps \<and> set ps \<subseteq> live then Inr ((), live - set ps) else Inl (Undefined ''double free''))"
proof (induction ps arbitrary: live)
  case (Cons p ps)
  show ?case
  proof (cases "p \<in> live")
    case True
    have "sbind (c_free p) (\<lambda>_. free_cells_of ps) live = free_cells_of ps (live - {p})"
      using True by (simp add: c_free_def sbind_def)
    then show ?thesis using Cons.IH [of "live - {p}"] True by auto
  qed (simp add: c_free_def sbind_def)
qed simp

section \<open>Copying\<close>

text \<open>
  The state is the next unused address. An array that is grown for each element is allocated once
  here; a node copied into an array leaves the allocation it was copied from behind. The copy of a
  block has a struct of its own and the children of the original.
\<close>

definition fresh_cell :: "(cell, cell) st" where
  "fresh_cell = (\<lambda>n. Inr (n, Suc n))"

definition new_array :: "'a list \<Rightarrow> (cell, cell option) st" where
  "new_array xs = (if xs = [] then sret None else sbind fresh_cell (\<lambda>a. sret (Some a)))"

fun copy_names :: "(cell \<times> string) list \<Rightarrow> (cell, (cell \<times> string) list) st" where
  "copy_names [] = sret []"
| "copy_names ((c, x) # ps) = sbind fresh_cell (\<lambda>c'. sbind (copy_names ps) (\<lambda>ps'. sret ((c', x) # ps')))"

fun copy_content :: "heap_node \<Rightarrow> (cell, heap_node) st" and copy_all :: "heap_node list \<Rightarrow> (cell, heap_node list) st"
where
  "copy_content (H_ROOT l s arr ns) =
     sbind fresh_cell (\<lambda>s'. sbind (new_array ns) (\<lambda>arr'. sbind (copy_all ns) (\<lambda>ns'. sret (H_ROOT l s' arr' ns'))))"
| "copy_content (H_IDENTIFIER l s c x) = sbind fresh_cell (\<lambda>s'. sbind fresh_cell (\<lambda>c'. sret (H_IDENTIFIER l s' c' x)))"
| "copy_content (H_STRING l s c x) = sbind fresh_cell (\<lambda>s'. sbind fresh_cell (\<lambda>c'. sret (H_STRING l s' c' x)))"
| "copy_content (H_INT_LIT l s i) = sbind fresh_cell (\<lambda>s'. sret (H_INT_LIT l s' i))"
| "copy_content (H_BINARY_EXPR l s op p a q b) =
     sbind fresh_cell (\<lambda>s'. sbind fresh_cell (\<lambda>p'. sbind (copy_content a) (\<lambda>a'.
     sbind fresh_cell (\<lambda>q'. sbind (copy_content b) (\<lambda>b'. sret (H_BINARY_EXPR l s' op p' a' q' b'))))))"
| "copy_content (H_ASSIGNMENT l s p a q b) =
     sbind fresh_cell (\<lambda>s'. sbind fresh_cell (\<lambda>p'. sbind (copy_content a) (\<lambda>a'.
     sbind fresh_cell (\<lambda>q'. sbind (copy_content b) (\<lambda>b'. sret (H_ASSIGNMENT l s' p' a' q' b'))))))"
| "copy_content (H_EXPR_CALL l s i c f arr ns) =
     sbind fresh_cell (\<lambda>s'. sbind (new_array ns) (\<lambda>arr'. sbind (copy_all ns) (\<lambda>ns'.
     sbind fresh_cell (\<lambda>i'. sbind fresh_cell (\<lambda>c'. sret (H_EXPR_CALL l s' i' c' f arr' ns'))))))"
| "copy_content (H_VAR_DECL l s c x k None) =
     sbind fresh_cell (\<lambda>s'. sbind fresh_cell (\<lambda>c'. sret (H_VAR_DECL l s' c' x False None)))"
| "copy_content (H_VAR_DECL l s c x k (Some (p, v))) =
     sbind fresh_cell (\<lambda>s'. sbind fresh_cell (\<lambda>c'. sbind fresh_cell (\<lambda>p'. sbind (copy_content v) (\<lambda>v'.
     sret (H_VAR_DECL l s' c' x False (Some (p', v')))))))"
| "copy_content (H_FN_DECL l s i c f parr ps arr ns) =
     sbind fresh_cell (\<lambda>s'. sbind (new_array ns) (\<lambda>arr'. sbind (copy_all ns) (\<lambda>ns'.
     sbind (new_array ps) (\<lambda>parr'. sbind (copy_names ps) (\<lambda>ps'.
     sbind fresh_cell (\<lambda>i'. sbind fresh_cell (\<lambda>c'. sret (H_FN_DECL l s' i' c' f parr' ps' arr' ns'))))))))"
| "copy_content (H_BLOCK l s arr ns) = sbind fresh_cell (\<lambda>s'. sret (H_BLOCK l s' arr ns))"
| "copy_content node = sthrow (copy_not_recognized (tree_of node))"
| "copy_all [] = sret []"
| "copy_all (n # ns) =
     sbind fresh_cell (\<lambda>leaked. sbind (copy_content n) (\<lambda>n'. sbind (copy_all ns) (\<lambda>ns'. sret (n' # ns'))))"

definition copy_node :: "heap_node \<Rightarrow> (cell, cell \<times> heap_node) st" where
  "copy_node node = sbind fresh_cell (\<lambda>p. sbind (copy_content node) (\<lambda>n. sret (p, n)))"

lemma fresh_cell_apply [simp]: "fresh_cell n = Inr (n, Suc n)"
  by (simp add: fresh_cell_def)

text \<open>Without the addresses, it is the copier of theory Ast.\<close>

definition copies_to :: "'b res \<Rightarrow> ('a \<Rightarrow> 'b) \<Rightarrow> (cell, 'a) st \<Rightarrow> bool" where
  "copies_to r f m \<longleftrightarrow> (\<forall>k. map_sum id (\<lambda>(x, k'). f x) (m k) = r)"

lemma copies_sret [simp]: "copies_to r f (sret x) \<longleftrightarrow> r = Inr (f x)"
  by (auto simp: copies_to_def)

lemma copies_fresh: "(\<And>p. copies_to r f (g p)) \<Longrightarrow> copies_to r f (sbind fresh_cell g)"
  by (auto simp: copies_to_def sbind_def)

lemma copies_array: "(\<And>p. copies_to r f (g p)) \<Longrightarrow> copies_to r f (sbind (new_array xs) g)"
  by (auto simp: new_array_def sbind_assoc intro!: copies_fresh)

lemma copies_bind:
  assumes "copies_to r h m" and "\<And>x. copies_to (g (h x)) f (k x)"
  shows "copies_to (rbind r g) f (sbind m k)"
  unfolding copies_to_def
proof
  fix n
  show "map_sum id (\<lambda>(x, k'). f x) (sbind m k n) = rbind r g"
    using assms by (cases "m n") (auto simp: copies_to_def sbind_def dest: spec [of _ n])
qed

lemmas copies_tree_bind = copies_bind [where h = tree_of] copies_bind [where h = "map tree_of"]

lemma copies_throw [simp]: "copies_to r f (sthrow e) \<longleftrightarrow> r = Inl e"
  by (auto simp: copies_to_def)

lemma copies_names: "(\<And>ps'. map snd ps' = map snd ps \<Longrightarrow> copies_to r f (g ps')) \<Longrightarrow> copies_to r f (sbind (copy_names ps) g)"
proof (induction ps arbitrary: g)
  case (Cons p ps)
  show ?case
  proof (cases p)
    case (Pair c x)
    show ?thesis unfolding Pair copy_names.simps sbind_assoc
      by (rule copies_fresh, rule Cons.IH) (use Cons.prems in \<open>auto simp: Pair\<close>)
  qed
qed simp

lemma copies_tree:
  "copies_to (parser_ast_deep_copy (tree_of n)) tree_of (copy_content n)"
  "copies_to (deep_copy_list (map tree_of ns)) (map tree_of) (copy_all ns)"
proof (induction n and ns rule: copy_content_copy_all.induct)
qed (auto intro!: copies_fresh copies_array copies_tree_bind copies_names, simp_all add: copies_to_def)

section \<open>What a copy owns\<close>

text \<open>What the copy of a tree shares with it: the children of the outermost blocks.\<close>

fun shared :: "heap_node \<Rightarrow> cell list" where
  "shared (H_BLOCK l s arr ns) = concat (map owned ns) @ cells arr"
| "shared (H_ROOT l s arr ns) = concat (map shared ns)"
| "shared (H_BINARY_EXPR l s op p a q b) = shared a @ shared b"
| "shared (H_VAR_DECL l s c x k v) = (case v of None \<Rightarrow> [] | Some (p, n) \<Rightarrow> shared n)"
| "shared (H_ASSIGNMENT l s p a q b) = shared a @ shared b"
| "shared (H_EXPR_CALL l s i c f arr ns) = concat (map shared ns)"
| "shared (H_FN_DECL l s i c f parr ps arr ns) = concat (map shared ns)"
| "shared _ = []"

text \<open>
  \<open>copied k k' A B S\<close>: making the allocations \<open>B\<close> from the allocations \<open>A\<close> has used the addresses
  from \<open>k\<close> up to \<open>k'\<close>, and \<open>S\<close> are in both.
\<close>

definition copied :: "cell \<Rightarrow> cell \<Rightarrow> cell multiset \<Rightarrow> cell multiset \<Rightarrow> cell multiset \<Rightarrow> bool" where
  "copied k k' A B S \<longleftrightarrow>
     k \<le> k' \<and> S \<subseteq># A \<and> (\<exists>N. B = N + S \<and> set_mset N \<subseteq> {k..<k'} \<and> (\<forall>a. count N a \<le> 1))"

lemma copied_none: "copied k k {#} {#} {#}"
  by (simp add: copied_def)

lemma copied_shared: "copied k k S S S"
  by (simp add: copied_def)

lemma copied_append:
  assumes "copied k m A B S" and "copied m k' A' B' S'"
  shows "copied k k' (A + A') (B + B') (S + S')"
proof -
  obtain N where N: "B = N + S" "set_mset N \<subseteq> {k..<m}" "\<forall>a. count N a \<le> 1" using assms(1) by (auto simp: copied_def)
  obtain M where M: "B' = M + S'" "set_mset M \<subseteq> {m..<k'}" "\<forall>a. count M a \<le> 1" using assms(2) by (auto simp: copied_def)
  have le: "k \<le> m" "m \<le> k'" using assms by (simp_all add: copied_def)
  have "count (N + M) a \<le> 1" for a
  proof (cases "a < m")
    case True
    then have "a \<notin># M" using M(2) by auto
    then show ?thesis using N(3) by (simp add: not_in_iff)
  next
    case False
    then have "a \<notin># N" using N(2) by auto
    then show ?thesis using M(3) by (simp add: not_in_iff)
  qed
  moreover have "set_mset (N + M) \<subseteq> {k..<k'}" using N(2) M(2) le by fastforce
  moreover have "B + B' = (N + M) + (S + S')" by (simp add: N(1) M(1) ac_simps add_mset_commute)
  moreover have "S + S' \<subseteq># A + A'" using assms by (simp add: copied_def subset_mset.add_mono)
  ultimately show ?thesis using le unfolding copied_def by (meson le_trans)
qed

text \<open>An address that the copy keeps, one it leaves behind, and one that only the original has.\<close>

lemma copied_fresh: "copied (Suc k) k' A B S \<Longrightarrow> copied k k' (add_mset a A) (add_mset k B) S"
  using copied_append [of k "Suc k" "{#a#}" "{#k#}" "{#}" k' A B S] by (simp add: copied_def)

lemma copied_leak: "copied (Suc k) k' A B S \<Longrightarrow> copied k k' A B S"
  using copied_append [of k "Suc k" "{#}" "{#}" "{#}" k' A B S] by (simp add: copied_def)

lemma copied_less: "copied k k' A B S \<Longrightarrow> copied k k' (A' + A) B S"
  by (auto simp: copied_def intro: subset_mset.order_trans)

lemma copied_pair: "copied k (Suc (Suc k)) {#c, s#} {#Suc k, k#} {#}"
  using copied_fresh [OF copied_fresh [OF copied_none [of "Suc (Suc k)"], of c], of s] by (simp add: add_mset_commute)

lemma copied_array:
  assumes "new_array xs k = Inr (arr', k1)" and "copied k1 k' A B S"
  shows "copied k k' (mset (cells arr) + A) (mset (cells arr') + B) S"
proof (cases "xs = []")
  case True
  then show ?thesis using assms copied_less [OF assms(2)] by (simp add: new_array_def cells_def)
next
  case False
  then have "arr' = Some k" "k1 = Suc k" using assms(1) by (auto simp: new_array_def sbind_def)
  moreover have "copied k k' (add_mset a A) (add_mset k B) S" for a
    by (rule copied_fresh) (use assms(2) \<open>k1 = Suc k\<close> in simp)
  moreover have "copied k k' A (add_mset k B) S"
    using copied_append [of k "Suc k" "{#}" "{#k#}" "{#}" k' A B S] assms(2) \<open>k1 = Suc k\<close> by (simp add: copied_def)
  ultimately show ?thesis by (simp add: cells_def split: option.splits)
qed

lemma copied_names:
  "copy_names ps k = Inr (ps', k') \<Longrightarrow> copied k k' (mset (map fst ps)) (mset (map fst ps')) {#}"
proof (induction ps arbitrary: k ps' k')
  case (Cons p ps)
  obtain c x where p: "p = (c, x)" by (cases p)
  obtain qs where qs: "copy_names ps (Suc k) = Inr (qs, k')" "ps' = (k, x) # qs"
    using Cons.prems by (auto simp: p sbind_eq_Inr)
  show ?case using copied_fresh [OF Cons.IH [OF qs(1)], of c] by (simp add: p qs(2))
qed (simp add: copied_none)

lemma copied_content:
  "copy_content n k = Inr (n', k') \<Longrightarrow> copied k k' (mset (owned n)) (mset (owned n')) (mset (shared n))"
  "copy_all ns k = Inr (ns', k') \<Longrightarrow>
     copied k k' (mset (concat (map owned ns))) (mset (concat (map owned ns'))) (mset (concat (map shared ns)))"
proof (induction n and ns arbitrary: k n' k' and k ns' k' rule: copy_content_copy_all.induct)
  case (1 l s arr ns)
  obtain arr' k1 ns' where 2: "new_array ns (Suc k) = Inr (arr', k1)" "copy_all ns k1 = Inr (ns', k')" "n' = H_ROOT l k arr' ns'"
    using 1(2) by (auto simp: sbind_eq_Inr)
  show ?case using copied_fresh [OF copied_array [OF 2(1) 1(1) [OF 2(2)]], of s arr] by (simp add: 2(3) ac_simps add_mset_commute)
next
  case (5 l s op p a q b)
  obtain a' m b' where 2: "copy_content a (Suc (Suc k)) = Inr (a', m)" "copy_content b (Suc m) = Inr (b', k')"
    "n' = H_BINARY_EXPR l k op (Suc k) a' m b'"
    using 5(3) by (auto simp: sbind_eq_Inr)
  show ?case
    using copied_fresh [OF copied_fresh [OF copied_append [OF 5(1) [OF 2(1)] copied_fresh [OF 5(2) [OF 2(2)], of q]], of p], of s]
    by (simp add: 2(3) ac_simps add_mset_commute)
next
  case (6 l s p a q b)
  obtain a' m b' where 2: "copy_content a (Suc (Suc k)) = Inr (a', m)" "copy_content b (Suc m) = Inr (b', k')"
    "n' = H_ASSIGNMENT l k (Suc k) a' m b'"
    using 6(3) by (auto simp: sbind_eq_Inr)
  show ?case
    using copied_fresh [OF copied_fresh [OF copied_append [OF 6(1) [OF 2(1)] copied_fresh [OF 6(2) [OF 2(2)], of q]], of p], of s]
    by (simp add: 2(3) ac_simps add_mset_commute)
next
  case (7 l s i c f arr ns)
  obtain arr' k1 ns' m where 2: "new_array ns (Suc k) = Inr (arr', k1)" "copy_all ns k1 = Inr (ns', m)" "k' = Suc (Suc m)"
    "n' = H_EXPR_CALL l k m (Suc m) f arr' ns'"
    using 7(2) by (auto simp: sbind_eq_Inr)
  have "copied m k' {#i, c#} {#m, Suc m#} {#}" by (simp add: 2(3) copied_fresh copied_none)
  from copied_fresh [OF copied_array [OF 2(1) copied_append [OF 7(1) [OF 2(2)] this]], of s arr]
  show ?case by (simp add: 2(4) ac_simps add_mset_commute)
next
  case (9 l s c x kc p v)
  obtain v' where 2: "copy_content v (Suc (Suc (Suc k))) = Inr (v', k')" "n' = H_VAR_DECL l k (Suc k) x False (Some (Suc (Suc k), v'))"
    using 9(2) by (auto simp: sbind_eq_Inr)
  show ?case
    using copied_fresh [OF copied_fresh [OF copied_fresh [OF 9(1) [OF 2(1)], of p], of c], of s] by (simp add: 2(2) ac_simps add_mset_commute)
next
  case (10 l s i c f parr ps arr ns)
  obtain arr' k1 ns' k2 parr' k3 ps' m where 2: "new_array ns (Suc k) = Inr (arr', k1)" "copy_all ns k1 = Inr (ns', k2)"
    "new_array ps k2 = Inr (parr', k3)" "copy_names ps k3 = Inr (ps', m)" "k' = Suc (Suc m)"
    "n' = H_FN_DECL l k m (Suc m) f parr' ps' arr' ns'"
    using 10(2) by (auto simp: sbind_eq_Inr)
  have "copied m k' {#i, c#} {#m, Suc m#} {#}" by (simp add: 2(5) copied_fresh copied_none)
  from copied_append [OF copied_names [OF 2(4)] this]
  have "copied k3 k' (mset (map fst ps) + {#i, c#}) (mset (map fst ps') + {#m, Suc m#}) {#}" by simp
  from copied_fresh [OF copied_array [OF 2(1) copied_append [OF 10(1) [OF 2(2)] copied_array [OF 2(3) this, of parr]]], of s arr]
  show ?case by (simp add: 2(6) ac_simps add_mset_commute)
next
  case (11 l s arr ns)
  have "n' = H_BLOCK l k arr ns" "k' = Suc k" using 11 by (auto simp: sbind_eq_Inr)
  then show ?case using copied_fresh [OF copied_shared [of "Suc k" "mset (shared (H_BLOCK l s arr ns))"], of s] by (simp add: ac_simps add_mset_commute)
next
  case (14 n ns)
  obtain m n1 ns1 where 2: "copy_content n (Suc k) = Inr (n1, m)" "copy_all ns m = Inr (ns1, k')" "ns' = n1 # ns1"
    using 14(3) by (auto simp: sbind_eq_Inr)
  show ?case using copied_leak [OF copied_append [OF 14(1) [OF 2(1)] 14(2) [OF 2(2)]]] by (simp add: 2(3) ac_simps add_mset_commute)
qed (auto simp: sbind_eq_Inr intro!: copied_pair copied_fresh copied_none)

section \<open>Freeing a tree and its copy\<close>

lemma copied_no_import:
  "copy_content n k = Inr (n', k') \<Longrightarrow> no_import n \<Longrightarrow> no_import n'"
  "copy_all ns k = Inr (ns', k') \<Longrightarrow> \<forall>n \<in> set ns. no_import n \<Longrightarrow> \<forall>n \<in> set ns'. no_import n"
proof (induction n and ns arbitrary: k n' k' and k ns' k' rule: copy_content_copy_all.induct)
qed (auto simp: sbind_eq_Inr)

text \<open>A tree whose allocations are all different and live is freed as a whole.\<close>

lemma tree_freed:
  "no_import t \<Longrightarrow> distinct (owned t) \<Longrightarrow> set (owned t) \<subseteq> live \<Longrightarrow> parser_ast_free_inner t live = Inr ((), live - set (owned t))"
  by (simp add: frees_owned(1) free_cells_result)

lemma copy_owned:
  assumes "copy_content t k = Inr (t', k')" and "distinct (owned t)" and "\<forall>a \<in> set (owned t). a < k"
  shows "distinct (owned t')" and "set (owned t') \<subseteq> {k..<k'} \<union> set (shared t)" and "set (shared t) \<subseteq> set (owned t) \<inter> set (owned t')"
proof -
  have S: "mset (shared t) \<subseteq># mset (owned t)" using copied_content(1) [OF assms(1)] by (simp add: copied_def)
  obtain N where N: "mset (owned t') = N + mset (shared t)" "set_mset N \<subseteq> {k..<k'}" "\<forall>a. count N a \<le> 1"
    using copied_content(1) [OF assms(1)] by (auto simp: copied_def)
  have old: "a < k" "count (mset (shared t)) a \<le> 1" if "a \<in> set (shared t)" for a
  proof -
    have "a \<in> set (owned t)" using S that by (metis mset_subset_eqD set_mset_mset)
    then show "a < k" using assms(3) by blast
    have "count (mset (shared t)) a \<le> count (mset (owned t)) a" using S by (simp add: mset_subset_eq_count)
    also have "\<dots> \<le> 1" using assms(2) by (simp add: distinct_count_atmost_1)
    finally show "count (mset (shared t)) a \<le> 1" .
  qed
  have "count (mset (owned t')) a \<le> 1" for a
  proof (cases "a \<in> set (shared t)")
    case True
    then have "a \<notin># N" using N(2) old(1) [OF True] by auto
    then show ?thesis using old(2) [OF True] by (simp add: N(1) not_in_iff)
  next
    case False
    then have "count (mset (shared t)) a = 0" by (simp add: count_eq_zero_iff)
    then show ?thesis using N(3) [rule_format, of a] by (simp only: N(1) count_union)
  qed
  then show "distinct (owned t')"
    unfolding distinct_count_atmost_1 by (metis One_nat_def count_mset_0_iff le_antisym less_one not_less count_greater_eq_one_iff set_mset_mset)
  have sets: "set (owned t') = set_mset N \<union> set (shared t)" by (metis N(1) set_mset_mset set_mset_union)
  show "set (owned t') \<subseteq> {k..<k'} \<union> set (shared t)" using sets N(2) by auto
  show "set (shared t) \<subseteq> set (owned t) \<inter> set (owned t')" using sets S by (metis Int_greatest Un_upper2 set_mset_mono set_mset_mset)
qed

text \<open>
  C27. A tree and its copy share the children of blocks. The copy of a tree, of which function
  objects make one of their body, has the same shape, constants aside, and is made of allocations of
  its own except for the children of its blocks. Freeing the copy frees everything it owns, once.
  Freeing the original afterwards, as \<^verbatim>\<open>blaze\<close> frees the tree of the program at its end, works when
  no block with children was copied, and is otherwise a double free.
\<close>

theorem copied_block_freed_twice:
  assumes "copy_node t k = Inr ((p, t'), k')" and "no_import t" and "distinct (owned t)" and "\<forall>a \<in> set (owned t). a < k"
    and "{k..<k'} \<union> set (owned t) \<subseteq> live"
  shows "parser_ast_deep_copy (tree_of t) = Inr (tree_of t') \<and>
    (\<exists>rest. parser_ast_free (p, t') live = Inr ((), rest) \<and>
       parser_ast_free_inner t rest =
         (if shared t = [] then Inr ((), rest - set (owned t)) else Inl (Undefined ''double free'')))"
proof -
  have p: "p = k" and copy: "copy_content t (Suc k) = Inr (t', k')"
    using assms(1) by (auto simp: copy_node_def sbind_eq_Inr)
  have old: "\<forall>a \<in> set (owned t). a < Suc k" using assms(4) by (meson less_SucI)
  note own = copy_owned [OF copy assms(3) old]
  have k: "k < k'"
    using copied_content(1) [OF copy] by (simp add: copied_def)
  have new: "k \<notin> set (owned t')" using own(2,3) assms(4) by fastforce
  have "set (owned t') \<subseteq> {k..<k'} \<union> set (owned t)" using own(2,3) by fastforce
  then have live: "distinct (owned t' @ [k])" "set (owned t' @ [k]) \<subseteq> live"
    using own(1) new assms(5) k by auto
  have tree: "parser_ast_deep_copy (tree_of t) = Inr (tree_of t')"
    using copies_tree(1) [of t] copy by (auto simp: copies_to_def dest: spec [of _ "Suc k"])
  have free: "parser_ast_free (k, t') live = Inr ((), live - set (owned t' @ [k]))"
    using live by (simp add: parser_ast_free_def frees_owned(1) [OF copied_no_import(1) [OF copy assms(2)]]
        free_cells_append_one free_cells_result)
  have "parser_ast_free_inner t (live - set (owned t' @ [k])) =
      (if shared t = [] then Inr ((), live - set (owned t' @ [k]) - set (owned t)) else Inl (Undefined ''double free''))"
  proof (cases "shared t = []")
    case True
    then have "set (owned t) \<subseteq> live - set (owned t' @ [k])" using own(2) assms(4,5) by fastforce
    then show ?thesis using True tree_freed [OF assms(2,3)] by simp
  next
    case False
    then obtain x where "x \<in> set (shared t)" by (cases "shared t") auto
    then have "x \<in> set (owned t)" "x \<notin> live - set (owned t' @ [k])" using own(3) by auto
    then show ?thesis using False by (auto simp: frees_owned(1) [OF assms(2)] free_cells_result)
  qed
  then show ?thesis using tree free p by blast
qed

definition block_tree :: heap_node where
  "block_tree = H_BLOCK no_loc 1 (Some 2) [H_INT_LIT no_loc 3 7]"

lemma copied_block_freed_twice_witness:
  "\<exists>t' rest. copy_node block_tree 10 = Inr ((10, t'), 12) \<and> parser_ast_free (10, t') {..<20} = Inr ((), rest) \<and>
     parser_ast_free_inner block_tree rest = Inl (Undefined ''double free'')"
proof -
  have copy: "copy_node block_tree 10 = Inr ((10, H_BLOCK no_loc 11 (Some 2) [H_INT_LIT no_loc 3 7]), 12)"
    by (simp add: copy_node_def block_tree_def sbind_def)
  have "no_import block_tree" "distinct (owned block_tree)" "\<forall>a \<in> set (owned block_tree). a < 10"
    "{10..<12} \<union> set (owned block_tree) \<subseteq> {..<20}" "shared block_tree \<noteq> []"
    by (auto simp: block_tree_def cells_def)
  then show ?thesis using copied_block_freed_twice [OF copy] copy by auto
qed

end
