(* ===== verification/Asm.thy ===== *)
theory Asm
  imports Prelude
begin

text \<open>
  The assembly tree of the compiler (src/asm.h, src/asm.c) and its target architectures
  (src/arch.h, src/arch.c). A tree is a value here: the arrays of children and operands are lists,
  and freeing a tree has no counterpart. What the printing functions write to the file is the text
  they return.
\<close>

section \<open>Architectures\<close>

datatype blazec_arch = ARCH_ARM | ARCH_AARCH64 | ARCH_I386 | ARCH_X86_64

fun arch_to_str :: "blazec_arch \<Rightarrow> string" where
  "arch_to_str ARCH_I386 = ''i386''"
| "arch_to_str ARCH_X86_64 = ''x86_64''"
| "arch_to_str ARCH_AARCH64 = ''aarch64''"
| "arch_to_str ARCH_ARM = ''arm''"

definition arch_str_to_type :: "string \<Rightarrow> blazec_arch res" where
  "arch_str_to_type str =
     (if str = ''x86_64'' then Inr ARCH_X86_64
      else if str = ''i386'' then Inr ARCH_I386
      else if str = ''arm'' then Inr ARCH_ARM
      else if str = ''aarch64'' then Inr ARCH_AARCH64
      else Inl (Fatal_error (''invalid architecture: '' @ str)))"

section \<open>The tree\<close>

datatype asm_node_inst =
    ASM_INST_MOV | ASM_INST_LEA | ASM_INST_RET | ASM_INST_PUSH | ASM_INST_POP
  | ASM_INST_SYSCALL | ASM_INST_CALL | ASM_INST_ADD | ASM_INST_SUB

datatype asm_inst_suffix = ASM_SUF_BYTE | ASM_SUF_WORD | ASM_SUF_DWORD | ASM_SUF_QWORD | ASM_SUF_NONE

datatype asm_node_register =
    ASM_INTEL_RAX | ASM_INTEL_RCX | ASM_INTEL_RBX | ASM_INTEL_RDX | ASM_INTEL_RDI | ASM_INTEL_RSI
  | ASM_INTEL_RSP | ASM_INTEL_RBP | ASM_INTEL_R8 | ASM_INTEL_R9
  | ASM_ARM_R0 | ASM_ARM_R1 | ASM_ARM_R2 | ASM_ARM_R3
  | ASM_ARM64_X0 | ASM_ARM64_X1 | ASM_ARM64_X2 | ASM_ARM64_X3

text \<open>
  The operands. An immediate has a number and perhaps a label, which the printer prefers; the
  macros \<^verbatim>\<open>IMM64\<close> and \<^verbatim>\<open>IMM_LBL\<close> set one and leave the other zero.
\<close>

datatype asm_node_operand =
    ASM_OPERAND_IMMEDIATE int "string option"
  | ASM_OPERAND_REGISTER asm_node_register
  | ASM_OPERAND_ADDR_REG asm_node_register
  | ASM_OPERAND_ADDR_OFFSET_REG int asm_node_register
  | ASM_OPERAND_IDENTIFIER string

definition IMM64 :: "int \<Rightarrow> asm_node_operand" where
  "IMM64 imm = ASM_OPERAND_IMMEDIATE imm None"

definition IMM_LBL :: "string \<Rightarrow> asm_node_operand" where
  "IMM_LBL lbl = ASM_OPERAND_IMMEDIATE 0 (Some lbl)"

datatype asm_node =
    ASM_INSTRUCTION asm_node_inst asm_inst_suffix "asm_node_operand list"
  | ASM_INSTRUCTION_ARRAY "asm_node list"
  | ASM_LABEL string
  | ASM_ROOT "asm_node list"
  | ASM_EMPTY
  | ASM_DIRECTIVE string string

definition asm_node_empty :: asm_node where
  "asm_node_empty = ASM_EMPTY"

definition asm_create_inst_array :: asm_node where
  "asm_create_inst_array = ASM_INSTRUCTION_ARRAY []"

definition asm_create_inst_bin_op ::
  "asm_node_inst \<Rightarrow> asm_inst_suffix \<Rightarrow> asm_node_operand \<Rightarrow> asm_node_operand \<Rightarrow> asm_node" where
  "asm_create_inst_bin_op inst suffix operand1 operand2 = ASM_INSTRUCTION inst suffix [operand1, operand2]"

definition asm_create_inst_mono_op :: "asm_node_inst \<Rightarrow> asm_inst_suffix \<Rightarrow> asm_node_operand \<Rightarrow> asm_node" where
  "asm_create_inst_mono_op inst suffix operand1 = ASM_INSTRUCTION inst suffix [operand1]"

text \<open>
  Pushing a child. The children of a root and of an array share their memory in the C union, so the
  functions that push to the one also push to the other; pushing to any other node would overwrite
  its fields.
\<close>

fun asm_node_children_push :: "asm_node \<Rightarrow> asm_node \<Rightarrow> asm_node" where
  "asm_node_children_push (ASM_ROOT cs) node = ASM_ROOT (cs @ [node])"
| "asm_node_children_push (ASM_INSTRUCTION_ARRAY cs) node = ASM_INSTRUCTION_ARRAY (cs @ [node])"
| "asm_node_children_push other node = other"

definition asm_push_inst_bin_op ::
  "asm_node \<Rightarrow> asm_node_inst \<Rightarrow> asm_inst_suffix \<Rightarrow> asm_node_operand \<Rightarrow> asm_node_operand \<Rightarrow> asm_node" where
  "asm_push_inst_bin_op target inst suffix operand1 operand2 =
     asm_node_children_push target (asm_create_inst_bin_op inst suffix operand1 operand2)"

definition asm_push_inst_mono_op :: "asm_node \<Rightarrow> asm_node_inst \<Rightarrow> asm_inst_suffix \<Rightarrow> asm_node_operand \<Rightarrow> asm_node" where
  "asm_push_inst_mono_op target inst suffix operand1 =
     asm_node_children_push target (asm_create_inst_mono_op inst suffix operand1)"

definition asm_push_inst_no_op :: "asm_node \<Rightarrow> asm_node_inst \<Rightarrow> asm_inst_suffix \<Rightarrow> asm_node" where
  "asm_push_inst_no_op target inst suffix = asm_node_children_push target (ASM_INSTRUCTION inst suffix [])"

section \<open>The data section\<close>

record asm_data_lbl =
  data_label :: string
  data_directive :: string
  data_param :: string

record compilation_context =
  asm_data :: "asm_data_lbl list"
  ctx_arch :: blazec_arch
  lbl_count :: u64

definition asm_data_push :: "string \<Rightarrow> string \<Rightarrow> string \<Rightarrow> (compilation_context, unit) st" where
  "asm_data_push lbl directive param =
     smod (\<lambda>ctx. ctx\<lparr> asm_data := asm_data ctx @ [\<lparr> data_label = lbl, data_directive = directive, data_param = param \<rparr>] \<rparr>)"

section \<open>Printing\<close>

fun inst_name :: "asm_node_inst \<Rightarrow> string" where
  "inst_name ASM_INST_ADD = ''add''"
| "inst_name ASM_INST_SUB = ''sub''"
| "inst_name ASM_INST_MOV = ''mov''"
| "inst_name ASM_INST_LEA = ''lea''"
| "inst_name ASM_INST_CALL = ''call''"
| "inst_name ASM_INST_PUSH = ''push''"
| "inst_name ASM_INST_POP = ''pop''"
| "inst_name ASM_INST_RET = ''ret''"
| "inst_name ASM_INST_SYSCALL = ''syscall''"

text \<open>The suffix is a character; \<^verbatim>\<open>ASM_SUF_NONE\<close> is NUL and ends the string.\<close>

fun suffix_char :: "asm_inst_suffix \<Rightarrow> char" where
  "suffix_char ASM_SUF_BYTE = CHR ''b''"
| "suffix_char ASM_SUF_WORD = CHR ''w''"
| "suffix_char ASM_SUF_DWORD = CHR ''l''"
| "suffix_char ASM_SUF_QWORD = CHR ''q''"
| "suffix_char ASM_SUF_NONE = CHR 0x00"

definition asm_inst_to_str :: "asm_node_inst \<Rightarrow> asm_inst_suffix \<Rightarrow> string" where
  "asm_inst_to_str inst suffix = c_string (inst_name inst @ [suffix_char suffix])"

fun asm_register_to_string :: "asm_node_register \<Rightarrow> string option" where
  "asm_register_to_string ASM_INTEL_RAX = Some ''rax''"
| "asm_register_to_string ASM_INTEL_RCX = Some ''rcx''"
| "asm_register_to_string ASM_INTEL_RBX = Some ''rbx''"
| "asm_register_to_string ASM_INTEL_RDX = Some ''rdx''"
| "asm_register_to_string ASM_INTEL_RDI = Some ''rdi''"
| "asm_register_to_string ASM_INTEL_RSI = Some ''rsi''"
| "asm_register_to_string ASM_INTEL_RSP = Some ''rsp''"
| "asm_register_to_string ASM_INTEL_RBP = Some ''rbp''"
| "asm_register_to_string ASM_INTEL_R8 = Some ''r8''"
| "asm_register_to_string ASM_INTEL_R9 = Some ''r9''"
| "asm_register_to_string ASM_ARM64_X0 = Some ''x0''"
| "asm_register_to_string ASM_ARM64_X1 = Some ''x1''"
| "asm_register_to_string ASM_ARM64_X2 = Some ''x2''"
| "asm_register_to_string ASM_ARM64_X3 = Some ''x3''"
| "asm_register_to_string ASM_ARM_R0 = Some ''r0''"
| "asm_register_to_string ASM_ARM_R1 = Some ''r1''"
| "asm_register_to_string ASM_ARM_R2 = Some ''r2''"
| "asm_register_to_string ASM_ARM_R3 = Some ''r3''"

definition is_intel :: "blazec_arch \<Rightarrow> bool" where
  "is_intel arch \<longleftrightarrow> arch = ARCH_X86_64 \<or> arch = ARCH_I386"

definition register_text :: "blazec_arch \<Rightarrow> asm_node_register \<Rightarrow> string" where
  "register_text arch r = (if is_intel arch then ''%'' else '''') @ the (asm_register_to_string r)"

fun asm_operand_print :: "blazec_arch \<Rightarrow> asm_node_operand \<Rightarrow> string" where
  "asm_operand_print arch (ASM_OPERAND_IMMEDIATE imm lbl) =
     (if is_intel arch then ''$'' else '''') @ (case lbl of Some l \<Rightarrow> l | None \<Rightarrow> fmt_d imm)"
| "asm_operand_print arch (ASM_OPERAND_IDENTIFIER identifier) = identifier"
| "asm_operand_print arch (ASM_OPERAND_REGISTER r) = register_text arch r"
| "asm_operand_print arch (ASM_OPERAND_ADDR_REG r) = ''('' @ register_text arch r @ '')''"
| "asm_operand_print arch (ASM_OPERAND_ADDR_OFFSET_REG offset r) =
     (if offset = 0 then '''' else fmt_d offset) @ ''('' @ register_text arch r @ '')''"

fun print_operands :: "blazec_arch \<Rightarrow> asm_node_operand list \<Rightarrow> string" where
  "print_operands arch [] = []"
| "print_operands arch [operand] = asm_operand_print arch operand"
| "print_operands arch (operand # rest) = asm_operand_print arch operand @ '', '' @ print_operands arch rest"

text \<open>On Linux with ELF the root ends with the note about the stack.\<close>

definition stack_note :: string where
  "stack_note = [newline] @ ''.section .note.GNU-stack,'' @ [CHR 0x22, CHR 0x22] @ '',%progbits'' @ [newline, newline]"

fun asm_print :: "blazec_arch \<Rightarrow> asm_node \<Rightarrow> string" where
  "asm_print arch (ASM_ROOT cs) =
     (if cs = [] then '''' else ''.text'' @ [newline]) @ concat (map (asm_print arch) cs) @ stack_note"
| "asm_print arch ASM_EMPTY = ''''"
| "asm_print arch (ASM_INSTRUCTION_ARRAY cs) = concat (map (asm_print arch) cs)"
| "asm_print arch (ASM_LABEL name) = name @ '':'' @ [newline]"
| "asm_print arch (ASM_DIRECTIVE name params) = ''.'' @ name @ '' '' @ params @ [newline]"
| "asm_print arch (ASM_INSTRUCTION inst suffix operands) =
     ''    '' @ asm_inst_to_str inst suffix @ ''    '' @ print_operands arch operands @ [newline]"

definition asm_print_header :: "asm_data_lbl list \<Rightarrow> string" where
  "asm_print_header data =
     (if data = [] then '''' else ''.data'' @ [newline]) @
     concat (map (\<lambda>d. data_label d @ '':'' @ [newline] @ ''    .'' @ data_directive d @ '' '' @ data_param d @ [newline]) data)"

end
