(* ===== verification/Compile_X86.thy ===== *)
theory Compile_X86
  imports Asm Parser
begin

text \<open>
  The code generator for x86-64 (src/compile-x86\_64.c, src/compile.c, src/compile.h). A program is
  a sequence of calls of \<^verbatim>\<open>println\<close> with literals; everything else is rejected.
\<close>

section \<open>The built-in functions\<close>

record builtin_function_def =
  bf_name :: string
  bf_actual_name :: string
  bf_variadic :: bool

definition builtin_function_defs :: "builtin_function_def list" where
  "builtin_function_defs = [\<lparr> bf_name = ''println'', bf_actual_name = ''libblaze_fn_println'', bf_variadic = True \<rparr>]"

definition compilation_context_create :: "blazec_arch \<Rightarrow> compilation_context" where
  "compilation_context_create arch = \<lparr> asm_data = [], ctx_arch = arch, lbl_count = 0 \<rparr>"

section \<open>Literals\<close>

text \<open>The text of a string literal for the assembler: only the double quote is escaped.\<close>

fun escape_quotes :: "string \<Rightarrow> string" where
  "escape_quotes [] = []"
| "escape_quotes (c # cs) = (if c = CHR 0x22 then [CHR 0x5C, c] else [c]) @ escape_quotes cs"

definition string_param :: "string \<Rightarrow> string" where
  "string_param s = [CHR 0x22] @ escape_quotes s @ [CHR 0x22]"

definition new_label :: "(compilation_context, string) st" where
  "new_label =
     sbind (sget lbl_count) (\<lambda>n.
     sbind (smod (\<lambda>ctx. ctx\<lparr> lbl_count := n + 1 \<rparr>)) (\<lambda>_.
     sret (''.DL'' @ digits 10 (unat n))))"

definition x86_64_compile_expr :: "ast_node \<Rightarrow> (compilation_context, asm_node) st" where
  "x86_64_compile_expr node =
     (let asm_node = asm_create_inst_array in
      case node of
        NODE_INT_LIT l i \<Rightarrow>
          let asm_node = asm_push_inst_bin_op asm_node ASM_INST_MOV ASM_SUF_QWORD (IMM64 i) (ASM_OPERAND_REGISTER ASM_INTEL_RDI);
              asm_node = asm_push_inst_mono_op asm_node ASM_INST_CALL ASM_SUF_QWORD (ASM_OPERAND_IDENTIFIER ''libblaze_val_create_intval'')
          in sret asm_node
      | NODE_STRING l s \<Rightarrow>
          sbind new_label (\<lambda>label.
          sbind (asm_data_push label ''string'' (string_param (c_string s))) (\<lambda>_.
          let asm_node = asm_push_inst_bin_op asm_node ASM_INST_MOV ASM_SUF_QWORD (IMM_LBL label) (ASM_OPERAND_REGISTER ASM_INTEL_RDI);
              asm_node = asm_push_inst_mono_op asm_node ASM_INST_CALL ASM_SUF_QWORD (ASM_OPERAND_IDENTIFIER ''libblaze_val_create_strval'')
          in sret asm_node))
      | _ \<Rightarrow> sthrow (Fatal_error ''complex expressions aren't supported yet''))"

section \<open>Calls\<close>

fun argument_register :: "nat \<Rightarrow> asm_node_register" where
  "argument_register i =
     (if i = 0 then ASM_INTEL_RDI
      else if i = 1 then ASM_INTEL_RSI
      else if i = 2 then ASM_INTEL_RDX
      else if i = 3 then ASM_INTEL_RCX
      else if i = 4 then ASM_INTEL_R8
      else ASM_INTEL_R9)"

text \<open>The loop from \<open>i\<close> on, of which \<open>k\<close> rounds are left.\<close>

fun x86_64_compile_call_expr_args_load :: "nat \<Rightarrow> nat \<Rightarrow> asm_node \<Rightarrow> asm_node" where
  "x86_64_compile_call_expr_args_load i 0 asm_node = asm_node"
| "x86_64_compile_call_expr_args_load i (Suc k) asm_node =
     x86_64_compile_call_expr_args_load (Suc i) k
       (if i \<le> 5
        then asm_push_inst_bin_op asm_node ASM_INST_MOV ASM_SUF_QWORD
               (ASM_OPERAND_ADDR_OFFSET_REG (- 8 * (int i + 1)) ASM_INTEL_RBP) (ASM_OPERAND_REGISTER (argument_register i))
        else asm_node)"

text \<open>
  The result is the code and the number of arguments beyond the sixth, which stay on the stack;
  \<open>c\<close> counts the words pushed.
\<close>

fun compile_args :: "ast_node list \<Rightarrow> nat \<Rightarrow> asm_node \<Rightarrow> nat \<Rightarrow> (compilation_context, asm_node \<times> nat) st" where
  "compile_args [] c asm_node stack_argc = sret (asm_node, stack_argc)"
| "compile_args (arg # args) c asm_node stack_argc =
     sbind (x86_64_compile_expr arg) (\<lambda>instructions.
     compile_args args (Suc c)
       (asm_push_inst_mono_op (asm_node_children_push asm_node instructions) ASM_INST_PUSH ASM_SUF_QWORD (ASM_OPERAND_REGISTER ASM_INTEL_RAX))
       (if c > 5 then Suc stack_argc else stack_argc))"

definition x86_64_compile_call_expr_args :: "ast_node list \<Rightarrow> asm_node \<Rightarrow> bool \<Rightarrow> (compilation_context, asm_node \<times> nat) st" where
  "x86_64_compile_call_expr_args args asm_node variadic =
     (let asm_node =
        (if variadic
         then asm_push_inst_mono_op
                (asm_push_inst_bin_op asm_node ASM_INST_MOV ASM_SUF_QWORD (IMM64 (int (length args))) (ASM_OPERAND_REGISTER ASM_INTEL_RDI))
                ASM_INST_PUSH ASM_SUF_QWORD (ASM_OPERAND_REGISTER ASM_INTEL_RDI)
         else asm_node)
      in compile_args args (if variadic then 1 else 0) asm_node 0)"

fun free_values :: "nat \<Rightarrow> asm_node \<Rightarrow> asm_node" where
  "free_values 0 asm_node = asm_node"
| "free_values (Suc k) asm_node =
     free_values k
       (asm_push_inst_mono_op
          (asm_push_inst_mono_op asm_node ASM_INST_POP ASM_SUF_QWORD (ASM_OPERAND_REGISTER ASM_INTEL_RDI))
          ASM_INST_CALL ASM_SUF_QWORD (ASM_OPERAND_IDENTIFIER ''libblaze_val_free''))"

definition x86_64_compile_call_expr_free_values :: "asm_node \<Rightarrow> nat \<Rightarrow> bool \<Rightarrow> asm_node" where
  "x86_64_compile_call_expr_free_values asm_node argc variadic =
     (let asm_node = free_values (argc - (if variadic then 1 else 0)) asm_node in
      if variadic then asm_push_inst_bin_op asm_node ASM_INST_ADD ASM_SUF_QWORD (IMM64 8) (ASM_OPERAND_REGISTER ASM_INTEL_RSP)
      else asm_node)"

text \<open>
  A call calls \<^verbatim>\<open>builtin_function_defs->actual_name\<close>, the first entry, whatever entry was found.
\<close>

definition x86_64_compile_call_expr :: "string \<Rightarrow> ast_node list \<Rightarrow> (compilation_context, asm_node) st" where
  "x86_64_compile_call_expr symbol args =
     sbind (sassert (length args < 3) ''node->fn_call->argc < 3'') (\<lambda>_.
     let argc = length args; asm_node = asm_create_inst_array in
     case find (\<lambda>d. bf_name d = symbol) builtin_function_defs of
       None \<Rightarrow> sthrow (Fatal_error (''call to undefined function '' @ quoted (symbol @ ''()'')))
     | Some d \<Rightarrow>
         sbind (x86_64_compile_call_expr_args args asm_node (bf_variadic d)) (\<lambda>(asm_node, stack_args).
         let asm_node = x86_64_compile_call_expr_args_load 0 (argc + 1) asm_node;
             asm_node = asm_push_inst_mono_op asm_node ASM_INST_CALL ASM_SUF_QWORD
                          (ASM_OPERAND_IDENTIFIER (bf_actual_name (hd builtin_function_defs)));
             asm_node = x86_64_compile_call_expr_free_values asm_node (argc + 1) (bf_variadic d)
         in sret (if stack_args > 0
                  then asm_push_inst_bin_op asm_node ASM_INST_ADD ASM_SUF_QWORD (IMM64 (8 * int stack_args)) (ASM_OPERAND_REGISTER ASM_INTEL_RSP)
                  else asm_node)))"

section \<open>The program\<close>

definition x86_64_compile_root_start :: "asm_node \<Rightarrow> asm_node" where
  "x86_64_compile_root_start asm_node =
     (let asm_node = asm_node_children_push asm_node (ASM_DIRECTIVE ''globl'' ''_start'');
          asm_node = asm_node_children_push asm_node (ASM_LABEL ''_start'');
          asm_node = asm_push_inst_mono_op asm_node ASM_INST_CALL ASM_SUF_QWORD (ASM_OPERAND_IDENTIFIER ''main'');
          asm_node = asm_push_inst_bin_op asm_node ASM_INST_MOV ASM_SUF_QWORD (IMM64 0) (ASM_OPERAND_REGISTER ASM_INTEL_RDI)
      in asm_push_inst_mono_op asm_node ASM_INST_CALL ASM_SUF_QWORD (ASM_OPERAND_IDENTIFIER ''exit''))"

definition x86_64_setup_frame :: "asm_node \<Rightarrow> asm_node" where
  "x86_64_setup_frame asm_node =
     asm_push_inst_bin_op
       (asm_push_inst_mono_op asm_node ASM_INST_PUSH ASM_SUF_QWORD (ASM_OPERAND_REGISTER ASM_INTEL_RBP))
       ASM_INST_MOV ASM_SUF_QWORD (ASM_OPERAND_REGISTER ASM_INTEL_RSP) (ASM_OPERAND_REGISTER ASM_INTEL_RBP)"

definition x86_64_restore_frame :: "asm_node \<Rightarrow> asm_node" where
  "x86_64_restore_frame asm_node =
     asm_push_inst_mono_op asm_node ASM_INST_POP ASM_SUF_QWORD (ASM_OPERAND_REGISTER ASM_INTEL_RBP)"

text \<open>
  The parser makes no root below the root; for one, \<^verbatim>\<open>x86_64_compile\<close> would call
  \<^verbatim>\<open>x86_64_compile_root\<close> again.
\<close>

fun compile_nodes :: "(ast_node \<Rightarrow> (compilation_context, asm_node) st) \<Rightarrow> ast_node list \<Rightarrow> asm_node \<Rightarrow> (compilation_context, asm_node) st" where
  "compile_nodes gen [] asm_node = sret asm_node"
| "compile_nodes gen (node # nodes) asm_node =
     sbind (gen node) (\<lambda>ret.
     compile_nodes gen nodes (if ret \<noteq> ASM_EMPTY then asm_node_children_push asm_node ret else asm_node))"

lemma compile_nodes_cong [fundef_cong]:
  assumes "nodes = nodes'" and "\<And>x. x \<in> set nodes' \<Longrightarrow> gen x = gen' x"
  shows "compile_nodes gen nodes = compile_nodes gen' nodes'"
proof
  fix t
  have "compile_nodes gen nodes' t = compile_nodes gen' nodes' t"
    using assms(2) by (induction nodes' arbitrary: t) auto
  then show "compile_nodes gen nodes t = compile_nodes gen' nodes' t" using assms(1) by simp
qed

definition x86_64_compile_root :: "(asm_node \<Rightarrow> (compilation_context, asm_node) st) \<Rightarrow> (compilation_context, asm_node) st" where
  "x86_64_compile_root nodes =
     (let asm_node = x86_64_compile_root_start (ASM_ROOT []);
          asm_node = asm_node_children_push asm_node (ASM_LABEL ''main'');
          asm_node = x86_64_setup_frame asm_node
      in sbind (nodes asm_node) (\<lambda>asm_node.
         let asm_node = x86_64_restore_frame asm_node
         in sret (asm_push_inst_no_op asm_node ASM_INST_RET ASM_SUF_QWORD)))"

fun x86_64_compile :: "ast_node \<Rightarrow> (compilation_context, asm_node) st" where
  "x86_64_compile (NODE_ROOT l nodes) = x86_64_compile_root (compile_nodes x86_64_compile nodes)"
| "x86_64_compile (NODE_EXPR_CALL l f args) = x86_64_compile_call_expr f args"
| "x86_64_compile _ = sthrow (Fatal_error ''invalid or unsupported AST type'')"

definition compile :: "ast_node \<Rightarrow> (compilation_context, asm_node) st" where
  "compile node =
     sbind (sget ctx_arch) (\<lambda>arch.
     if arch = ARCH_X86_64 then x86_64_compile node
     else sthrow (Fatal_error (''unsupported architecture: '' @ arch_to_str arch)))"

end
