(* ===== verification/Blazec.thy ===== *)
theory Blazec
  imports Compile_X86
begin

text \<open>
  The driver of the compiler (src/blazec.c). What \<^verbatim>\<open>getopt_long\<close> returns, the content of a file
  and the default architecture come from outside, and so does what the assembler and the linker
  report.
\<close>

section \<open>Options\<close>

datatype blazec_generation_mode = GEN_ASM | GEN_OBJ | GEN_LINK_EXEC | GEN_ASM_STDOUT

record blazec_context =
  ctx_outfile :: "string option"
  ctx_infile :: "string option"
  ctx_mode :: blazec_generation_mode
  ctx_target :: "blazec_arch option"

fun blazec_generation_mode_to_str :: "blazec_generation_mode \<Rightarrow> string" where
  "blazec_generation_mode_to_str GEN_ASM = ''ASM''"
| "blazec_generation_mode_to_str GEN_LINK_EXEC = ''EXECUTABLE''"
| "blazec_generation_mode_to_str GEN_OBJ = ''OBJECT''"
| "blazec_generation_mode_to_str GEN_ASM_STDOUT = ''ASM_TO_STDOUT''"

text \<open>One result of \<^verbatim>\<open>getopt_long\<close>: the character, \<^verbatim>\<open>optarg\<close>, and \<^verbatim>\<open>argv[optind - 1]\<close>.\<close>

record option_result =
  opt_char :: char
  opt_arg :: string
  opt_text :: string

fun blazec_process_options :: "option_result list \<Rightarrow> blazec_context \<Rightarrow> blazec_context res" where
  "blazec_process_options [] context = Inr context"
| "blazec_process_options (r # rs) context =
     rbind (if opt_char r = CHR ''o'' then Inr (context\<lparr> ctx_outfile := Some (opt_arg r) \<rparr>)
            else if opt_char r = CHR ''a'' then rbind (arch_str_to_type (opt_arg r)) (\<lambda>arch. Inr (context\<lparr> ctx_target := Some arch \<rparr>))
            else if opt_char r = CHR ''S'' then Inr (context\<lparr> ctx_mode := GEN_ASM \<rparr>)
            else if opt_char r = CHR ''G'' then Inr (context\<lparr> ctx_mode := GEN_ASM_STDOUT \<rparr>)
            else if opt_char r = CHR ''c'' then Inr (context\<lparr> ctx_mode := GEN_OBJ \<rparr>)
            else if opt_char r = CHR ''x'' then Inr (context\<lparr> ctx_mode := GEN_LINK_EXEC \<rparr>)
            else if opt_char r = CHR '':'' then Inl (Fatal_error (''option '' @ quoted (opt_text r) @ '' requires an argument''))
            else if opt_char r = CHR ''?'' then Inl (Fatal_error (''Invalid option: '' @ quoted (opt_text r)))
            else Inl (Fatal_error ''invalid option code'')) (\<lambda>context.
     blazec_process_options rs context)"

section \<open>The name of the output\<close>

text \<open>The last component of a path, as POSIX \<^verbatim>\<open>basename\<close> gives it.\<close>

definition base_name :: "string \<Rightarrow> string" where
  "base_name path =
     (let trimmed = rev (dropWhile (\<lambda>c. c = CHR ''/'') (rev path)) in
      if path = [] then ''.''
      else if trimmed = [] then ''/''
      else rev (takeWhile (\<lambda>c. c \<noteq> CHR ''/'') (rev trimmed)))"

definition blazec_determine_outfile_name :: "string \<Rightarrow> blazec_generation_mode \<Rightarrow> string" where
  "blazec_determine_outfile_name infile mode =
     (let len = length infile;
          index = (if len = 0 then 0 else len - 1);
          ext_changed = (index \<ge> 3 \<and> infile ! index = CHR ''l'' \<and> infile ! (index - 1) = CHR ''b'' \<and> infile ! (index - 2) = CHR ''.'');
          outfile = (if ext_changed then take (index - (if mode = GEN_LINK_EXEC then 2 else 1)) infile else infile)
      in if \<not> ext_changed \<and> mode = GEN_LINK_EXEC then ''a.out''
         else outfile @ (if ext_changed then '''' else ''.'')
           @ (if mode = GEN_LINK_EXEC then '''' else if mode = GEN_OBJ then ''o'' else if mode = GEN_ASM then ''s'' else ''out''))"

section \<open>Compiling a file\<close>

definition blazec_write_assembly :: "compilation_context \<Rightarrow> asm_node \<Rightarrow> string" where
  "blazec_write_assembly ctx node = asm_print_header (asm_data ctx) @ asm_print (ctx_arch ctx) node"

text \<open>What is made: a file or the standard output, and the assembly it comes from.\<close>

datatype product =
    Assembly_file string string
  | Object_file string string
  | Executable_file string string
  | Assembly_to_stdout string

text \<open>
  The assembler and the linker are processes: what \<^verbatim>\<open>wait\<close> says of the one that was started for
  a text, or nothing if \<^verbatim>\<open>fork\<close> failed, and then the text for \<^verbatim>\<open>errno\<close>. Temporary files are
  their content. The model is of the branch for POSIX.
\<close>

record toolchain =
  tc_assembler :: "string \<Rightarrow> int option"
  tc_linker :: "string \<Rightarrow> int option"
  tc_errno_text :: string

definition run_tool :: "toolchain \<Rightarrow> string \<Rightarrow> int option \<Rightarrow> 'a \<Rightarrow> 'a res" where
  "run_tool tc failed status result =
     (case status of
        None \<Rightarrow> Inl (Fatal_error (''could not create new process: '' @ tc_errno_text tc))
      | Some code \<Rightarrow>
          if code \<noteq> 0 then Inl (Fatal_error (failed @ '' failed with exit code '' @ fmt_d code @ [newline])) else Inr result)"

definition blazec_write_assembly_file :: "compilation_context \<Rightarrow> asm_node \<Rightarrow> string \<Rightarrow> product" where
  "blazec_write_assembly_file ctx node filename = Assembly_file filename (blazec_write_assembly ctx node)"

definition blazec_write_object_file :: "toolchain \<Rightarrow> compilation_context \<Rightarrow> asm_node \<Rightarrow> string \<Rightarrow> product res" where
  "blazec_write_object_file tc ctx node filename =
     (let text = blazec_write_assembly ctx node in
      run_tool tc ''assembler'' (tc_assembler tc text) (Object_file filename text))"

definition blazec_write_executable_file :: "toolchain \<Rightarrow> compilation_context \<Rightarrow> asm_node \<Rightarrow> string \<Rightarrow> product res" where
  "blazec_write_executable_file tc ctx node filename =
     (let text = blazec_write_assembly ctx node in
      rbind (blazec_write_object_file tc ctx node ''/tmp/blazec-compiled-obj-XXXXXX'') (\<lambda>_.
      run_tool tc ''ld'' (tc_linker tc text) (Executable_file filename text)))"

definition blazec_compile_file :: "toolchain \<Rightarrow> blazec_arch \<Rightarrow> blazec_generation_mode \<Rightarrow> string \<Rightarrow> string \<Rightarrow> string \<Rightarrow> product res" where
  "blazec_compile_file tc arch mode infile content outfile =
     rbind (parse_source infile content) (\<lambda>node.
     rbind (compile node (compilation_context_create arch)) (\<lambda>(asm_node, ctx).
     case mode of
       GEN_ASM \<Rightarrow> Inr (blazec_write_assembly_file ctx asm_node outfile)
     | GEN_OBJ \<Rightarrow> blazec_write_object_file tc ctx asm_node outfile
     | GEN_LINK_EXEC \<Rightarrow> blazec_write_executable_file tc ctx asm_node outfile
     | GEN_ASM_STDOUT \<Rightarrow> Inr (Assembly_to_stdout (blazec_write_assembly ctx asm_node))))"

text \<open>\<^verbatim>\<open>main\<close>: the options, the arguments after them, the files that can be read.\<close>

definition blazec :: "toolchain \<Rightarrow> blazec_arch \<Rightarrow> (string \<Rightarrow> string res) \<Rightarrow> option_result list \<Rightarrow> string list \<Rightarrow> product res" where
  "blazec tc default_arch read_file options operands =
     rbind (blazec_process_options options \<lparr> ctx_outfile = None, ctx_infile = None, ctx_mode = GEN_LINK_EXEC, ctx_target = None \<rparr>) (\<lambda>context.
     case operands of
       [] \<Rightarrow> Inl (Fatal_error ''no input files'')
     | infile # _ \<Rightarrow>
         let outfile = (case ctx_outfile context of Some f \<Rightarrow> f | None \<Rightarrow> blazec_determine_outfile_name (base_name infile) (ctx_mode context));
             arch = (case ctx_target context of Some a \<Rightarrow> a | None \<Rightarrow> default_arch)
         in rbind (read_file infile) (\<lambda>content. blazec_compile_file tc arch (ctx_mode context) infile content outfile))"

text \<open>
  C25. The name of the output, when none is given: a source \<^verbatim>\<open>name.bl\<close> is compiled to
  \<^verbatim>\<open>name\<close>, \<^verbatim>\<open>name.o\<close> or \<^verbatim>\<open>name.s\<close>; any other name, \<^verbatim>\<open>.bl\<close> itself included, keeps its
  characters and gets the extension, except that an executable is then called \<^verbatim>\<open>a.out\<close>.
\<close>

theorem outfile_name:
  "blazec_determine_outfile_name infile mode =
     (case mode of GEN_LINK_EXEC \<Rightarrow> (if \<exists>name. name \<noteq> [] \<and> infile = name @ ''.bl'' then take (length infile - 3) infile else ''a.out'')
      | _ \<Rightarrow> (if \<exists>name. name \<noteq> [] \<and> infile = name @ ''.bl'' then take (length infile - 3) infile else infile)
          @ (case mode of GEN_OBJ \<Rightarrow> ''.o'' | GEN_ASM \<Rightarrow> ''.s'' | _ \<Rightarrow> ''.out''))"
proof (cases "length infile \<le> 3")
  case True
  then have "\<not> (\<exists>name. name \<noteq> [] \<and> infile = name @ ''.bl'')" by (auto simp: Suc_le_eq)
  moreover have "\<not> 3 \<le> length infile - 1" using True by simp
  ultimately show ?thesis
    unfolding blazec_determine_outfile_name_def Let_def by (cases mode) (auto split: if_splits)
next
  case False
  define name where "name = take (length infile - 3) infile"
  have "length (drop (length infile - 3) infile) = 3" using False by simp
  then obtain x y z where "drop (length infile - 3) infile = [x, y, z]"
    by (auto simp: length_Suc_conv numeral_3_eq_3 simp del: length_drop)
  then have infile: "infile = name @ [x, y, z]" unfolding name_def by (metis append_take_drop_id)
  have name: "name \<noteq> []" using False infile by auto
  have ext: "(\<exists>name'. name' \<noteq> [] \<and> infile = name' @ ''.bl'') \<longleftrightarrow> x = CHR ''.'' \<and> y = CHR ''b'' \<and> z = CHR ''l''"
    using name by (auto simp: infile)
  have nth: "infile ! (length infile - 1) = z" "infile ! (length infile - 1 - 1) = y" "infile ! (length infile - 1 - 2) = x"
    "3 \<le> length infile - 1" "length infile - 3 = length name" "length infile - 1 - 1 = Suc (length name)" "length infile - 1 - 2 = length name"
    using name by (auto simp: infile nth_append Suc_le_eq)
  have take: "take (length name) infile = name" "take (Suc (length name)) infile = name @ [x]" by (simp_all add: infile)
  show ?thesis
    unfolding blazec_determine_outfile_name_def Let_def ext
    using False nth take by (cases mode) (auto simp del: One_nat_def)
qed

end
