(* ===== verification/X86_Machine.thy ===== *)
theory X86_Machine
  imports Asm Print_Lib
begin

text \<open>
  What compiled programs run on: the run-time library (lib/value.c), and a machine for the
  instructions that the compiler emits. The machine is the specification against which the
  compiler is verified: 64-bit registers, a stack of 8-byte words, and calls of the library by the
  System V conventions, after which the other caller-saved registers and the memory below the
  stack pointer hold anything.
\<close>

section \<open>The run-time library\<close>

text \<open>A value of the library: a string of its own, or an integer.\<close>

datatype rt_value = RT_STRING string | RT_INTEGER int

definition libblaze_val_create_strval :: "string \<Rightarrow> rt_value" where
  "libblaze_val_create_strval str = RT_STRING (c_string str)"

definition libblaze_val_create_intval :: "u64 \<Rightarrow> rt_value" where
  "libblaze_val_create_intval v = RT_INTEGER (sint v)"

text \<open>
  \<^verbatim>\<open>libblaze_fn_println\<close>: a string is written as it is, anything else by \<^verbatim>\<open>print_val\<close> (lib/print.c),
  which ends the line itself; then the line is not ended again. Strings go through
  \<^verbatim>\<open>x86_64_libblaze_putstr\<close>, a system call for each character (lib/x86\_64/stdio\_linux.s), and what
  \<^verbatim>\<open>print_val\<close> writes goes into the buffer of \<^verbatim>\<open>stdout\<close>: the two kinds of writes are kept apart.
\<close>

datatype rt_write = SYS_WRITE string | STDIO string

definition rt_print_val :: "int \<Rightarrow> string" where
  "rt_print_val i = esc ''1;33'' @ fmt_d i @ esc ''0'' @ [newline]"

fun println_loop :: "rt_value list \<Rightarrow> bool \<Rightarrow> rt_write list \<times> bool" where
  "println_loop [] nl = ([], nl)"
| "println_loop (v # vs) nl =
     (let (text, nl') = (case v of RT_STRING s \<Rightarrow> (SYS_WRITE s, nl) | RT_INTEGER i \<Rightarrow> (STDIO (rt_print_val i), False));
          (rest, nl'') = println_loop vs nl'
      in (text # (if vs \<noteq> [] then [SYS_WRITE '' ''] else []) @ rest, nl''))"

definition libblaze_fn_println :: "rt_value list \<Rightarrow> rt_write list" where
  "libblaze_fn_println args = (let (texts, nl) = println_loop args True in texts @ (if nl then [SYS_WRITE [newline]] else []))"

text \<open>
  What reaches the standard output, with \<open>buf\<close> in the buffer of \<^verbatim>\<open>stdout\<close>. \<open>flush\<close> says when the
  buffer is written: at the end of a line on a terminal, and only when it is full or at the end of
  the program otherwise.
\<close>

fun shown_output :: "(string \<Rightarrow> bool) \<Rightarrow> string \<Rightarrow> rt_write list \<Rightarrow> string" where
  "shown_output flush buf [] = buf"
| "shown_output flush buf (SYS_WRITE s # ws) = s @ shown_output flush buf ws"
| "shown_output flush buf (STDIO s # ws) =
     (if flush (buf @ s) then buf @ s @ shown_output flush [] ws else shown_output flush (buf @ s) ws)"

definition on_terminal :: "rt_write list \<Rightarrow> string" where
  "on_terminal = shown_output (\<lambda>buf. buf \<noteq> [] \<and> last buf = newline) []"

definition redirected :: "rt_write list \<Rightarrow> string" where
  "redirected = shown_output (\<lambda>buf. False) []"

text \<open>\<open>rt_print_val\<close> is what the printing of values, as modelled for the interpreter, does.\<close>

lemma rt_print_val_print:
  "print_val (Suc n) (val_init (VAL_INTEGER i)) m = Inr ((), m\<lparr> m_out := m_out m @ rt_print_val i \<rparr>)"
  by (simp add: print_val_def print_val_body_def val_init_def print_out_def sbind_def rt_print_val_def)

section \<open>The machine\<close>

text \<open>
  Values of the library are numbered in the order they are made; the pointer to the \<open>i\<close>-th is
  \<open>i + 1\<close>, and a freed value is \<open>None\<close>.
\<close>

record cpu =
  cpu_regs :: "asm_node_register \<Rightarrow> u64"
  cpu_mem :: "u64 \<Rightarrow> u64"
  cpu_pc :: nat
  cpu_heap :: "rt_value option list"
  cpu_out :: "rt_write list"
  cpu_exit :: "nat option"

text \<open>
  A program: its code without nesting, the labels of its data and the strings that the assembler
  put there. What a call of the library leaves in the other caller-saved registers and below the
  stack pointer is the last component.
\<close>

record prog =
  prog_code :: "asm_node list"
  prog_labels :: "string list"
  prog_strings :: "string list"
  prog_noise :: "cpu \<Rightarrow> (asm_node_register \<Rightarrow> u64) \<times> (u64 \<Rightarrow> u64)"

fun flatten :: "asm_node \<Rightarrow> asm_node list" where
  "flatten (ASM_ROOT cs) = concat (map flatten cs)"
| "flatten (ASM_INSTRUCTION_ARRAY cs) = concat (map flatten cs)"
| "flatten ASM_EMPTY = []"
| "flatten node = [node]"

fun index_of :: "'a \<Rightarrow> 'a list \<Rightarrow> nat option" where
  "index_of x [] = None"
| "index_of x (y # ys) = (if x = y then Some 0 else map_option Suc (index_of x ys))"

definition callee_saved :: "asm_node_register \<Rightarrow> bool" where
  "callee_saved r \<longleftrightarrow> r \<in> {ASM_INTEL_RSP, ASM_INTEL_RBP, ASM_INTEL_RBX}"

text \<open>The state after the library has returned \<open>rax\<close>.\<close>

definition after_library :: "prog \<Rightarrow> u64 \<Rightarrow> cpu \<Rightarrow> cpu" where
  "after_library p rax c =
     (let sp = cpu_regs c ASM_INTEL_RSP in
      c\<lparr> cpu_regs := (\<lambda>r. if callee_saved r then cpu_regs c r else if r = ASM_INTEL_RAX then rax else fst (prog_noise p c) r),
         cpu_mem := (\<lambda>a. if a < sp then snd (prog_noise p c) a else cpu_mem c a) \<rparr>)"

definition value_at :: "cpu \<Rightarrow> u64 \<Rightarrow> rt_value res" where
  "value_at c ptr =
     (if ptr = 0 \<or> unat ptr > length (cpu_heap c) then Inl (Undefined ''wild pointer'')
      else (case cpu_heap c ! (unat ptr - 1) of None \<Rightarrow> Inl (Undefined ''use after free'') | Some v \<Rightarrow> Inr v))"

fun values_at :: "cpu \<Rightarrow> u64 list \<Rightarrow> rt_value list res" where
  "values_at c [] = Inr []"
| "values_at c (q # qs) = rbind (value_at c q) (\<lambda>v. rbind (values_at c qs) (\<lambda>vs. Inr (v # vs)))"

definition new_value :: "rt_value \<Rightarrow> cpu \<Rightarrow> cpu" where
  "new_value v c = c\<lparr> cpu_heap := cpu_heap c @ [Some v] \<rparr>"

text \<open>The variadic arguments that \<^verbatim>\<open>println\<close> finds in registers, behind the count in RDI.\<close>

definition variadic_args :: "cpu \<Rightarrow> u64 list" where
  "variadic_args c =
     take (unat (cpu_regs c ASM_INTEL_RDI))
       (map (cpu_regs c) [ASM_INTEL_RSI, ASM_INTEL_RDX, ASM_INTEL_RCX, ASM_INTEL_R8, ASM_INTEL_R9])"

text \<open>Freeing a value; its string is a part of it.\<close>

definition libblaze_val_free :: "u64 \<Rightarrow> cpu \<Rightarrow> cpu res" where
  "libblaze_val_free ptr c =
     (if ptr = 0 then Inl (Assertion_failed ''val != NULL'')
      else rbind (value_at c ptr) (\<lambda>_. Inr (c\<lparr> cpu_heap := (cpu_heap c)[unat ptr - 1 := None] \<rparr>)))"

definition call_library :: "prog \<Rightarrow> string \<Rightarrow> cpu \<Rightarrow> cpu res" where
  "call_library p f c =
     (let rdi = cpu_regs c ASM_INTEL_RDI in
      if f = ''libblaze_val_create_intval''
      then Inr (after_library p (of_nat (Suc (length (cpu_heap c)))) (new_value (libblaze_val_create_intval rdi) c))
      else if f = ''libblaze_val_create_strval''
      then (if unat rdi < length (prog_strings p)
            then Inr (after_library p (of_nat (Suc (length (cpu_heap c)))) (new_value (libblaze_val_create_strval (prog_strings p ! unat rdi)) c))
            else Inl (Undefined ''wild pointer''))
      else if f = ''libblaze_fn_println''
      then (if unat rdi > 5 then Inl (Undefined ''arguments on the stack'')
            else rbind (values_at c (variadic_args c)) (\<lambda>vs.
                 Inr (after_library p (fst (prog_noise p c) ASM_INTEL_RAX) (c\<lparr> cpu_out := cpu_out c @ libblaze_fn_println vs \<rparr>))))
      else if f = ''libblaze_val_free''
      then rbind (libblaze_val_free rdi c) (\<lambda>d. Inr (after_library p (fst (prog_noise p d) ASM_INTEL_RAX) d))
      else if f = ''exit''
      then Inr (c\<lparr> cpu_exit := Some (unat (rdi AND 0xFF)) \<rparr>)
      else Inl (Fatal_error (''undefined reference to '' @ f)))"

section \<open>Instructions\<close>

definition reg_put :: "asm_node_register \<Rightarrow> u64 \<Rightarrow> cpu \<Rightarrow> cpu" where
  "reg_put r v c = c\<lparr> cpu_regs := (cpu_regs c)(r := v) \<rparr>"

definition push_word :: "u64 \<Rightarrow> cpu \<Rightarrow> cpu" where
  "push_word v c =
     (let sp = cpu_regs c ASM_INTEL_RSP - 8 in reg_put ASM_INTEL_RSP sp (c\<lparr> cpu_mem := (cpu_mem c)(sp := v) \<rparr>))"

definition top_word :: "cpu \<Rightarrow> u64" where
  "top_word c = cpu_mem c (cpu_regs c ASM_INTEL_RSP)"

definition drop_word :: "cpu \<Rightarrow> cpu" where
  "drop_word c = reg_put ASM_INTEL_RSP (cpu_regs c ASM_INTEL_RSP + 8) c"

text \<open>An instruction that does not jump.\<close>

definition operand_value :: "prog \<Rightarrow> cpu \<Rightarrow> asm_node_operand \<Rightarrow> u64 res" where
  "operand_value p c operand =
     (case operand of
        ASM_OPERAND_IMMEDIATE i None \<Rightarrow> Inr (of_int i)
      | ASM_OPERAND_IMMEDIATE i (Some l) \<Rightarrow>
          (case index_of l (prog_labels p) of
             None \<Rightarrow> Inl (Fatal_error (''undefined reference to '' @ l))
           | Some k \<Rightarrow> Inr (of_nat k))
      | ASM_OPERAND_REGISTER q \<Rightarrow> Inr (cpu_regs c q)
      | ASM_OPERAND_ADDR_REG q \<Rightarrow> Inr (cpu_mem c (cpu_regs c q))
      | ASM_OPERAND_ADDR_OFFSET_REG off q \<Rightarrow> Inr (cpu_mem c (cpu_regs c q + of_int off))
      | ASM_OPERAND_IDENTIFIER l \<Rightarrow> Inl (Fatal_error ''operand not modelled''))"

definition exec_inst :: "prog \<Rightarrow> asm_node_inst \<Rightarrow> asm_node_operand list \<Rightarrow> cpu \<Rightarrow> cpu res" where
  "exec_inst p inst operands c =
     (case (inst, operands) of
        (ASM_INST_MOV, [source, ASM_OPERAND_REGISTER r]) \<Rightarrow> rbind (operand_value p c source) (\<lambda>v. Inr (reg_put r v c))
      | (ASM_INST_ADD, [source, ASM_OPERAND_REGISTER r]) \<Rightarrow> rbind (operand_value p c source) (\<lambda>v. Inr (reg_put r (cpu_regs c r + v) c))
      | (ASM_INST_PUSH, [source]) \<Rightarrow> rbind (operand_value p c source) (\<lambda>v. Inr (push_word v c))
      | (ASM_INST_POP, [ASM_OPERAND_REGISTER r]) \<Rightarrow> Inr (reg_put r (top_word c) (drop_word c))
      | (ASM_INST_CALL, [ASM_OPERAND_IDENTIFIER f]) \<Rightarrow> call_library p f c
      | _ \<Rightarrow> Inl (Fatal_error ''instruction not modelled''))"

text \<open>
  A step. A call of a label of the program pushes the address of the next instruction and jumps; a
  return jumps back. Addresses of instructions are their numbers.
\<close>

definition next_pc :: "cpu \<Rightarrow> cpu" where
  "next_pc c = c\<lparr> cpu_pc := Suc (cpu_pc c) \<rparr>"

definition cpu_step :: "prog \<Rightarrow> cpu \<Rightarrow> cpu res" where
  "cpu_step p c =
     (if cpu_exit c \<noteq> None then Inr c
      else if cpu_pc c \<ge> length (prog_code p) then Inl (Undefined ''execution left the code'')
      else (case prog_code p ! cpu_pc c of
              ASM_INSTRUCTION ASM_INST_RET s [] \<Rightarrow> Inr ((drop_word c)\<lparr> cpu_pc := unat (top_word c) \<rparr>)
            | ASM_INSTRUCTION inst s operands \<Rightarrow>
                (case (inst, operands) of
                   (ASM_INST_CALL, [ASM_OPERAND_IDENTIFIER f]) \<Rightarrow>
                     (case index_of (ASM_LABEL f) (prog_code p) of
                        Some k \<Rightarrow> Inr ((push_word (of_nat (Suc (cpu_pc c))) c)\<lparr> cpu_pc := k \<rparr>)
                      | None \<Rightarrow> map_sum id next_pc (exec_inst p inst operands c))
                 | _ \<Rightarrow> map_sum id next_pc (exec_inst p inst operands c))
            | _ \<Rightarrow> Inr (next_pc c)))"

fun cpu_run :: "nat \<Rightarrow> prog \<Rightarrow> cpu \<Rightarrow> cpu res" where
  "cpu_run 0 p c = Inr c"
| "cpu_run (Suc n) p c = rbind (cpu_step p c) (cpu_run n p)"

text \<open>The program that the assembler and the linker make; \<open>read_string\<close> is how the assembler reads a string.\<close>

definition linked :: "(string \<Rightarrow> string) \<Rightarrow> (cpu \<Rightarrow> (asm_node_register \<Rightarrow> u64) \<times> (u64 \<Rightarrow> u64)) \<Rightarrow> asm_node \<Rightarrow> asm_data_lbl list \<Rightarrow> prog" where
  "linked read_string noise node data =
     \<lparr> prog_code = flatten node, prog_labels = map data_label data,
       prog_strings = map (\<lambda>d. read_string (data_param d)) data, prog_noise = noise \<rparr>"

text \<open>The state in which the system starts a program, with its stack pointer.\<close>

definition start_cpu :: "prog \<Rightarrow> u64 \<Rightarrow> (asm_node_register \<Rightarrow> u64) \<Rightarrow> (u64 \<Rightarrow> u64) \<Rightarrow> cpu" where
  "start_cpu p sp regs mem =
     \<lparr> cpu_regs = regs(ASM_INTEL_RSP := sp), cpu_mem = mem,
       cpu_pc = (case index_of (ASM_LABEL ''_start'') (prog_code p) of Some k \<Rightarrow> k | None \<Rightarrow> length (prog_code p)),
       cpu_heap = [], cpu_out = [], cpu_exit = None \<rparr>"

end
