(* ===== verification/X86_Frame.thy ===== *)
theory X86_Frame
  imports X86_Machine
begin

text \<open>
  Reasoning about the machine: a piece of code without jumps runs from its beginning to its end,
  and what each instruction does to a frame, the part of the stack below the base pointer.
\<close>

section \<open>Pieces of code\<close>

definition exec_node :: "prog \<Rightarrow> asm_node \<Rightarrow> cpu \<Rightarrow> cpu res" where
  "exec_node p node c =
     (case node of
        ASM_INSTRUCTION inst s operands \<Rightarrow> map_sum id next_pc (exec_inst p inst operands c)
      | _ \<Rightarrow> Inr (next_pc c))"

fun exec_seq :: "prog \<Rightarrow> asm_node list \<Rightarrow> cpu \<Rightarrow> cpu res" where
  "exec_seq p [] c = Inr c"
| "exec_seq p (node # nodes) c = rbind (exec_node p node c) (exec_seq p nodes)"

text \<open>A node that does not jump within the program and does not end it.\<close>

definition straight :: "prog \<Rightarrow> asm_node \<Rightarrow> bool" where
  "straight p node \<longleftrightarrow>
     (case node of
        ASM_INSTRUCTION inst s operands \<Rightarrow>
          inst \<noteq> ASM_INST_RET \<and>
          (inst = ASM_INST_CALL \<longrightarrow>
             (case operands of
                [ASM_OPERAND_IDENTIFIER f] \<Rightarrow> f \<noteq> ''exit'' \<and> index_of (ASM_LABEL f) (prog_code p) = None
              | _ \<Rightarrow> True))
      | _ \<Rightarrow> True)"

lemma exec_seq_append: "exec_seq p (xs @ ys) c = rbind (exec_seq p xs c) (exec_seq p ys)"
  by (induction xs arbitrary: c) (auto simp: rbind_def split: sum.splits)

lemma step_straight:
  assumes "straight p node" and "cpu_exit c = None" and "cpu_pc c < length (prog_code p)" and "prog_code p ! cpu_pc c = node"
  shows "cpu_step p c = exec_node p node c"
proof (cases node)
  case (ASM_INSTRUCTION inst s operands)
  show ?thesis
  proof (cases "inst = ASM_INST_CALL")
    case True
    then show ?thesis using assms ASM_INSTRUCTION
      by (auto simp: cpu_step_def exec_node_def straight_def split: list.splits asm_node_operand.splits)
  next
    case False
    then show ?thesis using assms ASM_INSTRUCTION
      by (cases inst) (auto simp: cpu_step_def exec_node_def straight_def)
  qed
qed (use assms in \<open>auto simp: cpu_step_def exec_node_def\<close>)

lemma reg_put_fields [simp]:
  "cpu_regs (reg_put r v c) = (cpu_regs c)(r := v)" "cpu_mem (reg_put r v c) = cpu_mem c" "cpu_pc (reg_put r v c) = cpu_pc c"
  "cpu_heap (reg_put r v c) = cpu_heap c" "cpu_out (reg_put r v c) = cpu_out c" "cpu_exit (reg_put r v c) = cpu_exit c"
  by (simp_all add: reg_put_def)

lemma next_pc_fields [simp]:
  "cpu_regs (next_pc c) = cpu_regs c" "cpu_mem (next_pc c) = cpu_mem c" "cpu_pc (next_pc c) = Suc (cpu_pc c)"
  "cpu_heap (next_pc c) = cpu_heap c" "cpu_out (next_pc c) = cpu_out c" "cpu_exit (next_pc c) = cpu_exit c"
  by (simp_all add: next_pc_def)

lemma push_word_fields [simp]:
  "cpu_regs (push_word v c) = (cpu_regs c)(ASM_INTEL_RSP := cpu_regs c ASM_INTEL_RSP - 8)"
  "cpu_mem (push_word v c) = (cpu_mem c)(cpu_regs c ASM_INTEL_RSP - 8 := v)"
  "cpu_pc (push_word v c) = cpu_pc c" "cpu_heap (push_word v c) = cpu_heap c" "cpu_out (push_word v c) = cpu_out c"
  "cpu_exit (push_word v c) = cpu_exit c"
  by (simp_all add: push_word_def Let_def)

lemma drop_word_fields [simp]:
  "cpu_regs (drop_word c) = (cpu_regs c)(ASM_INTEL_RSP := cpu_regs c ASM_INTEL_RSP + 8)"
  "cpu_mem (drop_word c) = cpu_mem c" "cpu_pc (drop_word c) = cpu_pc c" "cpu_heap (drop_word c) = cpu_heap c"
  "cpu_out (drop_word c) = cpu_out c" "cpu_exit (drop_word c) = cpu_exit c"
  by (simp_all add: drop_word_def)

lemma after_library_fields [simp]:
  "cpu_mem (after_library p v c) a = (if a < cpu_regs c ASM_INTEL_RSP then snd (prog_noise p c) a else cpu_mem c a)"
  "cpu_regs (after_library p v c) ASM_INTEL_RAX = v"
  "cpu_regs (after_library p v c) ASM_INTEL_RSP = cpu_regs c ASM_INTEL_RSP"
  "cpu_regs (after_library p v c) ASM_INTEL_RBP = cpu_regs c ASM_INTEL_RBP"
  "cpu_pc (after_library p v c) = cpu_pc c" "cpu_heap (after_library p v c) = cpu_heap c"
  "cpu_out (after_library p v c) = cpu_out c" "cpu_exit (after_library p v c) = cpu_exit c"
  by (simp_all add: after_library_def callee_saved_def Let_def)

lemma call_library_keeps:
  "call_library p f c = Inr c' \<Longrightarrow> cpu_pc c' = cpu_pc c \<and> (f \<noteq> ''exit'' \<longrightarrow> cpu_exit c' = cpu_exit c)"
  by (auto simp: call_library_def libblaze_val_free_def Let_def new_value_def rbind_def split: if_splits sum.splits)

lemma exec_inst_keeps:
  assumes "exec_inst p inst operands c = Inr c'" and "inst = ASM_INST_CALL \<Longrightarrow> operands \<noteq> [ASM_OPERAND_IDENTIFIER ''exit'']"
  shows "cpu_pc c' = cpu_pc c \<and> cpu_exit c' = cpu_exit c"
  using assms call_library_keeps
  by (auto simp: exec_inst_def rbind_def split: asm_node_inst.splits list.splits asm_node_operand.splits sum.splits)

lemma exec_node_keeps:
  assumes "exec_node p node c = Inr c'" and "straight p node"
  shows "cpu_pc c' = Suc (cpu_pc c) \<and> cpu_exit c' = cpu_exit c"
proof (cases node)
  case (ASM_INSTRUCTION inst s operands)
  then obtain d where d: "exec_inst p inst operands c = Inr d" "c' = next_pc d"
    using assms(1) by (cases "exec_inst p inst operands c") (auto simp: exec_node_def)
  have "inst = ASM_INST_CALL \<Longrightarrow> operands \<noteq> [ASM_OPERAND_IDENTIFIER ''exit'']"
    using assms(2) ASM_INSTRUCTION by (auto simp: straight_def)
  from exec_inst_keeps [OF d(1) this] show ?thesis using d(2) by simp
qed (use assms in \<open>auto simp: exec_node_def\<close>)

lemma run_seq:
  assumes "exec_seq p ns c = Inr c'" and "prog_code p = pre @ ns @ post" and "cpu_pc c = length pre"
    and "cpu_exit c = None" and "\<forall>n \<in> set ns. straight p n"
  shows "cpu_run (length ns) p c = Inr c' \<and> cpu_pc c' = length (pre @ ns) \<and> cpu_exit c' = None"
  using assms
proof (induction ns arbitrary: c pre)
  case (Cons n ns)
  then obtain d where d: "exec_node p n c = Inr d" "exec_seq p ns d = Inr c'"
    by (cases "exec_node p n c") auto
  have step: "cpu_step p c = Inr d"
    using step_straight [of p n c] Cons.prems d(1) by (simp add: nth_append)
  have "cpu_pc d = length (pre @ [n])" "cpu_exit d = None"
    using exec_node_keeps [OF d(1)] Cons.prems by simp_all
  then have "cpu_run (length ns) p d = Inr c' \<and> cpu_pc c' = length ((pre @ [n]) @ ns) \<and> cpu_exit c' = None"
    using Cons.prems by (intro Cons.IH d(2)) simp_all
  then show ?case using step by simp
qed simp

lemma cpu_run_add: "cpu_run (m + n) p c = rbind (cpu_run m p c) (cpu_run n p)"
  by (induction m arbitrary: c) (auto simp: rbind_def split: sum.splits)

section \<open>Triples\<close>

definition triple :: "prog \<Rightarrow> (cpu \<Rightarrow> bool) \<Rightarrow> asm_node list \<Rightarrow> (cpu \<Rightarrow> bool) \<Rightarrow> bool" where
  "triple p P ns Q \<longleftrightarrow> (\<forall>c. P c \<longrightarrow> (\<exists>c'. exec_seq p ns c = Inr c' \<and> Q c'))"

lemma tripleI: "(\<And>c. P c \<Longrightarrow> \<exists>c'. exec_seq p ns c = Inr c' \<and> Q c') \<Longrightarrow> triple p P ns Q"
  by (simp add: triple_def)

lemma tripleD: "triple p P ns Q \<Longrightarrow> P c \<Longrightarrow> \<exists>c'. exec_seq p ns c = Inr c' \<and> Q c'"
  by (simp add: triple_def)

lemma triple_append: "triple p P xs Q \<Longrightarrow> triple p Q ys R \<Longrightarrow> triple p P (xs @ ys) R"
  unfolding triple_def exec_seq_append by fastforce

lemma triple_nil: "triple p P [] P"
  by (simp add: triple_def)

lemma triple_one:
  assumes "\<And>c. P c \<Longrightarrow> \<exists>c'. exec_inst p inst operands c = Inr c' \<and> Q (next_pc c')"
  shows "triple p P [ASM_INSTRUCTION inst s operands] Q"
proof (rule tripleI)
  fix c assume "P c"
  then obtain c' where "exec_inst p inst operands c = Inr c'" "Q (next_pc c')" using assms by blast
  then show "\<exists>c'. exec_seq p [ASM_INSTRUCTION inst s operands] c = Inr c' \<and> Q c'"
    by (simp add: exec_node_def)
qed

lemma triple_cons:
  "triple p P [n] Q \<Longrightarrow> triple p Q ns R \<Longrightarrow> triple p P (n # ns) R"
  using triple_append [of p P "[n]" Q ns R] by simp

section \<open>Frames\<close>

text \<open>
  The words \<open>ws\<close> have been pushed below the base pointer \<open>bp\<close>, the first one first; from \<open>bp\<close>
  upwards the memory is \<open>m0\<close>.
\<close>

definition word_at :: "u64 \<Rightarrow> nat \<Rightarrow> u64" where
  "word_at bp n = bp - of_nat (8 * n)"

definition stacked ::
  "u64 \<Rightarrow> (u64 \<Rightarrow> u64) \<Rightarrow> u64 list \<Rightarrow> rt_value option list \<Rightarrow> rt_write list \<Rightarrow> cpu \<Rightarrow> bool" where
  "stacked bp m0 ws heap out c \<longleftrightarrow>
     cpu_exit c = None \<and> cpu_regs c ASM_INTEL_RBP = bp \<and> cpu_regs c ASM_INTEL_RSP = word_at bp (length ws) \<and>
     (\<forall>i < length ws. cpu_mem c (word_at bp (Suc i)) = ws ! i) \<and>
     (\<forall>a \<ge> bp. cpu_mem c a = m0 a) \<and> cpu_heap c = heap \<and> cpu_out c = out"

lemma stacked_next_pc [simp]: "stacked bp m0 ws heap out (next_pc c) = stacked bp m0 ws heap out c"
  by (simp add: stacked_def)

lemma stacked_reg_put:
  "r \<noteq> ASM_INTEL_RSP \<Longrightarrow> r \<noteq> ASM_INTEL_RBP \<Longrightarrow> stacked bp m0 ws heap out (reg_put r v c) = stacked bp m0 ws heap out c"
  by (auto simp: stacked_def)

lemma room: "24 \<le> (bp :: u64) \<Longrightarrow> 24 \<le> unat bp"
  by (simp add: word_le_nat_alt)

lemma unat_word_at:
  assumes "24 \<le> bp" and "n \<le> 3"
  shows "unat (word_at bp n) = unat bp - 8 * n"
proof -
  have n: "unat (of_nat (8 * n) :: u64) = 8 * n" using assms(2) by (simp add: unat_of_nat del: of_nat_mult)
  then have "(of_nat (8 * n) :: u64) \<le> bp" using assms(2) room [OF assms(1)] by (simp add: word_le_nat_alt)
  then show ?thesis using n unfolding word_at_def by (simp add: unat_sub)
qed

lemma word_at_less:
  assumes "24 \<le> bp" and "m \<le> 3" and "n \<le> 3"
  shows "word_at bp m < word_at bp n \<longleftrightarrow> n < m"
proof -
  have "8 * m \<le> unat bp" "8 * n \<le> unat bp" using assms(2,3) room [OF assms(1)] by linarith+
  then show ?thesis using assms by (auto simp: word_less_nat_alt unat_word_at)
qed

lemma word_at_eq:
  assumes "24 \<le> bp" and "m \<le> 3" and "n \<le> 3"
  shows "word_at bp m = word_at bp n \<longleftrightarrow> n = m"
  using assms word_at_less [of bp m n] word_at_less [of bp n m] by (metis linorder_neq_iff)

lemma word_at_0 [simp]: "word_at bp 0 = bp"
  by (simp add: word_at_def)

lemma word_at_step [simp]: "word_at bp n - 8 = word_at bp (Suc n)" "word_at bp (Suc n) + 8 = word_at bp n"
  by (simp_all add: word_at_def algebra_simps)

lemma word_at_offset: "bp + of_int (- 8 * (int i + 1)) = word_at bp (Suc i)"
  by (simp add: word_at_def algebra_simps)

lemma word_at_le: "24 \<le> bp \<Longrightarrow> n \<le> 3 \<Longrightarrow> word_at bp n \<le> bp"
  using word_at_less [of bp 0 n] by simp

lemma stacked_push:
  assumes "stacked bp m0 ws heap out c" and "24 \<le> bp" and "length ws < 3"
  shows "stacked bp m0 (ws @ [v]) heap out (push_word v c)"
proof -
  have sp: "cpu_regs c ASM_INTEL_RSP - 8 = word_at bp (Suc (length ws))"
    using assms(1) by (simp add: stacked_def)
  have old: "cpu_mem (push_word v c) (word_at bp (Suc i)) = (ws @ [v]) ! i" if "i < length (ws @ [v])" for i
    using that assms by (cases "i = length ws") (auto simp: sp stacked_def nth_append word_at_eq)
  have above: "cpu_mem (push_word v c) a = m0 a" if "a \<ge> bp" for a
  proof -
    have "word_at bp (Suc (length ws)) < bp"
      using word_at_less [OF assms(2), of "Suc (length ws)" 0] assms(3) by simp
    then show ?thesis using that assms(1) by (auto simp: sp stacked_def)
  qed
  show ?thesis using assms(1) old above sp by (simp add: stacked_def)
qed

lemma stacked_drop:
  "stacked bp m0 (ws @ [w]) heap out c \<Longrightarrow> stacked bp m0 ws heap out (drop_word c)"
  by (auto simp: stacked_def nth_append split: if_splits dest: spec [of _ "_ :: nat"])

lemma stacked_top: "stacked bp m0 (ws @ [w]) heap out c \<Longrightarrow> top_word c = w"
  by (auto simp: stacked_def top_word_def nth_append dest: spec [of _ "length ws"])

lemma stacked_nth:
  "stacked bp m0 ws heap out c \<Longrightarrow> i < length ws \<Longrightarrow> cpu_mem c (cpu_regs c ASM_INTEL_RBP + of_int (- 8 * (int i + 1))) = ws ! i"
  unfolding word_at_offset by (simp add: stacked_def)

text \<open>A call of the library keeps the frame.\<close>

lemma stacked_library:
  assumes "stacked bp m0 ws heap out c" and "24 \<le> bp" and "length ws \<le> 3"
    and "cpu_regs d = cpu_regs c" and "cpu_mem d = cpu_mem c" and "cpu_exit d = cpu_exit c"
    and "cpu_heap d = heap'" and "cpu_out d = out'"
  shows "stacked bp m0 ws heap' out' (after_library p v d)"
proof -
  have keep: "\<not> word_at bp (Suc i) < word_at bp (length ws)" if "i < length ws" for i
    using that assms(2,3) by (simp add: word_at_less)
  have above: "\<not> a < word_at bp (length ws)" if "a \<ge> bp" for a
    using that word_at_le [OF assms(2,3)] by (meson linorder_not_less order_trans)
  show ?thesis
    using assms keep above by (simp add: stacked_def)
qed

end
