(* ===== verification/Compile_Correct.thy ===== *)
theory Compile_Correct
  imports Compile_X86 X86_Frame "HOL-Library.Sublist"
begin

text \<open>
  The code of a printing program runs: each part of the generated code is given a triple, from
  literals over calls to the frame of \<^verbatim>\<open>main\<close>.
\<close>

section \<open>The programs\<close>

text \<open>A text that the assembler reads back as it is written: no backslash and no line feed.\<close>

definition plain_text :: "string \<Rightarrow> bool" where
  "plain_text s \<longleftrightarrow> CHR 0x5C \<notin> set s \<and> newline \<notin> set s"

definition reads_strings :: "(string \<Rightarrow> string) \<Rightarrow> bool" where
  "reads_strings rs \<longleftrightarrow> (\<forall>s. plain_text s \<longrightarrow> rs (string_param s) = s)"

definition literal_ok :: "ast_node \<Rightarrow> bool" where
  "literal_ok a =
     (case a of NODE_INT_LIT l i \<Rightarrow> in_llong i | NODE_STRING l s \<Rightarrow> plain_text (c_string s) | _ \<Rightarrow> False)"

definition literal_value :: "ast_node \<Rightarrow> rt_value" where
  "literal_value a =
     (case a of NODE_STRING l s \<Rightarrow> RT_STRING (c_string s) | NODE_INT_LIT l i \<Rightarrow> RT_INTEGER i | _ \<Rightarrow> RT_INTEGER 0)"

definition println_ok :: "ast_node \<Rightarrow> bool" where
  "println_ok node =
     (case node of
        NODE_EXPR_CALL l f args \<Rightarrow> f = ''println'' \<and> length args < 3 \<and> (\<forall>a \<in> set args. literal_ok a)
      | _ \<Rightarrow> False)"

definition println_args :: "ast_node \<Rightarrow> rt_value list" where
  "println_args node = (case node of NODE_EXPR_CALL l f args \<Rightarrow> map literal_value args | _ \<Rightarrow> [])"

section \<open>The data\<close>

definition label_of :: "nat \<Rightarrow> string" where
  "label_of n = ''.DL'' @ digits 10 n"

lemma label_of_inj: "label_of m = label_of n \<Longrightarrow> m = n"
  using digits_value_digits by (metis append_eq_append_conv label_of_def)

text \<open>The labels are numbered from 0, and the counter is the next number.\<close>

definition ctx_ok :: "compilation_context \<Rightarrow> bool" where
  "ctx_ok ctx \<longleftrightarrow>
     lbl_count ctx = of_nat (length (asm_data ctx)) \<and> map data_label (asm_data ctx) = map label_of [0..<length (asm_data ctx)]"

lemma ctx_ok_distinct: "ctx_ok ctx \<Longrightarrow> distinct (map data_label (asm_data ctx))"
  by (auto simp: ctx_ok_def distinct_map inj_on_def dest: label_of_inj)

text \<open>The program has the data \<open>data\<close>, perhaps with more behind it.\<close>

definition has_data :: "(string \<Rightarrow> string) \<Rightarrow> prog \<Rightarrow> asm_data_lbl list \<Rightarrow> bool" where
  "has_data rs p data \<longleftrightarrow>
     prefix (map data_label data) (prog_labels p) \<and> prefix (map (\<lambda>d. rs (data_param d)) data) (prog_strings p) \<and>
     distinct (prog_labels p)"

lemma has_data_prefix: "has_data rs p data' \<Longrightarrow> prefix data data' \<Longrightarrow> has_data rs p data"
  by (auto simp: has_data_def prefix_def)

lemma index_of_nth: "distinct xs \<Longrightarrow> i < length xs \<Longrightarrow> index_of (xs ! i) xs = Some i"
  by (induction xs arbitrary: i) (auto simp: nth_Cons' less_Suc_eq_0_disj)

lemma has_data_snoc:
  assumes "has_data rs p (data @ [d])"
  shows "index_of (data_label d) (prog_labels p) = Some (length data)"
    and "length data < length (prog_strings p)" and "prog_strings p ! length data = rs (data_param d)"
proof -
  obtain ls ss where *: "prog_labels p = map data_label data @ data_label d # ls"
    "prog_strings p = map (\<lambda>d. rs (data_param d)) data @ rs (data_param d) # ss" "distinct (prog_labels p)"
    using assms by (auto simp: has_data_def prefix_def)
  have "prog_labels p ! length data = data_label d" by (simp add: * nth_append)
  then show "index_of (data_label d) (prog_labels p) = Some (length data)"
    using index_of_nth [OF *(3), of "length data"] by (simp add: *(1))
  show "length data < length (prog_strings p)" "prog_strings p ! length data = rs (data_param d)"
    by (simp_all add: * nth_append)
qed

lemma c_string_idem: "c_string (c_string s) = c_string s"
  unfolding c_string_def by (subst takeWhile_eq_all_conv) (auto dest: set_takeWhileD)

section \<open>Instructions\<close>

text \<open>The instructions of which the code of a call is made.\<close>

definition library_names :: "string list" where
  "library_names = [''libblaze_val_create_intval'', ''libblaze_val_create_strval'', ''libblaze_fn_println'', ''libblaze_val_free'']"

definition call_inst :: "asm_node \<Rightarrow> bool" where
  "call_inst n =
     (case n of
        ASM_INSTRUCTION inst s operands \<Rightarrow>
          inst \<in> {ASM_INST_MOV, ASM_INST_PUSH, ASM_INST_POP, ASM_INST_ADD} \<or>
          inst = ASM_INST_CALL \<and> (\<exists>f \<in> set library_names. operands = [ASM_OPERAND_IDENTIFIER f])
      | _ \<Rightarrow> False)"

definition has_library :: "prog \<Rightarrow> bool" where
  "has_library p \<longleftrightarrow> (\<forall>f \<in> set library_names. index_of (ASM_LABEL f) (prog_code p) = None)"

lemma call_inst_straight: "has_library p \<Longrightarrow> call_inst n \<Longrightarrow> straight p n"
  by (auto simp: has_library_def call_inst_def straight_def library_names_def split: asm_node.splits)

lemma sint_literal: "in_llong i \<Longrightarrow> sint (of_int i :: u64) = i"
  by (simp add: in_llong_def llong_min_def llong_max_def sint_sbintrunc' signed_take_bit_int_eq_self)

lemma unat_index: "n < 2 ^ 64 \<Longrightarrow> unat (of_nat n :: u64) = n"
  by (simp add: unat_of_nat)

lemma mov_number:
  assumes "r \<noteq> ASM_INTEL_RSP" "r \<noteq> ASM_INTEL_RBP"
  shows "triple p (stacked bp m0 ws h out) [ASM_INSTRUCTION ASM_INST_MOV s [IMM64 i, ASM_OPERAND_REGISTER r]]
     (\<lambda>c. stacked bp m0 ws h out c \<and> cpu_regs c r = of_int i)"
  using assms by (intro triple_one) (simp add: exec_inst_def operand_value_def IMM64_def stacked_reg_put)

lemma mov_label:
  assumes "index_of l (prog_labels p) = Some k" and "r \<noteq> ASM_INTEL_RSP" "r \<noteq> ASM_INTEL_RBP"
  shows "triple p (stacked bp m0 ws h out) [ASM_INSTRUCTION ASM_INST_MOV s [IMM_LBL l, ASM_OPERAND_REGISTER r]]
     (\<lambda>c. stacked bp m0 ws h out c \<and> cpu_regs c r = of_nat k)"
  using assms by (intro triple_one) (simp add: exec_inst_def operand_value_def IMM_LBL_def stacked_reg_put)

lemma push_register:
  assumes "24 \<le> bp" and "length ws < 3"
  shows "triple p (\<lambda>c. stacked bp m0 ws h out c \<and> cpu_regs c r = v) [ASM_INSTRUCTION ASM_INST_PUSH s [ASM_OPERAND_REGISTER r]]
     (stacked bp m0 (ws @ [v]) h out)"
  using assms by (intro triple_one) (auto simp: exec_inst_def operand_value_def intro: stacked_push)

lemma call_create_intval:
  assumes "24 \<le> bp" and "length ws \<le> 3" and "in_llong i"
  shows "triple p (\<lambda>c. stacked bp m0 ws h out c \<and> cpu_regs c ASM_INTEL_RDI = of_int i)
     [ASM_INSTRUCTION ASM_INST_CALL s [ASM_OPERAND_IDENTIFIER ''libblaze_val_create_intval'']]
     (\<lambda>c. stacked bp m0 ws (h @ [Some (RT_INTEGER i)]) out c \<and> cpu_regs c ASM_INTEL_RAX = of_nat (Suc (length h)))"
proof (rule triple_one)
  fix c assume c: "stacked bp m0 ws h out c \<and> cpu_regs c ASM_INTEL_RDI = of_int i"
  then have h: "cpu_heap c = h" by (simp add: stacked_def)
  let ?d = "new_value (RT_INTEGER i) c"
  have "stacked bp m0 ws (h @ [Some (RT_INTEGER i)]) out (after_library p v ?d)" for v
    using c by (intro stacked_library [of _ _ _ h out c]) (use assms in \<open>auto simp: new_value_def stacked_def\<close>)
  then show "\<exists>c'. exec_inst p ASM_INST_CALL [ASM_OPERAND_IDENTIFIER ''libblaze_val_create_intval''] c = Inr c' \<and>
      stacked bp m0 ws (h @ [Some (RT_INTEGER i)]) out (next_pc c') \<and> cpu_regs (next_pc c') ASM_INTEL_RAX = of_nat (Suc (length h))"
    using c h assms(3) by (simp add: exec_inst_def call_library_def libblaze_val_create_intval_def sint_literal)
qed

lemma call_create_strval:
  assumes "24 \<le> bp" and "length ws \<le> 3" and "k < length (prog_strings p)" and "k < 2 ^ 64"
  shows "triple p (\<lambda>c. stacked bp m0 ws h out c \<and> cpu_regs c ASM_INTEL_RDI = of_nat k)
     [ASM_INSTRUCTION ASM_INST_CALL s [ASM_OPERAND_IDENTIFIER ''libblaze_val_create_strval'']]
     (\<lambda>c. stacked bp m0 ws (h @ [Some (RT_STRING (c_string (prog_strings p ! k)))]) out c \<and>
        cpu_regs c ASM_INTEL_RAX = of_nat (Suc (length h)))"
proof (rule triple_one)
  let ?v = "RT_STRING (c_string (prog_strings p ! k))"
  fix c assume c: "stacked bp m0 ws h out c \<and> cpu_regs c ASM_INTEL_RDI = of_nat k"
  then have h: "cpu_heap c = h" by (simp add: stacked_def)
  let ?d = "new_value ?v c"
  have "stacked bp m0 ws (h @ [Some ?v]) out (after_library p v ?d)" for v
    using c by (intro stacked_library [of _ _ _ h out c]) (use assms in \<open>auto simp: new_value_def stacked_def\<close>)
  then show "\<exists>c'. exec_inst p ASM_INST_CALL [ASM_OPERAND_IDENTIFIER ''libblaze_val_create_strval''] c = Inr c' \<and>
      stacked bp m0 ws (h @ [Some ?v]) out (next_pc c') \<and> cpu_regs (next_pc c') ASM_INTEL_RAX = of_nat (Suc (length h))"
    using c h assms(3,4) by (simp add: exec_inst_def call_library_def libblaze_val_create_strval_def unat_index)
qed

lemma pop_and_free:
  assumes "24 \<le> bp" and "length ws < 3" and "k < length h" and "h ! k = Some v" and "length h < 2 ^ 64"
  shows "triple p (stacked bp m0 (ws @ [of_nat (Suc k)]) h out)
     [ASM_INSTRUCTION ASM_INST_POP s [ASM_OPERAND_REGISTER ASM_INTEL_RDI],
      ASM_INSTRUCTION ASM_INST_CALL s [ASM_OPERAND_IDENTIFIER ''libblaze_val_free'']]
     (stacked bp m0 ws (h[k := None]) out)"
proof (rule triple_cons)
  show "triple p (stacked bp m0 (ws @ [of_nat (Suc k)]) h out) [ASM_INSTRUCTION ASM_INST_POP s [ASM_OPERAND_REGISTER ASM_INTEL_RDI]]
      (\<lambda>c. stacked bp m0 ws h out c \<and> cpu_regs c ASM_INTEL_RDI = of_nat (Suc k))"
    by (intro triple_one) (auto simp: exec_inst_def stacked_reg_put stacked_top simp del: of_nat_Suc intro: stacked_drop)
  show "triple p (\<lambda>c. stacked bp m0 ws h out c \<and> cpu_regs c ASM_INTEL_RDI = of_nat (Suc k))
      [ASM_INSTRUCTION ASM_INST_CALL s [ASM_OPERAND_IDENTIFIER ''libblaze_val_free'']] (stacked bp m0 ws (h[k := None]) out)"
  proof (rule triple_one)
    fix c assume c: "stacked bp m0 ws h out c \<and> cpu_regs c ASM_INTEL_RDI = of_nat (Suc k)"
    then have h: "cpu_heap c = h" by (simp add: stacked_def)
    have k: "unat (of_nat (Suc k) :: u64) = Suc k" using assms(3,5) by (intro unat_index) simp
    then have nz: "(of_nat (Suc k) :: u64) \<noteq> 0" by (metis nat.simps(3) unat_0)
    let ?d = "c\<lparr> cpu_heap := h[k := None] \<rparr>"
    have "stacked bp m0 ws (h[k := None]) out (after_library p u ?d)" for u
      using c by (intro stacked_library [of _ _ _ h out c]) (use assms in \<open>auto simp: stacked_def\<close>)
    moreover have "value_at c (of_nat (Suc k)) = Inr v"
      using assms(3,4) k nz by (simp add: value_at_def h del: of_nat_Suc)
    ultimately show "\<exists>c'. exec_inst p ASM_INST_CALL [ASM_OPERAND_IDENTIFIER ''libblaze_val_free''] c = Inr c' \<and>
        stacked bp m0 ws (h[k := None]) out (next_pc c')"
      using c h k nz by (simp add: exec_inst_def call_library_def libblaze_val_free_def del: of_nat_Suc)
  qed
qed

lemma add_8:
  "triple p (stacked bp m0 (ws @ [w]) h out) [ASM_INSTRUCTION ASM_INST_ADD s [IMM64 8, ASM_OPERAND_REGISTER ASM_INTEL_RSP]]
     (stacked bp m0 ws h out)"
  by (intro triple_one) (auto simp: exec_inst_def operand_value_def IMM64_def drop_word_def [symmetric] intro: stacked_drop)

section \<open>Values and their pointers\<close>

text \<open>The pointers to values made one after the other when \<open>k\<close> values were there before.\<close>

definition pointers :: "nat \<Rightarrow> nat \<Rightarrow> u64 list" where
  "pointers k n = map (\<lambda>i. of_nat (Suc (k + i))) [0..<n]"

lemma pointers_simps [simp]: "pointers k 0 = []" "length (pointers k n) = n" "pointers k (Suc n) = pointers k n @ [of_nat (Suc (k + n))]"
  by (simp_all add: pointers_def)

lemma pointers_Cons: "pointers k (Suc n) = of_nat (Suc k) # pointers (Suc k) n"
  by (simp add: pointers_def upt_rec [of 0 "Suc n"] map_Suc_upt [symmetric] del: upt_Suc)

lemma values_at_pointers:
  assumes "cpu_heap c = h @ map Some vs @ rest" and "length (h @ map Some vs @ rest) < 2 ^ 64"
  shows "values_at c (pointers (length h) (length vs)) = Inr vs"
  using assms
proof (induction vs arbitrary: h)
  case (Cons v vs)
  have k: "unat (of_nat (Suc (length h)) :: u64) = Suc (length h)"
    using Cons.prems(2) by (intro unat_index) simp
  then have nz: "(of_nat (Suc (length h)) :: u64) \<noteq> 0" by (metis nat.simps(3) unat_0)
  have "value_at c (of_nat (Suc (length h))) = Inr v"
    using k nz by (simp add: value_at_def Cons.prems(1) nth_append del: of_nat_Suc)
  moreover have "values_at c (pointers (length (h @ [Some v])) (length vs)) = Inr vs"
    using Cons.prems by (intro Cons.IH) simp_all
  ultimately show ?case by (simp add: pointers_Cons del: of_nat_Suc pointers_simps(3))
qed simp

section \<open>The parts of a call\<close>

text \<open>What the code for one literal is, and what it does.\<close>

lemma compile_expr_ok:
  assumes "literal_ok a" and "ctx_ok ctx" and "length (asm_data ctx) < 2 ^ 64"
  obtains code ctx' where
    "x86_64_compile_expr a ctx = Inr (ASM_INSTRUCTION_ARRAY code, ctx')" and "ctx_ok ctx'"
    and "prefix (asm_data ctx) (asm_data ctx')" and "length (asm_data ctx') \<le> Suc (length (asm_data ctx))"
    and "flatten (ASM_INSTRUCTION_ARRAY code) = code" and "\<forall>n \<in> set code. call_inst n"
    and "\<forall>rs p bp m0 ws h out. reads_strings rs \<longrightarrow> has_data rs p (asm_data ctx') \<longrightarrow> 24 \<le> bp \<longrightarrow> length ws \<le> 3 \<longrightarrow>
      triple p (stacked bp m0 ws h out) code
        (\<lambda>c. stacked bp m0 ws (h @ [Some (literal_value a)]) out c \<and> cpu_regs c ASM_INTEL_RAX = of_nat (Suc (length h)))"
proof (cases a)
  case (NODE_INT_LIT l i)
  let ?code = "[ASM_INSTRUCTION ASM_INST_MOV ASM_SUF_QWORD [IMM64 i, ASM_OPERAND_REGISTER ASM_INTEL_RDI],
    ASM_INSTRUCTION ASM_INST_CALL ASM_SUF_QWORD [ASM_OPERAND_IDENTIFIER ''libblaze_val_create_intval'']]"
  have "x86_64_compile_expr a ctx = Inr (ASM_INSTRUCTION_ARRAY ?code, ctx)"
    by (simp add: NODE_INT_LIT x86_64_compile_expr_def asm_create_inst_array_def asm_push_inst_bin_op_def
        asm_push_inst_mono_op_def asm_create_inst_bin_op_def asm_create_inst_mono_op_def)
  moreover have "triple p (stacked bp m0 ws h out) ?code
        (\<lambda>c. stacked bp m0 ws (h @ [Some (literal_value a)]) out c \<and> cpu_regs c ASM_INTEL_RAX = of_nat (Suc (length h)))"
    if "24 \<le> bp" "length ws \<le> 3" for p bp m0 ws h out
    using that assms(1) unfolding NODE_INT_LIT literal_value_def
    by (auto intro!: triple_cons [OF mov_number] call_create_intval simp: literal_ok_def simp del: of_nat_Suc)
  ultimately show ?thesis
    by (intro that [of ?code ctx]) (use assms in \<open>auto simp: call_inst_def library_names_def\<close>)
next
  case (NODE_STRING l s)
  let ?n = "length (asm_data ctx)"
  let ?d = "\<lparr> data_label = label_of ?n, data_directive = ''string'', data_param = string_param (c_string s) \<rparr>"
  let ?ctx = "ctx\<lparr> lbl_count := lbl_count ctx + 1, asm_data := asm_data ctx @ [?d] \<rparr>"
  let ?code = "[ASM_INSTRUCTION ASM_INST_MOV ASM_SUF_QWORD [IMM_LBL (label_of ?n), ASM_OPERAND_REGISTER ASM_INTEL_RDI],
    ASM_INSTRUCTION ASM_INST_CALL ASM_SUF_QWORD [ASM_OPERAND_IDENTIFIER ''libblaze_val_create_strval'']]"
  have n: "lbl_count ctx = of_nat ?n" "unat (lbl_count ctx) = ?n"
    using assms(2,3) by (simp_all add: ctx_ok_def unat_index)
  have "x86_64_compile_expr a ctx = Inr (ASM_INSTRUCTION_ARRAY ?code, ?ctx)"
    by (simp add: NODE_STRING x86_64_compile_expr_def asm_create_inst_array_def asm_push_inst_bin_op_def new_label_def
        asm_push_inst_mono_op_def asm_create_inst_bin_op_def asm_create_inst_mono_op_def asm_data_push_def sbind_def
        label_of_def n(2) Let_def)
  moreover have "ctx_ok ?ctx" using assms(2) by (simp add: ctx_ok_def)
  moreover have "triple p (stacked bp m0 ws h out) ?code
        (\<lambda>c. stacked bp m0 ws (h @ [Some (literal_value a)]) out c \<and> cpu_regs c ASM_INTEL_RAX = of_nat (Suc (length h)))"
    if "reads_strings rs" "has_data rs p (asm_data ?ctx)" "24 \<le> bp" "length ws \<le> 3" for rs p bp m0 ws h out
  proof -
    have d: "index_of (label_of ?n) (prog_labels p) = Some ?n" "?n < length (prog_strings p)"
      "prog_strings p ! ?n = rs (string_param (c_string s))"
      using has_data_snoc [of rs p "asm_data ctx" ?d] that(2) by simp_all
    have "prog_strings p ! ?n = c_string s"
      using that(1) assms(1) by (simp add: d reads_strings_def NODE_STRING literal_ok_def)
    then have "literal_value a = RT_STRING (c_string (prog_strings p ! ?n))"
      by (simp add: literal_value_def NODE_STRING c_string_idem)
    then show ?thesis
      using that(3,4) assms(3) d(2)
      by (auto intro!: triple_cons [OF mov_label [OF d(1)]] call_create_strval simp del: of_nat_Suc)
  qed
  ultimately show ?thesis
    by (intro that [of ?code ?ctx]) (auto simp: call_inst_def library_names_def)
qed (use assms(1) in \<open>simp_all add: literal_ok_def\<close>)

lemma push_to_array [simp]:
  "asm_node_children_push (ASM_INSTRUCTION_ARRAY cs) n = ASM_INSTRUCTION_ARRAY (cs @ [n])"
  "asm_push_inst_bin_op (ASM_INSTRUCTION_ARRAY cs) inst s x y = ASM_INSTRUCTION_ARRAY (cs @ [ASM_INSTRUCTION inst s [x, y]])"
  "asm_push_inst_mono_op (ASM_INSTRUCTION_ARRAY cs) inst s x = ASM_INSTRUCTION_ARRAY (cs @ [ASM_INSTRUCTION inst s [x]])"
  by (simp_all add: asm_push_inst_bin_op_def asm_push_inst_mono_op_def asm_create_inst_bin_op_def asm_create_inst_mono_op_def)

text \<open>The code for the arguments: each is made and its pointer pushed.\<close>

lemma compile_args_ok:
  assumes "\<forall>a \<in> set args. literal_ok a" and "ctx_ok ctx" and "length (asm_data ctx) + length args < 2 ^ 64" and "c + length args \<le> 6"
  obtains code ctx' where
    "compile_args args c (ASM_INSTRUCTION_ARRAY cs) 0 ctx = Inr ((ASM_INSTRUCTION_ARRAY (cs @ code), 0), ctx')" and "ctx_ok ctx'"
    and "prefix (asm_data ctx) (asm_data ctx')" and "length (asm_data ctx') \<le> length (asm_data ctx) + length args"
    and "\<forall>n \<in> set (flatten (ASM_INSTRUCTION_ARRAY code)). call_inst n"
    and "\<forall>rs p bp m0 ws h out. reads_strings rs \<longrightarrow> has_data rs p (asm_data ctx') \<longrightarrow> 24 \<le> bp \<longrightarrow> length ws + length args \<le> 3 \<longrightarrow>
      triple p (stacked bp m0 ws h out) (flatten (ASM_INSTRUCTION_ARRAY code))
        (stacked bp m0 (ws @ pointers (length h) (length args)) (h @ map (\<lambda>a. Some (literal_value a)) args) out)"
  using assms
proof (induction args arbitrary: c cs ctx thesis)
  case Nil
  show ?case by (rule Nil(1) [of "[]" ctx]) (use Nil in \<open>auto intro: triple_nil\<close>)
next
  case (Cons a args)
  have a: "literal_ok a" "length (asm_data ctx) < 2 ^ 64" using Cons.prems by simp_all
  obtain code ctx1 where 1:
    "x86_64_compile_expr a ctx = Inr (ASM_INSTRUCTION_ARRAY code, ctx1)" "ctx_ok ctx1"
    "prefix (asm_data ctx) (asm_data ctx1)" "length (asm_data ctx1) \<le> Suc (length (asm_data ctx))"
    "flatten (ASM_INSTRUCTION_ARRAY code) = code" "\<forall>n \<in> set code. call_inst n"
    "\<forall>rs p bp m0 ws h out. reads_strings rs \<longrightarrow> has_data rs p (asm_data ctx1) \<longrightarrow> 24 \<le> bp \<longrightarrow> length ws \<le> 3 \<longrightarrow>
      triple p (stacked bp m0 ws h out) code
        (\<lambda>c. stacked bp m0 ws (h @ [Some (literal_value a)]) out c \<and> cpu_regs c ASM_INTEL_RAX = of_nat (Suc (length h)))"
    by (rule compile_expr_ok [OF a(1) Cons.prems(3) a(2)])
  let ?push = "ASM_INSTRUCTION ASM_INST_PUSH ASM_SUF_QWORD [ASM_OPERAND_REGISTER ASM_INTEL_RAX]"
  let ?new = "[ASM_INSTRUCTION_ARRAY code, ?push]"
  obtain more ctx2 where 2:
    "compile_args args (Suc c) (ASM_INSTRUCTION_ARRAY (cs @ ?new)) 0 ctx1 = Inr ((ASM_INSTRUCTION_ARRAY ((cs @ ?new) @ more), 0), ctx2)"
    "ctx_ok ctx2" "prefix (asm_data ctx1) (asm_data ctx2)" "length (asm_data ctx2) \<le> length (asm_data ctx1) + length args"
    "\<forall>n \<in> set (flatten (ASM_INSTRUCTION_ARRAY more)). call_inst n"
    "\<forall>rs p bp m0 ws h out. reads_strings rs \<longrightarrow> has_data rs p (asm_data ctx2) \<longrightarrow> 24 \<le> bp \<longrightarrow> length ws + length args \<le> 3 \<longrightarrow>
      triple p (stacked bp m0 ws h out) (flatten (ASM_INSTRUCTION_ARRAY more))
        (stacked bp m0 (ws @ pointers (length h) (length args)) (h @ map (\<lambda>a. Some (literal_value a)) args) out)"
    by (rule Cons.IH [where ctx = ctx1 and c = "Suc c" and cs = "cs @ ?new"]) (use Cons.prems 1(2,4) in auto)
  show ?case
  proof (rule Cons.prems(1) [of "?new @ more" ctx2])
    show "compile_args (a # args) c (ASM_INSTRUCTION_ARRAY cs) 0 ctx = Inr ((ASM_INSTRUCTION_ARRAY (cs @ ?new @ more), 0), ctx2)"
      using 2(1) Cons.prems(5) by (simp add: sbind_step 1(1))
    show "prefix (asm_data ctx) (asm_data ctx2)" using 1(3) 2(3) by simp
    show "length (asm_data ctx2) \<le> length (asm_data ctx) + length (a # args)" using 1(4) 2(4) by simp
    show "\<forall>n \<in> set (flatten (ASM_INSTRUCTION_ARRAY (?new @ more))). call_inst n"
      using 1(5,6) 2(5) by (auto simp: call_inst_def)
  next
    show "\<forall>rs p bp m0 ws h out. reads_strings rs \<longrightarrow> has_data rs p (asm_data ctx2) \<longrightarrow> 24 \<le> bp \<longrightarrow>
        length ws + length (a # args) \<le> 3 \<longrightarrow>
        triple p (stacked bp m0 ws h out) (flatten (ASM_INSTRUCTION_ARRAY (?new @ more)))
          (stacked bp m0 (ws @ pointers (length h) (length (a # args))) (h @ map (\<lambda>a. Some (literal_value a)) (a # args)) out)"
    proof (intro allI impI)
    fix rs p bp m0 ws h out
    assume h: "reads_strings rs" "has_data rs p (asm_data ctx2)" "24 \<le> (bp :: u64)" "length (ws :: u64 list) + length (a # args) \<le> 3"
    let ?h = "h @ [Some (literal_value a)]"
    have code: "flatten (ASM_INSTRUCTION_ARRAY (?new @ more)) = code @ ?push # flatten (ASM_INSTRUCTION_ARRAY more)"
      using 1(5) by simp
    have t1: "triple p (stacked bp m0 ws h out) code
        (\<lambda>c. stacked bp m0 ws ?h out c \<and> cpu_regs c ASM_INTEL_RAX = of_nat (Suc (length h)))"
      using h by (intro 1(7) [rule_format, OF h(1) has_data_prefix [OF h(2) 2(3)]]) simp_all
    have t2: "triple p (\<lambda>c. stacked bp m0 ws ?h out c \<and> cpu_regs c ASM_INTEL_RAX = of_nat (Suc (length h))) [?push]
        (stacked bp m0 (ws @ [of_nat (Suc (length h))]) ?h out)"
      using h by (intro push_register) simp_all
    have t3: "triple p (stacked bp m0 (ws @ [of_nat (Suc (length h))]) ?h out) (flatten (ASM_INSTRUCTION_ARRAY more))
        (stacked bp m0 ((ws @ [of_nat (Suc (length h))]) @ pointers (length ?h) (length args)) (?h @ map (\<lambda>a. Some (literal_value a)) args) out)"
      using h by (intro 2(6) [rule_format, OF h(1,2)]) simp_all
    have ws: "(ws @ [of_nat (Suc (length h))]) @ pointers (length ?h) (length args) = ws @ pointers (length h) (length (a # args))"
      "?h @ map (\<lambda>a. Some (literal_value a)) args = h @ map (\<lambda>a. Some (literal_value a)) (a # args)"
      by (simp_all add: pointers_Cons del: pointers_simps(3) of_nat_Suc)
    show "triple p (stacked bp m0 ws h out) (flatten (ASM_INSTRUCTION_ARRAY (?new @ more)))
        (stacked bp m0 (ws @ pointers (length h) (length (a # args))) (h @ map (\<lambda>a. Some (literal_value a)) (a # args)) out)"
      using triple_append [OF t1 triple_cons [OF t2 t3]] unfolding code ws .
    qed
  qed (rule 2(2))
qed

text \<open>The loads put the words of the frame into the argument registers.\<close>

definition load_inst :: "nat \<Rightarrow> asm_node" where
  "load_inst i = ASM_INSTRUCTION ASM_INST_MOV ASM_SUF_QWORD
     [ASM_OPERAND_ADDR_OFFSET_REG (- 8 * (int i + 1)) ASM_INTEL_RBP, ASM_OPERAND_REGISTER (argument_register i)]"

lemma args_load_code:
  "i + k \<le> 6 \<Longrightarrow> x86_64_compile_call_expr_args_load i k (ASM_INSTRUCTION_ARRAY cs) = ASM_INSTRUCTION_ARRAY (cs @ map load_inst [i..<i + k])"
proof (induction i k "ASM_INSTRUCTION_ARRAY cs" arbitrary: cs rule: x86_64_compile_call_expr_args_load.induct)
  case (2 i k)
  have "x86_64_compile_call_expr_args_load i (Suc k) (ASM_INSTRUCTION_ARRAY cs)
      = x86_64_compile_call_expr_args_load (Suc i) k (ASM_INSTRUCTION_ARRAY (cs @ [load_inst i]))"
    using 2(2) by (simp add: load_inst_def del: argument_register.simps)
  also have "\<dots> = ASM_INSTRUCTION_ARRAY ((cs @ [load_inst i]) @ map load_inst [Suc i..<Suc i + k])"
    using 2(2) by (intro 2(1)) (simp_all add: load_inst_def del: argument_register.simps)
  also have "\<dots> = ASM_INSTRUCTION_ARRAY (cs @ map load_inst [i..<i + Suc k])"
    by (simp add: upt_conv_Cons del: upt_Suc)
  finally show ?case .
qed simp

lemma argument_register_frame [simp]: "argument_register i \<noteq> ASM_INTEL_RSP" "argument_register i \<noteq> ASM_INTEL_RBP"
  by simp_all

lemma argument_register_inj: "i \<le> 5 \<Longrightarrow> j < i \<Longrightarrow> argument_register j \<noteq> argument_register i"
  by auto

definition loaded :: "nat \<Rightarrow> u64 list \<Rightarrow> cpu \<Rightarrow> bool" where
  "loaded n ws c \<longleftrightarrow> (\<forall>j < n. cpu_regs c (argument_register j) = ws ! j)"

lemma load_one:
  assumes "i < length ws" and "i \<le> 5"
  shows "triple p (\<lambda>c. stacked bp m0 ws h out c \<and> loaded i ws c) [load_inst i]
     (\<lambda>c. stacked bp m0 ws h out c \<and> loaded (Suc i) ws c)"
  unfolding load_inst_def
proof (rule triple_one)
  fix c assume c: "stacked bp m0 ws h out c \<and> loaded i ws c"
  let ?d = "reg_put (argument_register i) (ws ! i) c"
  have "cpu_mem c (cpu_regs c ASM_INTEL_RBP + of_int (- 8 * (int i + 1))) = ws ! i"
    using c assms(1) stacked_nth [of bp m0 ws h out c i] by blast
  then have "exec_inst p ASM_INST_MOV [ASM_OPERAND_ADDR_OFFSET_REG (- 8 * (int i + 1)) ASM_INTEL_RBP, ASM_OPERAND_REGISTER (argument_register i)] c = Inr ?d"
    by (simp add: exec_inst_def operand_value_def del: argument_register.simps)
  moreover have "stacked bp m0 ws h out (next_pc ?d)"
    using c by (simp add: stacked_reg_put del: argument_register.simps)
  moreover have "loaded (Suc i) ws (next_pc ?d)"
    using c argument_register_inj [OF assms(2)] by (auto simp: loaded_def less_Suc_eq simp del: argument_register.simps)
  ultimately show "\<exists>c'. exec_inst p ASM_INST_MOV [ASM_OPERAND_ADDR_OFFSET_REG (- 8 * (int i + 1)) ASM_INTEL_RBP, ASM_OPERAND_REGISTER (argument_register i)] c = Inr c' \<and>
      stacked bp m0 ws h out (next_pc c') \<and> loaded (Suc i) ws (next_pc c')"
    by blast
qed

lemma load_all:
  assumes "n \<le> length ws" and "n \<le> 6"
  shows "triple p (stacked bp m0 ws h out) (map load_inst [0..<n]) (\<lambda>c. stacked bp m0 ws h out c \<and> loaded n ws c)"
  using assms
proof (induction n)
  case 0
  show ?case by (simp add: triple_def loaded_def)
next
  case (Suc n)
  have "triple p (stacked bp m0 ws h out) (map load_inst [0..<n] @ [load_inst n]) (\<lambda>c. stacked bp m0 ws h out c \<and> loaded (Suc n) ws c)"
    using Suc by (intro triple_append [OF Suc.IH load_one]) simp_all
  then show ?case by simp
qed

text \<open>The call of \<^verbatim>\<open>println\<close>, with the count and the pointers in their registers.\<close>

lemma loaded_args:
  assumes "loaded (Suc (length vs)) (of_nat (length vs) # qs) c" and "length qs = length vs" and "length vs \<le> 2"
  shows "cpu_regs c ASM_INTEL_RDI = of_nat (length vs)" and "variadic_args c = qs"
proof -
  have reg: "cpu_regs c (argument_register j) = (of_nat (length vs) # qs) ! j" if "j < Suc (length vs)" for j
    using assms(1) that by (simp add: loaded_def del: argument_register.simps)
  show rdi: "cpu_regs c ASM_INTEL_RDI = of_nat (length vs)" using reg [of 0] by simp
  have "unat (of_nat (length vs) :: u64) = length vs" using assms(3) by (intro unat_index) simp
  moreover have "length vs = 0 \<or> length vs = 1 \<or> length vs = 2" using assms(3) by linarith
  moreover have "length vs \<ge> 1 \<Longrightarrow> cpu_regs c ASM_INTEL_RSI = qs ! 0" using reg [of 1] by (cases vs) auto
  moreover have "length vs = 2 \<Longrightarrow> cpu_regs c ASM_INTEL_RDX = qs ! 1" using reg [of 2] by simp
  ultimately show "variadic_args c = qs"
    using assms(2) rdi
    by (auto simp: variadic_args_def length_Suc_conv numeral_2_eq_2)
qed

lemma call_println:
  assumes "24 \<le> bp" and "length vs \<le> 2" and "h = h0 @ map Some vs" and "length h < 2 ^ 64"
    and "ws = of_nat (length vs) # pointers (length h0) (length vs)"
  shows "triple p (\<lambda>c. stacked bp m0 ws h out c \<and> loaded (Suc (length vs)) ws c)
     [ASM_INSTRUCTION ASM_INST_CALL s [ASM_OPERAND_IDENTIFIER ''libblaze_fn_println'']]
     (stacked bp m0 ws h (out @ libblaze_fn_println vs))"
proof (rule triple_one)
  fix c assume c: "stacked bp m0 ws h out c \<and> loaded (Suc (length vs)) ws c"
  have args: "cpu_regs c ASM_INTEL_RDI = of_nat (length vs)" "variadic_args c = pointers (length h0) (length vs)"
    using loaded_args [of vs "pointers (length h0) (length vs)" c] c assms(2,5) by simp_all
  have n: "unat (of_nat (length vs) :: u64) = length vs" using assms(2) by (intro unat_index) simp
  have "values_at c (pointers (length h0) (length vs)) = Inr vs"
    using c assms(3,4) by (intro values_at_pointers [where rest = "[]"]) (simp_all add: stacked_def)
  moreover have "stacked bp m0 ws h (out @ libblaze_fn_println vs)
      (after_library p v (c\<lparr> cpu_out := cpu_out c @ libblaze_fn_println vs \<rparr>))" for v
    using c by (intro stacked_library [of _ _ _ h out c]) (use assms in \<open>auto simp: stacked_def\<close>)
  ultimately show "\<exists>c'. exec_inst p ASM_INST_CALL [ASM_OPERAND_IDENTIFIER ''libblaze_fn_println''] c = Inr c' \<and>
      stacked bp m0 ws h (out @ libblaze_fn_println vs) (next_pc c')"
    using args n assms(2) by (simp add: exec_inst_def call_library_def)
qed

text \<open>The values are freed, the last one first.\<close>

definition free_insts :: "asm_node list" where
  "free_insts =
     [ASM_INSTRUCTION ASM_INST_POP ASM_SUF_QWORD [ASM_OPERAND_REGISTER ASM_INTEL_RDI],
      ASM_INSTRUCTION ASM_INST_CALL ASM_SUF_QWORD [ASM_OPERAND_IDENTIFIER ''libblaze_val_free'']]"

lemma free_values_code:
  "free_values k (ASM_INSTRUCTION_ARRAY cs) = ASM_INSTRUCTION_ARRAY (cs @ concat (replicate k free_insts))"
  by (induction k arbitrary: cs) (simp_all add: free_insts_def)

lemma free_all:
  assumes "24 \<le> bp" and "length ws + length vs \<le> 3" and "length (h0 @ map Some vs @ rest) < 2 ^ 64"
  shows "triple p (stacked bp m0 (ws @ pointers (length h0) (length vs)) (h0 @ map Some vs @ rest) out)
     (concat (replicate (length vs) free_insts)) (stacked bp m0 ws (h0 @ replicate (length vs) None @ rest) out)"
  using assms(2,3)
proof (induction vs arbitrary: rest rule: rev_induct)
  case Nil
  show ?case by (simp add: triple_nil)
next
  case (snoc v vs)
  let ?n = "length vs"
  let ?h = "h0 @ map Some vs @ Some v # rest"
  have upd: "?h[length h0 + ?n := None] = h0 @ map Some vs @ None # rest"
    by (simp add: list_update_append)
  have "triple p (stacked bp m0 ((ws @ pointers (length h0) ?n) @ [of_nat (Suc (length h0 + ?n))]) ?h out)
      free_insts (stacked bp m0 (ws @ pointers (length h0) ?n) (?h[length h0 + ?n := None]) out)"
    unfolding free_insts_def using snoc.prems
    by (intro pop_and_free [where v = v] assms(1)) (simp_all add: nth_append)
  moreover have "triple p (stacked bp m0 (ws @ pointers (length h0) ?n) (h0 @ map Some vs @ None # rest) out)
      (concat (replicate ?n free_insts)) (stacked bp m0 ws (h0 @ replicate ?n None @ None # rest) out)"
    using snoc.prems by (intro snoc.IH) simp_all
  ultimately have "triple p (stacked bp m0 ((ws @ pointers (length h0) ?n) @ [of_nat (Suc (length h0 + ?n))]) ?h out)
      (free_insts @ concat (replicate ?n free_insts)) (stacked bp m0 ws (h0 @ replicate ?n None @ None # rest) out)"
    unfolding upd by (rule triple_append)
  then show ?case
    by (simp add: replicate_app_Cons_same del: of_nat_Suc)
qed

end
