(* ===== verification/Compile_Program.thy ===== *)
theory Compile_Program
  imports Compile_Correct
begin

text \<open>
  Compiled programs: the code of a call and of a sequence of calls, and the theorem that a compiled
  program prints what its calls mean.
\<close>

section \<open>Calls\<close>

lemma compile_call_ok:
  assumes "println_ok node" and "ctx_ok ctx" and "length (asm_data ctx) + 2 < 2 ^ 64"
  obtains code ctx' where
    "x86_64_compile node ctx = Inr (ASM_INSTRUCTION_ARRAY code, ctx')" and "ctx_ok ctx'"
    and "prefix (asm_data ctx) (asm_data ctx')" and "length (asm_data ctx') \<le> length (asm_data ctx) + 2"
    and "\<forall>n \<in> set (flatten (ASM_INSTRUCTION_ARRAY code)). call_inst n"
    and "\<forall>rs p bp m0 h out. reads_strings rs \<longrightarrow> has_data rs p (asm_data ctx') \<longrightarrow> 24 \<le> bp \<longrightarrow> length h + 2 < 2 ^ 64 \<longrightarrow>
      triple p (stacked bp m0 [] h out) (flatten (ASM_INSTRUCTION_ARRAY code))
        (stacked bp m0 [] (h @ replicate (length (println_args node)) None) (out @ libblaze_fn_println (println_args node)))"
proof -
  obtain l args where node: "node = NODE_EXPR_CALL l ''println'' args" and args: "length args \<le> 2" "\<forall>a \<in> set args. literal_ok a"
    using assms(1) by (auto simp: println_ok_def split: ast_node.splits)
  let ?n = "length args" and ?vs = "map literal_value args"
  let ?mov = "ASM_INSTRUCTION ASM_INST_MOV ASM_SUF_QWORD [IMM64 (int ?n), ASM_OPERAND_REGISTER ASM_INTEL_RDI]"
  let ?push = "ASM_INSTRUCTION ASM_INST_PUSH ASM_SUF_QWORD [ASM_OPERAND_REGISTER ASM_INTEL_RDI]"
  let ?call = "ASM_INSTRUCTION ASM_INST_CALL ASM_SUF_QWORD [ASM_OPERAND_IDENTIFIER ''libblaze_fn_println'']"
  let ?add = "ASM_INSTRUCTION ASM_INST_ADD ASM_SUF_QWORD [IMM64 8, ASM_OPERAND_REGISTER ASM_INTEL_RSP]"
  obtain acode ctx' where A:
    "compile_args args 1 (ASM_INSTRUCTION_ARRAY [?mov, ?push]) 0 ctx = Inr ((ASM_INSTRUCTION_ARRAY ([?mov, ?push] @ acode), 0), ctx')" "ctx_ok ctx'"
    "prefix (asm_data ctx) (asm_data ctx')" "length (asm_data ctx') \<le> length (asm_data ctx) + ?n"
    "\<forall>n \<in> set (flatten (ASM_INSTRUCTION_ARRAY acode)). call_inst n"
    "\<forall>rs p bp m0 ws h out. reads_strings rs \<longrightarrow> has_data rs p (asm_data ctx') \<longrightarrow> 24 \<le> bp \<longrightarrow> length ws + ?n \<le> 3 \<longrightarrow>
      triple p (stacked bp m0 ws h out) (flatten (ASM_INSTRUCTION_ARRAY acode))
        (stacked bp m0 (ws @ pointers (length h) ?n) (h @ map (\<lambda>a. Some (literal_value a)) args) out)"
    by (rule compile_args_ok [OF args(2) assms(2), of 1 "[?mov, ?push]"]) (use args(1) assms(3) in auto)
  let ?loads = "map load_inst [0..<Suc ?n]" and ?frees = "concat (replicate ?n free_insts)"
  let ?code = "[?mov, ?push] @ acode @ ?loads @ [?call] @ ?frees @ [?add]"
  have load: "x86_64_compile_call_expr_args_load 0 (Suc ?n) (ASM_INSTRUCTION_ARRAY cs) = ASM_INSTRUCTION_ARRAY (cs @ ?loads)" for cs
    using args(1) args_load_code [of 0 "Suc ?n" cs] by simp
  have compile: "x86_64_compile node ctx = Inr (ASM_INSTRUCTION_ARRAY ?code, ctx')"
    using args(1) A(1)
    by (simp add: node x86_64_compile_call_expr_def builtin_function_defs_def asm_create_inst_array_def
        x86_64_compile_call_expr_args_def sbind_step load free_values_code x86_64_compile_call_expr_free_values_def Let_def
        del: x86_64_compile_call_expr_args_load.simps upt_Suc)
  have flat: "flatten (ASM_INSTRUCTION_ARRAY ?code)
      = ?mov # ?push # flatten (ASM_INSTRUCTION_ARRAY acode) @ ?loads @ ?call # ?frees @ [?add]"
  proof -
    have loads: "concat (map flatten ?loads) = ?loads"
      by (simp add: load_inst_def comp_def concat_map_singleton del: upt_Suc argument_register.simps)
    have "concat (map flatten (concat (replicate k free_insts))) = concat (replicate k free_insts)" for k
      by (induction k) (simp_all add: free_insts_def)
    then show ?thesis using loads by (simp del: upt_Suc)
  qed
  have inst: "call_inst n" if n: "n \<in> set (flatten (ASM_INSTRUCTION_ARRAY ?code))" for n
  proof -
    have "call_inst ?mov" "call_inst ?push" "call_inst ?call" "call_inst ?add"
      by (simp_all add: call_inst_def library_names_def)
    moreover have "\<forall>n \<in> set ?loads. call_inst n" by (auto simp: call_inst_def load_inst_def)
    moreover have "\<forall>n \<in> set ?frees. call_inst n" by (auto simp: call_inst_def free_insts_def library_names_def)
    ultimately show ?thesis using n A(5) unfolding flat by auto
  qed
  have run: "triple p (stacked bp m0 [] h out) (flatten (ASM_INSTRUCTION_ARRAY ?code))
        (stacked bp m0 [] (h @ replicate ?n None) (out @ libblaze_fn_println ?vs))"
    if that: "reads_strings rs" "has_data rs p (asm_data ctx')" "24 \<le> bp" "length h + 2 < 2 ^ 64" for rs p bp m0 h out
  proof -
    let ?w = "of_nat ?n :: u64"
    let ?ws = "[?w] @ pointers (length h) ?n" and ?h = "h @ map Some ?vs"
    have 1: "triple p (stacked bp m0 [] h out) [?mov] (\<lambda>c. stacked bp m0 [] h out c \<and> cpu_regs c ASM_INTEL_RDI = ?w)"
      using mov_number [of ASM_INTEL_RDI p bp m0 "[]" h out ASM_SUF_QWORD "int ?n"] by simp
    have 2: "triple p (\<lambda>c. stacked bp m0 [] h out c \<and> cpu_regs c ASM_INTEL_RDI = ?w) [?push] (stacked bp m0 [?w] h out)"
      using push_register [OF that(3), of "[]"] by simp
    have 3: "triple p (stacked bp m0 [?w] h out) (flatten (ASM_INSTRUCTION_ARRAY acode)) (stacked bp m0 ?ws ?h out)"
      using A(6) [rule_format, OF that(1-3), of "[?w]"] args(1) by (simp add: comp_def)
    have 4: "triple p (stacked bp m0 ?ws ?h out) ?loads (\<lambda>c. stacked bp m0 ?ws ?h out c \<and> loaded (Suc ?n) ?ws c)"
      using args(1) by (intro load_all) simp_all
    have 5: "triple p (\<lambda>c. stacked bp m0 ?ws ?h out c \<and> loaded (Suc ?n) ?ws c) [?call]
        (stacked bp m0 ?ws ?h (out @ libblaze_fn_println ?vs))"
      using call_println [OF that(3), of ?vs ?h h ?ws p m0 out ASM_SUF_QWORD] args(1) that(4) by simp
    have 6: "triple p (stacked bp m0 ?ws ?h (out @ libblaze_fn_println ?vs)) ?frees
        (stacked bp m0 [?w] (h @ replicate ?n None) (out @ libblaze_fn_println ?vs))"
      using free_all [OF that(3), of "[?w]" ?vs h "[]" p m0 "out @ libblaze_fn_println ?vs"] args(1) that(4) by simp
    have 7: "triple p (stacked bp m0 [?w] (h @ replicate ?n None) (out @ libblaze_fn_println ?vs)) [?add]
        (stacked bp m0 [] (h @ replicate ?n None) (out @ libblaze_fn_println ?vs))"
      using add_8 [of p bp m0 "[]" ?w] by simp
    show ?thesis
      unfolding flat
      by (rule triple_cons [OF 1 triple_cons [OF 2 triple_append [OF 3 triple_append [OF 4 triple_cons [OF 5 triple_append [OF 6 7]]]]]])
  qed
  show ?thesis
  proof (rule that [OF compile A(2,3)])
    show "length (asm_data ctx') \<le> length (asm_data ctx) + 2" using A(4) args(1) by simp
    show "\<forall>n \<in> set (flatten (ASM_INSTRUCTION_ARRAY ?code)). call_inst n" using inst by blast
    show "\<forall>rs p bp m0 h out. reads_strings rs \<longrightarrow> has_data rs p (asm_data ctx') \<longrightarrow> 24 \<le> bp \<longrightarrow> length h + 2 < 2 ^ 64 \<longrightarrow>
      triple p (stacked bp m0 [] h out) (flatten (ASM_INSTRUCTION_ARRAY ?code))
        (stacked bp m0 [] (h @ replicate (length (println_args node)) None) (out @ libblaze_fn_println (println_args node)))"
      using run by (simp add: node println_args_def)
  qed
qed

section \<open>Sequences of calls\<close>

definition program_writes :: "ast_node list \<Rightarrow> rt_write list" where
  "program_writes nodes = concat (map (\<lambda>node. libblaze_fn_println (println_args node)) nodes)"

definition values_made :: "ast_node list \<Rightarrow> nat" where
  "values_made nodes = sum_list (map (\<lambda>node. length (println_args node)) nodes)"

lemma println_args_length: "println_ok node \<Longrightarrow> length (println_args node) \<le> 2"
  by (auto simp: println_ok_def println_args_def split: ast_node.splits)

lemma compile_nodes_ok:
  assumes "\<forall>node \<in> set nodes. println_ok node" and "ctx_ok ctx" and "length (asm_data ctx) + 2 * length nodes < 2 ^ 64"
  obtains code ctx' where
    "compile_nodes x86_64_compile nodes (ASM_ROOT cs) ctx = Inr (ASM_ROOT (cs @ code), ctx')" and "ctx_ok ctx'"
    and "prefix (asm_data ctx) (asm_data ctx')" and "\<forall>n \<in> set (concat (map flatten code)). call_inst n"
    and "\<forall>rs p bp m0 h out. reads_strings rs \<longrightarrow> has_data rs p (asm_data ctx') \<longrightarrow> 24 \<le> bp \<longrightarrow> length h + 2 * length nodes < 2 ^ 64 \<longrightarrow>
      triple p (stacked bp m0 [] h out) (concat (map flatten code))
        (stacked bp m0 [] (h @ replicate (values_made nodes) None) (out @ program_writes nodes))"
  using assms
proof (induction nodes arbitrary: cs ctx thesis)
  case Nil
  show ?case by (rule Nil(1) [of "[]" ctx]) (use Nil in \<open>auto intro: triple_nil simp: values_made_def program_writes_def\<close>)
next
  case (Cons node nodes)
  have n: "println_ok node" "length (asm_data ctx) + 2 < 2 ^ 64" using Cons.prems by simp_all
  obtain c1 ctx1 where 1:
    "x86_64_compile node ctx = Inr (ASM_INSTRUCTION_ARRAY c1, ctx1)" "ctx_ok ctx1"
    "prefix (asm_data ctx) (asm_data ctx1)" "length (asm_data ctx1) \<le> length (asm_data ctx) + 2"
    "\<forall>n \<in> set (flatten (ASM_INSTRUCTION_ARRAY c1)). call_inst n"
    "\<forall>rs p bp m0 h out. reads_strings rs \<longrightarrow> has_data rs p (asm_data ctx1) \<longrightarrow> 24 \<le> bp \<longrightarrow> length h + 2 < 2 ^ 64 \<longrightarrow>
      triple p (stacked bp m0 [] h out) (flatten (ASM_INSTRUCTION_ARRAY c1))
        (stacked bp m0 [] (h @ replicate (length (println_args node)) None) (out @ libblaze_fn_println (println_args node)))"
    by (rule compile_call_ok [OF n(1) Cons.prems(3) n(2)])
  obtain more ctx2 where 2:
    "compile_nodes x86_64_compile nodes (ASM_ROOT (cs @ [ASM_INSTRUCTION_ARRAY c1])) ctx1
       = Inr (ASM_ROOT ((cs @ [ASM_INSTRUCTION_ARRAY c1]) @ more), ctx2)" "ctx_ok ctx2"
    "prefix (asm_data ctx1) (asm_data ctx2)" "\<forall>n \<in> set (concat (map flatten more)). call_inst n"
    "\<forall>rs p bp m0 h out. reads_strings rs \<longrightarrow> has_data rs p (asm_data ctx2) \<longrightarrow> 24 \<le> bp \<longrightarrow> length h + 2 * length nodes < 2 ^ 64 \<longrightarrow>
      triple p (stacked bp m0 [] h out) (concat (map flatten more))
        (stacked bp m0 [] (h @ replicate (values_made nodes) None) (out @ program_writes nodes))"
    by (rule Cons.IH [where ctx = ctx1 and cs = "cs @ [ASM_INSTRUCTION_ARRAY c1]"]) (use Cons.prems 1(2,4) in auto)
  show ?case
  proof (rule Cons.prems(1) [of "ASM_INSTRUCTION_ARRAY c1 # more" ctx2])
    show "compile_nodes x86_64_compile (node # nodes) (ASM_ROOT cs) ctx = Inr (ASM_ROOT (cs @ ASM_INSTRUCTION_ARRAY c1 # more), ctx2)"
      using 2(1) by (simp add: sbind_step 1(1))
    show "prefix (asm_data ctx) (asm_data ctx2)" using 1(3) 2(3) by simp
    show "\<forall>n \<in> set (concat (map flatten (ASM_INSTRUCTION_ARRAY c1 # more))). call_inst n"
      using 1(5) 2(4) by auto
    show "\<forall>rs p bp m0 h out. reads_strings rs \<longrightarrow> has_data rs p (asm_data ctx2) \<longrightarrow> 24 \<le> bp \<longrightarrow>
        length h + 2 * length (node # nodes) < 2 ^ 64 \<longrightarrow>
        triple p (stacked bp m0 [] h out) (concat (map flatten (ASM_INSTRUCTION_ARRAY c1 # more)))
          (stacked bp m0 [] (h @ replicate (values_made (node # nodes)) None) (out @ program_writes (node # nodes)))"
    proof (intro allI impI)
      fix rs p bp m0 h out
      assume h: "reads_strings rs" "has_data rs p (asm_data ctx2)" "24 \<le> (bp :: u64)" "length (h :: rt_value option list) + 2 * length (node # nodes) < 2 ^ 64"
      let ?h = "h @ replicate (length (println_args node)) None" and ?out = "out @ libblaze_fn_println (println_args node)"
      have t1: "triple p (stacked bp m0 [] h out) (flatten (ASM_INSTRUCTION_ARRAY c1)) (stacked bp m0 [] ?h ?out)"
        using h(4) by (intro 1(6) [rule_format, OF h(1) has_data_prefix [OF h(2) 2(3)] h(3)]) simp
      have t2: "triple p (stacked bp m0 [] ?h ?out) (concat (map flatten more))
          (stacked bp m0 [] (?h @ replicate (values_made nodes) None) (?out @ program_writes nodes))"
        using h(4) println_args_length [OF n(1)] by (intro 2(5) [rule_format, OF h(1-3)]) simp
      have "?h @ replicate (values_made nodes) None = h @ replicate (values_made (node # nodes)) None"
        "?out @ program_writes nodes = out @ program_writes (node # nodes)"
        "concat (map flatten (ASM_INSTRUCTION_ARRAY c1 # more)) = flatten (ASM_INSTRUCTION_ARRAY c1) @ concat (map flatten more)"
        by (simp_all add: values_made_def program_writes_def replicate_add)
      then show "triple p (stacked bp m0 [] h out) (concat (map flatten (ASM_INSTRUCTION_ARRAY c1 # more)))
          (stacked bp m0 [] (h @ replicate (values_made (node # nodes)) None) (out @ program_writes (node # nodes)))"
        using triple_append [OF t1 t2] by (simp only:)
    qed
  qed (rule 2(2))
qed

section \<open>Programs\<close>

definition start_code :: "asm_node list" where
  "start_code =
     [ASM_DIRECTIVE ''globl'' ''_start'',
      ASM_LABEL ''_start'',
      ASM_INSTRUCTION ASM_INST_CALL ASM_SUF_QWORD [ASM_OPERAND_IDENTIFIER ''main''],
      ASM_INSTRUCTION ASM_INST_MOV ASM_SUF_QWORD [IMM64 0, ASM_OPERAND_REGISTER ASM_INTEL_RDI],
      ASM_INSTRUCTION ASM_INST_CALL ASM_SUF_QWORD [ASM_OPERAND_IDENTIFIER ''exit''],
      ASM_LABEL ''main'',
      ASM_INSTRUCTION ASM_INST_PUSH ASM_SUF_QWORD [ASM_OPERAND_REGISTER ASM_INTEL_RBP],
      ASM_INSTRUCTION ASM_INST_MOV ASM_SUF_QWORD [ASM_OPERAND_REGISTER ASM_INTEL_RSP, ASM_OPERAND_REGISTER ASM_INTEL_RBP]]"

definition end_code :: "asm_node list" where
  "end_code =
     [ASM_INSTRUCTION ASM_INST_POP ASM_SUF_QWORD [ASM_OPERAND_REGISTER ASM_INTEL_RBP],
      ASM_INSTRUCTION ASM_INST_RET ASM_SUF_QWORD []]"

lemma push_to_root [simp]:
  "asm_node_children_push (ASM_ROOT cs) n = ASM_ROOT (cs @ [n])"
  "asm_push_inst_bin_op (ASM_ROOT cs) inst s x y = ASM_ROOT (cs @ [ASM_INSTRUCTION inst s [x, y]])"
  "asm_push_inst_mono_op (ASM_ROOT cs) inst s x = ASM_ROOT (cs @ [ASM_INSTRUCTION inst s [x]])"
  "asm_push_inst_no_op (ASM_ROOT cs) inst s = ASM_ROOT (cs @ [ASM_INSTRUCTION inst s []])"
  by (simp_all add: asm_push_inst_bin_op_def asm_push_inst_mono_op_def asm_push_inst_no_op_def
      asm_create_inst_bin_op_def asm_create_inst_mono_op_def)

lemma compile_program_ok:
  assumes "\<forall>node \<in> set nodes. println_ok node" and "length nodes < 2 ^ 62"
  obtains body ctx where
    "compile (NODE_ROOT l nodes) (compilation_context_create ARCH_X86_64) = Inr (ASM_ROOT (start_code @ body @ end_code), ctx)"
    and "ctx_ok ctx" and "\<forall>n \<in> set (concat (map flatten body)). call_inst n"
    and "\<forall>rs p bp m0. reads_strings rs \<longrightarrow> has_data rs p (asm_data ctx) \<longrightarrow> 24 \<le> bp \<longrightarrow>
      triple p (stacked bp m0 [] [] []) (concat (map flatten body))
        (stacked bp m0 [] (replicate (values_made nodes) None) (program_writes nodes))"
proof -
  let ?ctx = "compilation_context_create ARCH_X86_64"
  have ctx: "ctx_ok ?ctx" "length (asm_data ?ctx) + 2 * length nodes < 2 ^ 64" "ctx_arch ?ctx = ARCH_X86_64"
    using assms(2) by (simp_all add: compilation_context_create_def ctx_ok_def)
  obtain body ctx where 1:
    "compile_nodes x86_64_compile nodes (ASM_ROOT start_code) ?ctx = Inr (ASM_ROOT (start_code @ body), ctx)" "ctx_ok ctx"
    "prefix (asm_data ?ctx) (asm_data ctx)" "\<forall>n \<in> set (concat (map flatten body)). call_inst n"
    "\<forall>rs p bp m0 h out. reads_strings rs \<longrightarrow> has_data rs p (asm_data ctx) \<longrightarrow> 24 \<le> bp \<longrightarrow> length h + 2 * length nodes < 2 ^ 64 \<longrightarrow>
      triple p (stacked bp m0 [] h out) (concat (map flatten body))
        (stacked bp m0 [] (h @ replicate (values_made nodes) None) (out @ program_writes nodes))"
    by (rule compile_nodes_ok [OF assms(1) ctx(1,2)])
  have start: "x86_64_setup_frame (asm_node_children_push (x86_64_compile_root_start (ASM_ROOT [])) (ASM_LABEL ''main'')) = ASM_ROOT start_code"
    by (simp add: x86_64_setup_frame_def x86_64_compile_root_start_def start_code_def)
  have "compile (NODE_ROOT l nodes) ?ctx = Inr (ASM_ROOT (start_code @ body @ end_code), ctx)"
    using 1(1) by (simp add: compile_def sbind_step ctx(3) x86_64_compile_root_def start x86_64_restore_frame_def end_code_def Let_def)
  moreover have "\<forall>rs p bp m0. reads_strings rs \<longrightarrow> has_data rs p (asm_data ctx) \<longrightarrow> 24 \<le> bp \<longrightarrow>
      triple p (stacked bp m0 [] [] []) (concat (map flatten body))
        (stacked bp m0 [] (replicate (values_made nodes) None) (program_writes nodes))"
    using 1(5) [rule_format, where h = "[]" and out = "[]"] assms(2) by auto
  ultimately show ?thesis by (rule that [OF _ 1(2,4)])
qed

section \<open>Running\<close>

lemma index_of_None: "index_of x xs = None \<longleftrightarrow> x \<notin> set xs"
  by (induction xs) auto

lemma no_label: "call_inst n \<Longrightarrow> n \<noteq> ASM_LABEL f"
  by (auto simp: call_inst_def)

text \<open>The code of a program: the start, the body and the end.\<close>

definition program_code :: "prog \<Rightarrow> asm_node list \<Rightarrow> bool" where
  "program_code p body \<longleftrightarrow> prog_code p = start_code @ body @ end_code \<and> (\<forall>n \<in> set body. call_inst n)"

lemma program_labels:
  assumes "program_code p body"
  shows "index_of (ASM_LABEL ''_start'') (prog_code p) = Some 1" and "index_of (ASM_LABEL ''main'') (prog_code p) = Some 5"
    and "index_of (ASM_LABEL ''exit'') (prog_code p) = None" and "has_library p"
proof -
  have none: "index_of (ASM_LABEL f) (prog_code p) = None" if "f \<noteq> ''_start''" "f \<noteq> ''main''" for f
    using assms that by (auto simp: index_of_None program_code_def start_code_def end_code_def dest: no_label)
  show "index_of (ASM_LABEL ''_start'') (prog_code p) = Some 1" "index_of (ASM_LABEL ''main'') (prog_code p) = Some 5"
    using assms by (simp_all add: program_code_def start_code_def)
  show "index_of (ASM_LABEL ''exit'') (prog_code p) = None" "has_library p"
    unfolding has_library_def library_names_def by (auto intro!: none)
qed

lemma program_nth:
  assumes "program_code p body"
  shows "prog_code p ! 1 = ASM_LABEL ''_start''"
    and "prog_code p ! 2 = ASM_INSTRUCTION ASM_INST_CALL ASM_SUF_QWORD [ASM_OPERAND_IDENTIFIER ''main'']"
    and "prog_code p ! 3 = ASM_INSTRUCTION ASM_INST_MOV ASM_SUF_QWORD [IMM64 0, ASM_OPERAND_REGISTER ASM_INTEL_RDI]"
    and "prog_code p ! 4 = ASM_INSTRUCTION ASM_INST_CALL ASM_SUF_QWORD [ASM_OPERAND_IDENTIFIER ''exit'']"
    and "prog_code p ! 5 = ASM_LABEL ''main''"
    and "prog_code p ! 6 = ASM_INSTRUCTION ASM_INST_PUSH ASM_SUF_QWORD [ASM_OPERAND_REGISTER ASM_INTEL_RBP]"
    and "prog_code p ! 7 = ASM_INSTRUCTION ASM_INST_MOV ASM_SUF_QWORD [ASM_OPERAND_REGISTER ASM_INTEL_RSP, ASM_OPERAND_REGISTER ASM_INTEL_RBP]"
    and "prog_code p ! (8 + length body) = ASM_INSTRUCTION ASM_INST_POP ASM_SUF_QWORD [ASM_OPERAND_REGISTER ASM_INTEL_RBP]"
    and "prog_code p ! (9 + length body) = ASM_INSTRUCTION ASM_INST_RET ASM_SUF_QWORD []"
    and "length (prog_code p) = 10 + length body"
  using assms by (simp_all add: program_code_def start_code_def end_code_def nth_append)

text \<open>One step, by the kind of the node at the program counter \<open>k\<close>.\<close>

definition at_node :: "prog \<Rightarrow> cpu \<Rightarrow> asm_node \<Rightarrow> bool" where
  "at_node p c n \<longleftrightarrow> cpu_exit c = None \<and> cpu_pc c < length (prog_code p) \<and> prog_code p ! cpu_pc c = n"

lemma cpu_step_label: "at_node p c (ASM_LABEL f) \<Longrightarrow> cpu_step p c = Inr (next_pc c)"
  by (simp add: at_node_def cpu_step_def)

lemma cpu_step_mov:
  "at_node p c (ASM_INSTRUCTION ASM_INST_MOV s [x, ASM_OPERAND_REGISTER r]) \<Longrightarrow> operand_value p c x = Inr v \<Longrightarrow>
   cpu_step p c = Inr (next_pc (reg_put r v c))"
  by (simp add: at_node_def cpu_step_def exec_inst_def)

lemma cpu_step_push:
  "at_node p c (ASM_INSTRUCTION ASM_INST_PUSH s [x]) \<Longrightarrow> operand_value p c x = Inr v \<Longrightarrow> cpu_step p c = Inr (next_pc (push_word v c))"
  by (simp add: at_node_def cpu_step_def exec_inst_def)

lemma cpu_step_pop:
  "at_node p c (ASM_INSTRUCTION ASM_INST_POP s [ASM_OPERAND_REGISTER r]) \<Longrightarrow>
   cpu_step p c = Inr (next_pc (reg_put r (top_word c) (drop_word c)))"
  by (simp add: at_node_def cpu_step_def exec_inst_def)

lemma cpu_step_ret:
  "at_node p c (ASM_INSTRUCTION ASM_INST_RET s []) \<Longrightarrow> cpu_step p c = Inr ((drop_word c)\<lparr> cpu_pc := unat (top_word c) \<rparr>)"
  by (simp add: at_node_def cpu_step_def)

lemma cpu_step_call:
  "at_node p c (ASM_INSTRUCTION ASM_INST_CALL s [ASM_OPERAND_IDENTIFIER f]) \<Longrightarrow> index_of (ASM_LABEL f) (prog_code p) = Some k \<Longrightarrow>
   cpu_step p c = Inr ((push_word (of_nat (Suc (cpu_pc c))) c)\<lparr> cpu_pc := k \<rparr>)"
  by (simp add: at_node_def cpu_step_def)

lemma cpu_step_library:
  "at_node p c (ASM_INSTRUCTION ASM_INST_CALL s [ASM_OPERAND_IDENTIFIER f]) \<Longrightarrow> index_of (ASM_LABEL f) (prog_code p) = None \<Longrightarrow>
   cpu_step p c = map_sum id next_pc (call_library p f c)"
  by (simp add: at_node_def cpu_step_def exec_inst_def)

lemma at_program:
  assumes "program_code p body" and "cpu_exit c = None"
  shows "cpu_pc c = 1 \<Longrightarrow> at_node p c (ASM_LABEL ''_start'')"
    and "cpu_pc c = 2 \<Longrightarrow> at_node p c (ASM_INSTRUCTION ASM_INST_CALL ASM_SUF_QWORD [ASM_OPERAND_IDENTIFIER ''main''])"
    and "cpu_pc c = 3 \<Longrightarrow> at_node p c (ASM_INSTRUCTION ASM_INST_MOV ASM_SUF_QWORD [IMM64 0, ASM_OPERAND_REGISTER ASM_INTEL_RDI])"
    and "cpu_pc c = 4 \<Longrightarrow> at_node p c (ASM_INSTRUCTION ASM_INST_CALL ASM_SUF_QWORD [ASM_OPERAND_IDENTIFIER ''exit''])"
    and "cpu_pc c = 5 \<Longrightarrow> at_node p c (ASM_LABEL ''main'')"
    and "cpu_pc c = 6 \<Longrightarrow> at_node p c (ASM_INSTRUCTION ASM_INST_PUSH ASM_SUF_QWORD [ASM_OPERAND_REGISTER ASM_INTEL_RBP])"
    and "cpu_pc c = 7 \<Longrightarrow> at_node p c (ASM_INSTRUCTION ASM_INST_MOV ASM_SUF_QWORD [ASM_OPERAND_REGISTER ASM_INTEL_RSP, ASM_OPERAND_REGISTER ASM_INTEL_RBP])"
    and "cpu_pc c = 8 + length body \<Longrightarrow> at_node p c (ASM_INSTRUCTION ASM_INST_POP ASM_SUF_QWORD [ASM_OPERAND_REGISTER ASM_INTEL_RBP])"
    and "cpu_pc c = 9 + length body \<Longrightarrow> at_node p c (ASM_INSTRUCTION ASM_INST_RET ASM_SUF_QWORD [])"
  using assms(2) program_nth [OF assms(1)] by (simp_all add: at_node_def)

text \<open>From the start to the frame of \<^verbatim>\<open>main\<close>: the return address and the base pointer are on the stack.\<close>

lemma enter_main:
  assumes "program_code p body" and "40 \<le> sp"
  obtains c where "cpu_run 5 p (start_cpu p sp regs mem) = Inr c" and "cpu_pc c = 8"
    and "stacked (sp - 16) (cpu_mem c) [] [] [] c" and "cpu_mem c (sp - 16 + 8) = 3"
proof -
  note at = at_program [OF assms(1)]
  define c0 where "c0 = start_cpu p sp regs mem"
  have f0: "cpu_exit c0 = None" "cpu_pc c0 = 1" "cpu_regs c0 ASM_INTEL_RSP = sp" "cpu_heap c0 = []" "cpu_out c0 = []"
    by (simp_all add: c0_def start_cpu_def program_labels [OF assms(1)])
  define c1 where "c1 = next_pc c0"
  have 1: "cpu_step p c0 = Inr c1" unfolding c1_def by (rule cpu_step_label [OF at(1)]) (simp_all add: f0)
  have f1: "cpu_exit c1 = None" "cpu_pc c1 = 2" "cpu_regs c1 ASM_INTEL_RSP = sp" "cpu_heap c1 = []" "cpu_out c1 = []"
    by (simp_all add: c1_def f0)
  define c2 where "c2 = (push_word (of_nat (Suc (cpu_pc c1))) c1)\<lparr> cpu_pc := 5 \<rparr>"
  have 2: "cpu_step p c1 = Inr c2"
    unfolding c2_def by (rule cpu_step_call [OF at(2) program_labels(2) [OF assms(1)]]) (simp_all add: f1)
  have f2: "cpu_exit c2 = None" "cpu_pc c2 = 5" "cpu_regs c2 ASM_INTEL_RSP = sp - 8" "cpu_heap c2 = []" "cpu_out c2 = []"
    "cpu_mem c2 (sp - 8) = 3"
    by (simp_all add: c2_def f1)
  define c3 where "c3 = next_pc c2"
  have 3: "cpu_step p c2 = Inr c3" unfolding c3_def by (rule cpu_step_label [OF at(5)]) (simp_all add: f2)
  have f3: "cpu_exit c3 = None" "cpu_pc c3 = 6" "cpu_regs c3 ASM_INTEL_RSP = sp - 8" "cpu_heap c3 = []" "cpu_out c3 = []"
    "cpu_mem c3 (sp - 8) = 3"
    by (simp_all add: c3_def f2)
  define c4 where "c4 = next_pc (push_word (cpu_regs c3 ASM_INTEL_RBP) c3)"
  have 4: "cpu_step p c3 = Inr c4"
    unfolding c4_def by (rule cpu_step_push [OF at(6)]) (simp_all add: f3 operand_value_def)
  have f4: "cpu_exit c4 = None" "cpu_pc c4 = 7" "cpu_regs c4 ASM_INTEL_RSP = sp - 16" "cpu_heap c4 = []" "cpu_out c4 = []"
    "cpu_mem c4 (sp - 8) = 3"
    by (simp_all add: c4_def f3)
  define c5 where "c5 = next_pc (reg_put ASM_INTEL_RBP (sp - 16) c4)"
  have 5: "cpu_step p c4 = Inr c5"
    unfolding c5_def by (rule cpu_step_mov [OF at(7)]) (simp_all add: f4 operand_value_def)
  have "cpu_run 5 p c0 = Inr c5"
    using 1 2 3 4 5 by (simp add: numeral_nat)
  moreover have "cpu_pc c5 = 8" "stacked (sp - 16) (cpu_mem c5) [] [] [] c5" "cpu_mem c5 (sp - 16 + 8) = 3"
    using f4 by (simp_all add: c5_def stacked_def)
  ultimately show ?thesis using that by (simp add: c0_def)
qed

text \<open>From the end of the frame to the end of the program.\<close>

lemma leave_main:
  assumes "program_code p body" and "stacked bp m0 [] h out c" and "cpu_pc c = 8 + length body" and "m0 (bp + 8) = 3" and "bp \<le> bp + 8"
  shows "\<exists>c'. cpu_run 4 p c = Inr c' \<and> cpu_exit c' = Some 0 \<and> cpu_out c' = out \<and> cpu_heap c' = h"
proof -
  note at = at_program [OF assms(1)]
  have f0: "cpu_exit c = None" "cpu_regs c ASM_INTEL_RSP = bp" "cpu_heap c = h" "cpu_out c = out" "cpu_mem c (bp + 8) = 3"
    using assms(2,4,5) by (simp_all add: stacked_def)
  define c1 where "c1 = next_pc (reg_put ASM_INTEL_RBP (top_word c) (drop_word c))"
  have 1: "cpu_step p c = Inr c1"
    unfolding c1_def by (rule cpu_step_pop [OF at(8)]) (simp_all add: f0 assms(3))
  have f1: "cpu_exit c1 = None" "cpu_pc c1 = 9 + length body" "top_word c1 = 3" "cpu_heap c1 = h" "cpu_out c1 = out"
    by (simp_all add: c1_def f0 assms(3) top_word_def)
  define c2 where "c2 = (drop_word c1)\<lparr> cpu_pc := unat (top_word c1) \<rparr>"
  have 2: "cpu_step p c1 = Inr c2"
    unfolding c2_def by (rule cpu_step_ret [OF at(9)]) (simp_all add: f1)
  have f2: "cpu_exit c2 = None" "cpu_pc c2 = 3" "cpu_heap c2 = h" "cpu_out c2 = out"
    by (simp_all add: c2_def f1)
  define c3 where "c3 = next_pc (reg_put ASM_INTEL_RDI 0 c2)"
  have 3: "cpu_step p c2 = Inr c3"
    unfolding c3_def by (rule cpu_step_mov [OF at(3)]) (simp_all add: f2 operand_value_def IMM64_def)
  have f3: "cpu_exit c3 = None" "cpu_pc c3 = 4" "cpu_heap c3 = h" "cpu_out c3 = out" "cpu_regs c3 ASM_INTEL_RDI = 0"
    by (simp_all add: c3_def f2)
  have 4: "cpu_step p c3 = Inr (next_pc (c3\<lparr> cpu_exit := Some 0 \<rparr>))"
    using cpu_step_library [OF at(4) [OF f3(1,2)] program_labels(3) [OF assms(1)]] f3 by (simp add: call_library_def)
  have "cpu_run 4 p c = Inr (next_pc (c3\<lparr> cpu_exit := Some 0 \<rparr>))"
    using 1 2 3 4 by (simp add: numeral_nat)
  then show ?thesis using f3 by simp
qed

lemma room_for_frame:
  assumes "40 \<le> (sp :: u64)"
  shows "24 \<le> sp - 16" and "sp - 16 \<le> sp - 16 + 8"
proof -
  have sp: "40 \<le> unat sp" using assms by (simp add: word_le_nat_alt)
  have "unat (sp - 16) = unat sp - 16" using sp by (subst unat_sub) (simp_all add: word_le_nat_alt)
  moreover have "unat (sp - 8) = unat sp - 8" using sp by (subst unat_sub) (simp_all add: word_le_nat_alt)
  moreover have "sp - 16 + 8 = sp - 8" by simp
  ultimately show "24 \<le> sp - 16" "sp - 16 \<le> sp - 16 + 8" using sp by (simp_all only: word_le_nat_alt) simp_all
qed

lemma linked_data: "ctx_ok ctx \<Longrightarrow> has_data rs (linked rs noise asm (asm_data ctx)) (asm_data ctx)"
  using ctx_ok_distinct by (auto simp: has_data_def linked_def)

lemma program_runs:
  assumes "program_code p body" and "40 \<le> sp"
    and "\<And>bp m0. 24 \<le> bp \<Longrightarrow> triple p (stacked bp m0 [] [] []) body (stacked bp m0 [] heap out)"
  shows "\<exists>n c. cpu_run n p (start_cpu p sp regs mem) = Inr c \<and> cpu_exit c = Some 0 \<and> cpu_out c = out \<and> cpu_heap c = heap"
proof -
  obtain c1 where c1: "cpu_run 5 p (start_cpu p sp regs mem) = Inr c1" "cpu_pc c1 = 8"
    "stacked (sp - 16) (cpu_mem c1) [] [] [] c1" "cpu_mem c1 (sp - 16 + 8) = 3"
    by (rule enter_main [OF assms(1,2)])
  obtain c2 where c2: "exec_seq p body c1 = Inr c2" "stacked (sp - 16) (cpu_mem c1) [] heap out c2"
    using tripleD [OF assms(3) [OF room_for_frame(1) [OF assms(2)]] c1(3)] by blast
  have code: "prog_code p = start_code @ body @ end_code" "\<forall>n \<in> set body. straight p n" "cpu_pc c1 = length start_code"
    using assms(1) call_inst_straight [OF program_labels(4) [OF assms(1)]] c1(2) by (simp_all add: program_code_def start_code_def)
  have exit1: "cpu_exit c1 = None" using c1(3) by (simp add: stacked_def)
  from run_seq [OF c2(1) code(1,3) exit1 code(2)]
  have c2': "cpu_run (length body) p c1 = Inr c2" "cpu_pc c2 = 8 + length body" by (simp_all add: start_code_def)
  obtain c3 where c3: "cpu_run 4 p c2 = Inr c3" "cpu_exit c3 = Some 0" "cpu_out c3 = out" "cpu_heap c3 = heap"
    using leave_main [OF assms(1) c2(2) c2'(2) c1(4) room_for_frame(2) [OF assms(2)]] by blast
  have "cpu_run (5 + (length body + 4)) p (start_cpu p sp regs mem) = Inr c3"
    by (simp only: cpu_run_add c1(1) c2'(1) c3(1) rbind_simps)
  then show ?thesis using c3(2-4) by blast
qed

lemma compiled_runs:
  assumes "\<forall>node \<in> set nodes. println_ok node" and "length nodes < 2 ^ 62" and "reads_strings rs" and "40 \<le> sp"
  obtains asm ctx n c where
    "compile (NODE_ROOT l nodes) (compilation_context_create ARCH_X86_64) = Inr (asm, ctx)"
    and "cpu_run n (linked rs noise asm (asm_data ctx)) (start_cpu (linked rs noise asm (asm_data ctx)) sp regs mem) = Inr c"
    and "cpu_exit c = Some 0" and "cpu_out c = program_writes nodes" and "cpu_heap c = replicate (values_made nodes) None"
proof -
  obtain body ctx where 1:
    "compile (NODE_ROOT l nodes) (compilation_context_create ARCH_X86_64) = Inr (ASM_ROOT (start_code @ body @ end_code), ctx)"
    "ctx_ok ctx" "\<forall>n \<in> set (concat (map flatten body)). call_inst n"
    "\<forall>rs p bp m0. reads_strings rs \<longrightarrow> has_data rs p (asm_data ctx) \<longrightarrow> 24 \<le> bp \<longrightarrow>
      triple p (stacked bp m0 [] [] []) (concat (map flatten body))
        (stacked bp m0 [] (replicate (values_made nodes) None) (program_writes nodes))"
    by (rule compile_program_ok [OF assms(1,2)])
  let ?p = "linked rs noise (ASM_ROOT (start_code @ body @ end_code)) (asm_data ctx)"
  have p: "program_code ?p (concat (map flatten body))"
    using 1(3) by (simp add: program_code_def linked_def start_code_def end_code_def)
  obtain n c where "cpu_run n ?p (start_cpu ?p sp regs mem) = Inr c" "cpu_exit c = Some 0"
    "cpu_out c = program_writes nodes" "cpu_heap c = replicate (values_made nodes) None"
    using program_runs [OF p assms(4) 1(4) [rule_format, OF assms(3) linked_data [OF 1(2)]]] by blast
  then show ?thesis by (rule that [OF 1(1)])
qed


text \<open>An assembler that takes a backslash away from the character behind it.\<close>

fun unescape :: "string \<Rightarrow> string" where
  "unescape [] = []"
| "unescape (c # cs) =
     (if c = CHR 0x5C then (case cs of [] \<Rightarrow> [] | d # ds \<Rightarrow> d # unescape ds) else c # unescape cs)"

definition unquote :: "string \<Rightarrow> string" where
  "unquote s = unescape (butlast (tl s))"

lemma unescape_quotes: "plain_text s \<Longrightarrow> unescape (escape_quotes s) = s"
  by (induction s) (auto simp: plain_text_def)

lemma unquote_reads: "reads_strings unquote"
  by (simp add: reads_strings_def unquote_def string_param_def butlast_append unescape_quotes)

definition two_calls :: "ast_node list" where
  "two_calls =
     [NODE_EXPR_CALL zero_loc ''println'' [NODE_STRING zero_loc (''say '' @ [CHR 0x22] @ ''hi'' @ [CHR 0x22]), NODE_INT_LIT zero_loc 42],
      NODE_EXPR_CALL zero_loc ''println'' []]"


end
