(* ===== verification/Compile_Agree.thy ===== *)
theory Compile_Agree
  imports Compile_Program Block_Program
begin

text \<open>
  The compiler against the interpreter: where the two print the same for the same program, and
  where they do not.
\<close>

section \<open>Writes\<close>

fun write_text :: "rt_write \<Rightarrow> string" where
  "write_text (SYS_WRITE s) = s"
| "write_text (STDIO s) = s"

text \<open>Everything that goes through the buffer ends a line, so a terminal shows it at once.\<close>

definition ends_line :: "rt_write \<Rightarrow> bool" where
  "ends_line w = (case w of STDIO s \<Rightarrow> s \<noteq> [] \<and> last s = newline | SYS_WRITE s \<Rightarrow> True)"

lemma on_terminal_lines: "\<forall>w \<in> set ws. ends_line w \<Longrightarrow> on_terminal ws = concat (map write_text ws)"
proof (induction ws)
  case (Cons w ws)
  then show ?case by (cases w) (simp_all add: on_terminal_def ends_line_def)
qed (simp add: on_terminal_def)

lemma println_loop_lines: "\<forall>w \<in> set (fst (println_loop vs nl)). ends_line w"
  by (induction vs arbitrary: nl) (auto simp: Let_def case_prod_beta ends_line_def rt_print_val_def split: rt_value.splits)

lemma println_lines: "\<forall>w \<in> set (libblaze_fn_println vs). ends_line w"
  using println_loop_lines [of vs True]
  by (auto simp: libblaze_fn_println_def ends_line_def case_prod_beta)

text \<open>
  What is shown in the end when the output is not a terminal: first everything that was written by
  system calls, then everything that was in the buffer.
\<close>

fun is_stdio :: "rt_write \<Rightarrow> bool" where
  "is_stdio (STDIO s) = True"
| "is_stdio (SYS_WRITE s) = False"

lemma redirected_split:
  "shown_output (\<lambda>b. False) buf ws
     = concat (map write_text (filter (\<lambda>w. \<not> is_stdio w) ws)) @ buf @ concat (map write_text (filter is_stdio ws))"
proof (induction ws arbitrary: buf)
  case (Cons w ws)
  then show ?case by (cases w) simp_all
qed simp

section \<open>One call of println\<close>

text \<open>The value of the interpreter that a value of the library stands for.\<close>

definition same_value :: "machine \<Rightarrow> val_t \<Rightarrow> rt_value \<Rightarrow> bool" where
  "same_value m v r =
     (case r of
        RT_INTEGER i \<Rightarrow> val_data v = VAL_INTEGER i
      | RT_STRING s \<Rightarrow> (\<exists>a. val_data v = VAL_STRING a \<and> str_at a m = Inr (s, m)))"

fun arg_text :: "rt_value \<Rightarrow> string" where
  "arg_text (RT_STRING s) = s"
| "arg_text (RT_INTEGER i) = esc ''1;33'' @ fmt_d i @ esc ''0''"

fun args_text :: "rt_value list \<Rightarrow> string" where
  "args_text [] = []"
| "args_text [r] = arg_text r"
| "args_text (r # rs) = arg_text r @ '' '' @ args_text rs"

definition is_string :: "rt_value \<Rightarrow> bool" where
  "is_string r = (case r of RT_STRING s \<Rightarrow> True | _ \<Rightarrow> False)"

text \<open>A string cell keeps its content while text is written.\<close>

lemma str_at_out: "str_at a m = Inr (s, m) \<Longrightarrow> str_at a (m\<lparr> m_out := out \<rparr>) = Inr (s, m\<lparr> m_out := out \<rparr>)"
  by (auto simp: at_addr_def Let_def split: option.splits if_splits)

lemma same_value_out: "same_value m v r \<Longrightarrow> same_value (m\<lparr> m_out := out \<rparr>) v r"
  by (auto simp: same_value_def split: rt_value.splits dest: str_at_out)

lemma print_args_text:
  assumes "list_all2 (same_value m) vs rs"
  shows "print_args (Suc n) vs m = Inr ((), m\<lparr> m_out := m_out m @ args_text rs \<rparr>)"
  using assms
proof (induction vs arbitrary: rs m)
  case (Cons v vs)
  then obtain r rs' where rs: "rs = r # rs'" "same_value m v r" "list_all2 (same_value m) vs rs'"
    by (auto simp: list_all2_Cons1)
  let ?m1 = "m\<lparr> m_out := m_out m @ arg_text r \<rparr>"
  have first: "(case val_data v of VAL_STRING s \<Rightarrow> sbind (str_at s) print_out | _ \<Rightarrow> print_val_internal (Suc n) v False) m = Inr ((), ?m1)"
    using rs(2) by (cases r) (auto simp: same_value_def print_out_def print_val_body_def sbind_step)
  have keep: "list_all2 (same_value (m\<lparr> m_out := out \<rparr>)) vs rs'" for out
    using rs(3) by (rule list_all2_mono) (rule same_value_out)
  show ?case
  proof (cases "vs = []")
    case True
    then show ?thesis using rs(3) by (simp add: rs(1) sbind_step first)
  next
    case False
    then obtain r' rs'' where "rs' = r' # rs''" using rs(3) by (cases rs') auto
    then show ?thesis
      using False Cons.IH [OF keep [of "m_out m @ arg_text r @ '' ''"]]
      by (simp add: rs(1) sbind_step first print_out_def)
  qed
qed simp

text \<open>What the library shows of a call.\<close>

fun loop_text :: "rt_value list \<Rightarrow> string" where
  "loop_text [] = []"
| "loop_text (r # rs) =
     arg_text r @ (if is_string r then [] else [newline]) @ (if rs \<noteq> [] then '' '' else []) @ loop_text rs"

lemma println_loop_text:
  "concat (map write_text (fst (println_loop rs nl))) = loop_text rs"
  "snd (println_loop rs nl) \<longleftrightarrow> nl \<and> (\<forall>r \<in> set rs. is_string r)"
  by (induction rs arbitrary: nl) (auto simp: Let_def is_string_def rt_print_val_def case_prod_beta split: rt_value.splits)

lemma println_terminal:
  "on_terminal (libblaze_fn_println rs) = loop_text rs @ (if \<forall>r \<in> set rs. is_string r then [newline] else [])"
proof -
  have "on_terminal (libblaze_fn_println rs) = concat (map write_text (libblaze_fn_println rs))"
    by (rule on_terminal_lines [OF println_lines])
  then show ?thesis using println_loop_text [of rs True] by (simp add: libblaze_fn_println_def case_prod_beta)
qed

lemma same_text_iff:
  "rs \<noteq> [] \<Longrightarrow>
   loop_text rs @ (if \<forall>r \<in> set rs. is_string r then [newline] else []) = args_text rs @ [newline]
     \<longleftrightarrow> (\<forall>r \<in> set (butlast rs). is_string r)"
proof (induction rs rule: args_text.induct)
  case (3 r r' rs)
  show ?case
  proof (cases "is_string r")
    case True
    then show ?thesis using 3 by simp
  next
    case False
    then show ?thesis by (simp add: newline_def)
  qed
qed (auto simp: is_string_def split: rt_value.splits)

text \<open>
  C24. The two \<^verbatim>\<open>println\<close>. For the same strings and integers, the library of compiled programs
  shows on a terminal what the interpreter prints, exactly when no integer stands before the last
  argument: otherwise the library ends the line behind that integer.
\<close>

theorem println_agrees:
  assumes "list_all2 (same_value m) vs rs" and "vs \<noteq> []"
  shows "\<exists>out. builtin_println (Suc n) vs m = Inr (null_val, m\<lparr> m_out := m_out m @ out \<rparr>) \<and>
    (on_terminal (libblaze_fn_println rs) = out \<longleftrightarrow> (\<forall>r \<in> set (butlast rs). is_string r))"
proof -
  have "rs \<noteq> []" using assms by auto
  moreover have "builtin_println (Suc n) vs m = Inr (null_val, m\<lparr> m_out := m_out m @ args_text rs @ [newline] \<rparr>)"
    using assms(2) print_args_text [OF assms(1), of n]
    by (simp add: builtin_println_def builtin_print_def sbind_step print_out_def)
  ultimately show ?thesis
    using same_text_iff [of rs] println_terminal [of rs] by (intro exI [of _ "args_text rs @ [newline]"]) simp
qed

definition one_string_machine :: machine where
  "one_string_machine = (initial_machine empty_env)\<lparr> m_strings := [Some ''a''] \<rparr>"

lemma println_agrees_witness:
  "\<exists>out. builtin_println 1 [val_init (VAL_INTEGER 1), val_init (VAL_STRING (Some 0))] one_string_machine
      = Inr (null_val, one_string_machine\<lparr> m_out := m_out one_string_machine @ out \<rparr>) \<and>
    on_terminal (libblaze_fn_println [RT_INTEGER 1, RT_STRING ''a'']) \<noteq> out"
proof -
  have "list_all2 (same_value one_string_machine) [val_init (VAL_INTEGER 1), val_init (VAL_STRING (Some 0))]
      [RT_INTEGER 1, RT_STRING ''a'']"
    by (simp add: same_value_def val_init_def one_string_machine_def at_addr_def)
  from println_agrees [OF this, of 0] show ?thesis by (auto simp: is_string_def)
qed

section \<open>Programs\<close>

lemma on_terminal_append:
  "\<forall>w \<in> set ws. ends_line w \<Longrightarrow> \<forall>w \<in> set vs. ends_line w \<Longrightarrow> on_terminal (ws @ vs) = on_terminal ws @ on_terminal vs"
  using on_terminal_lines [of "ws @ vs"] on_terminal_lines [of ws] on_terminal_lines [of vs] by auto

lemma program_lines: "\<forall>w \<in> set (program_writes nodes). ends_line w"
  using println_lines by (auto simp: program_writes_def)

definition integer_println :: "ast_node \<Rightarrow> bool" where
  "integer_println node =
     (case node of
        NODE_EXPR_CALL l f args \<Rightarrow>
          f = ''println'' \<and> (case args of [a] \<Rightarrow> (case a of NODE_INT_LIT l' i \<Rightarrow> in_llong i | _ \<Rightarrow> False) | _ \<Rightarrow> False)
      | _ \<Rightarrow> False)"

lemma integer_println_cases:
  assumes "integer_println node"
  obtains l l' i where "node = NODE_EXPR_CALL l ''println'' [NODE_INT_LIT l' i]" and "in_llong i"
  using assms that
  by (cases node) (auto simp: integer_println_def split: list.splits ast_node.splits)

lemma integer_println_ok: "integer_println node \<Longrightarrow> println_ok node"
  by (elim integer_println_cases) (simp add: println_ok_def literal_ok_def)

text \<open>The reference semantics of such a program.\<close>

lemma ref_integer_printlns:
  assumes "\<forall>node \<in> set nodes. integer_println node"
  shows "\<exists>ds. ref_all (ref_eval (Suc (Suc n))) nodes (G, out) = Inr (ds, (G, out @ on_terminal (program_writes nodes)))"
  using assms
proof (induction nodes arbitrary: out)
  case Nil
  show ?case by (simp add: program_writes_def on_terminal_def)
next
  case (Cons node nodes)
  then obtain l l' i where node: "node = NODE_EXPR_CALL l ''println'' [NODE_INT_LIT l' i]"
    by (auto elim: integer_println_cases)
  let ?t = "on_terminal (libblaze_fn_println (println_args node))"
  have t: "?t = shown (VAL_INTEGER i) @ [newline]"
    by (simp add: node println_args_def literal_value_def println_terminal is_string_def shown_def)
  have first: "ref_eval (Suc (Suc n)) node (G, out) = Inr (VAL_NULL, (G, out @ ?t))"
    unfolding t by (simp add: node ref_body_def ref_print_def sbind_step emit_def)
  obtain ds where "ref_all (ref_eval (Suc (Suc n))) nodes (G, out @ ?t) = Inr (ds, (G, (out @ ?t) @ on_terminal (program_writes nodes)))"
    using Cons.IH [of "out @ ?t"] Cons.prems by (auto simp del: ref_eval.simps)
  moreover have "on_terminal (program_writes (node # nodes)) = ?t @ on_terminal (program_writes nodes)"
    using on_terminal_append [OF println_lines program_lines] by (simp add: program_writes_def)
  ultimately show ?case by (simp add: sbind_step first del: ref_eval.simps)
qed

lemma integer_printlns_in_fragment:
  assumes "\<forall>node \<in> set nodes. integer_println node"
  shows "in_fragment (NODE_ROOT l nodes)"
proof -
  have "in_fragment node" if "integer_println node" for node
    using that by (elim integer_println_cases) simp
  then show ?thesis using assms by simp
qed

lemma interpreted_integer_printlns:
  assumes "\<forall>node \<in> set nodes. integer_println node" and "parse_source filename content = Inr (NODE_ROOT l nodes)"
  shows "blaze (n + 4) env filename content = Inr (on_terminal (program_writes nodes))"
proof -
  define G where "G = [([''true'' \<mapsto> (VAL_BOOLEAN True, True), ''false'' \<mapsto> (VAL_BOOLEAN False, True),
      ''null'' \<mapsto> (VAL_NULL, True)], False)]"
  obtain ds where "ref_all (ref_eval (Suc (Suc n))) nodes (G, []) = Inr (ds, (G, [] @ on_terminal (program_writes nodes)))"
    using ref_integer_printlns [OF assms(1), of n G "[]"] by blast
  then have ref: "ref_run (Suc (Suc (Suc n))) (NODE_ROOT l nodes) = Inr (on_terminal (program_writes nodes))"
    by (simp add: ref_run_def ref_body_def sbind_step ref_eval.simps(2) [of "Suc (Suc n)"] G_def del: ref_eval.simps)
  obtain m where "run_tree (Suc (Suc (Suc (Suc n)))) (NODE_ROOT l nodes) (initial_machine env) = Inr ((), m)"
    "m_out m = on_terminal (program_writes nodes)"
    using run_tree_refines [OF integer_printlns_in_fragment [OF assms(1), of l], where n = "Suc (Suc (Suc n))" and env = env]
    unfolding ref by auto
  then show ?thesis by (simp add: blaze_def assms(2) numeral_nat del: eval.simps)
qed


definition printing_source :: string where
  "printing_source = ''println(7); println(12);''"

lemma printing_source_parsed:
  "case parse_source ''p'' printing_source of
     Inr (NODE_ROOT l nodes) \<Rightarrow> (\<forall>node \<in> set nodes. integer_println node) \<and> length nodes = 2
   | _ \<Rightarrow> False"
  by code_simp


text \<open>
  With its output in a file or a pipe, a compiled program shows the strings and the separators of
  all its calls first, and the integers, which wait in the buffer of \<^verbatim>\<open>stdout\<close>, at its end.
\<close>

lemma redirected_strings_first:
  "redirected (program_writes nodes)
     = concat (map write_text (filter (\<lambda>w. \<not> is_stdio w) (program_writes nodes)))
       @ concat (map write_text (filter is_stdio (program_writes nodes)))"
  by (simp add: redirected_def redirected_split)

lemma redirected_example:
  "redirected (libblaze_fn_println [RT_INTEGER 1] @ libblaze_fn_println [RT_STRING ''a''])
     = on_terminal (libblaze_fn_println [RT_STRING ''a''] @ libblaze_fn_println [RT_INTEGER 1])"
  by (simp add: redirected_def on_terminal_def libblaze_fn_println_def rt_print_val_def)

end
