(* ===== verification/Compile_Accepts.thy ===== *)
theory Compile_Accepts
  imports Compile_X86
begin

text \<open>
  Which trees the compiler accepts, and how it rejects the others.
\<close>

text \<open>A result is as it should be: a value if \<open>ok\<close>, and otherwise a reported error.\<close>

definition verdict :: "bool \<Rightarrow> 'a res \<Rightarrow> bool" where
  "verdict ok r \<longleftrightarrow>
     (if ok then \<exists>x. r = Inr x else \<exists>msg. r = Inl (Fatal_error msg) \<or> r = Inl (Assertion_failed msg))"

lemma verdict_Inr [simp]: "verdict ok (Inr x) = ok"
  by (simp add: verdict_def)

lemma verdict_Fatal [simp]: "verdict ok (Inl (Fatal_error msg)) = (\<not> ok)"
  by (simp add: verdict_def)

lemma verdict_Assertion [simp]: "verdict ok (Inl (Assertion_failed msg)) = (\<not> ok)"
  by (simp add: verdict_def)

lemma verdict_sbind:
  assumes "verdict ok (m s)" and "\<And>x t. ok \<Longrightarrow> m s = Inr (x, t) \<Longrightarrow> verdict ok' (f x t)"
  shows "verdict (ok \<and> ok') (sbind m f s)"
  using assms by (auto simp: verdict_def sbind_def split: if_splits)

text \<open>Roots of accepted trees: calls of \<^verbatim>\<open>println\<close> with at most two literals.\<close>

definition is_literal :: "ast_node \<Rightarrow> bool" where
  "is_literal a = (case a of NODE_INT_LIT l i \<Rightarrow> True | NODE_STRING l s \<Rightarrow> True | _ \<Rightarrow> False)"

fun accepted :: "ast_node \<Rightarrow> bool" where
  "accepted (NODE_ROOT l nodes) = (\<forall>node \<in> set nodes. accepted node)"
| "accepted (NODE_EXPR_CALL l f args) = (f = ''println'' \<and> length args < 3 \<and> (\<forall>a \<in> set args. is_literal a))"
| "accepted _ = False"

lemma verdict_expr: "verdict (is_literal a) (x86_64_compile_expr a ctx)"
  by (cases a) (simp_all add: is_literal_def x86_64_compile_expr_def new_label_def asm_data_push_def sbind_def)

lemma verdict_args: "verdict (\<forall>a \<in> set args. is_literal a) (compile_args args c node k ctx)"
proof (induction args arbitrary: c node k ctx)
  case (Cons a args)
  have "verdict (is_literal a \<and> (\<forall>a \<in> set args. is_literal a)) (compile_args (a # args) c node k ctx)"
    unfolding compile_args.simps by (rule verdict_sbind [OF verdict_expr]) (rule Cons.IH)
  then show ?case by simp
qed simp

lemma verdict_call: "verdict (accepted (NODE_EXPR_CALL l f args)) (x86_64_compile_call_expr f args ctx)"
proof -
  consider "\<not> length args < 3" | "length args < 3" "f \<noteq> ''println''" | "length args < 3" "f = ''println''" by blast
  then show ?thesis
  proof cases
    case 3
    have "verdict ((\<forall>a \<in> set args. is_literal a) \<and> True) (x86_64_compile_call_expr f args ctx)"
      unfolding x86_64_compile_call_expr_def x86_64_compile_call_expr_args_def
      using 3 by (simp add: builtin_function_defs_def Let_def) (rule verdict_sbind [OF verdict_args, where ok' = True, simplified], auto)
    then show ?thesis using 3 by simp
  qed (simp_all add: x86_64_compile_call_expr_def builtin_function_defs_def)
qed

lemma verdict_nodes:
  assumes "\<And>node ctx. node \<in> set nodes \<Longrightarrow> verdict (accepted node) (gen node ctx)"
  shows "verdict (\<forall>node \<in> set nodes. accepted node) (compile_nodes gen nodes a ctx)"
  using assms
proof (induction nodes arbitrary: a ctx)
  case (Cons node nodes)
  have "verdict (accepted node \<and> (\<forall>node \<in> set nodes. accepted node)) (compile_nodes gen (node # nodes) a ctx)"
    unfolding compile_nodes.simps
    by (rule verdict_sbind [where m = "gen node"]) (use Cons in auto)
  then show ?case by simp
qed simp

lemma verdict_compile: "verdict (accepted node) (x86_64_compile node ctx)"
proof (induction node arbitrary: ctx)
  case (NODE_ROOT l nodes)
  have "verdict ((\<forall>node \<in> set nodes. accepted node) \<and> True) (x86_64_compile (NODE_ROOT l nodes) ctx)"
    unfolding x86_64_compile.simps x86_64_compile_root_def Let_def
    by (rule verdict_sbind [OF verdict_nodes]) (auto intro: NODE_ROOT)
  then show ?case by simp
next
  case (NODE_EXPR_CALL l f args)
  show ?case unfolding x86_64_compile.simps by (rule verdict_call)
qed simp_all

text \<open>
  C23. What the compiler accepts: for x86-64, exactly the programs made of calls of
  \<^verbatim>\<open>println\<close> with at most two literal arguments. Every other tree, and every other architecture,
  ends with a fatal error or, for three arguments and more, with the failed assertion about their
  number; nothing is compiled in part.
\<close>

theorem compile_accepts:
  "if arch = ARCH_X86_64 \<and> accepted node
   then \<exists>asm ctx. compile node (compilation_context_create arch) = Inr (asm, ctx)
   else \<exists>msg. compile node (compilation_context_create arch) \<in> {Inl (Fatal_error msg), Inl (Assertion_failed msg)}"
proof (cases "arch = ARCH_X86_64")
  case True
  then have "compile node (compilation_context_create arch) = x86_64_compile node (compilation_context_create arch)"
    by (simp add: compile_def compilation_context_create_def sbind_step)
  then show ?thesis
    using verdict_compile [of node "compilation_context_create arch"] True by (auto simp: verdict_def split: if_splits)
next
  case False
  then show ?thesis by (simp add: compile_def compilation_context_create_def sbind_step)
qed

end
